(* ===== verification/VpnPrelude.thy ===== *)
theory VpnPrelude
  imports Main "HOL-Library.Word" "HOL-Library.Monad_Syntax" "HOL-Library.Sublist"
begin

text \<open>
  The vocabulary every component shares.

  A C string is a \<^typ>\<open>string\<close> without the terminating zero byte; a \<open>char *\<close> that may be
  \<open>NULL\<close> is a \<open>cstr\<close>, with \<^term>\<open>None\<close> for \<open>NULL\<close>.  A pointer \<^emph>\<open>into\<close> a string is the suffix
  of the string that starts at it, so pointer equality inside one string is equality of suffixes,
  \<open>*p\<close> is the head and \<open>p++\<close> the tail.  A computation that can run into undefined behaviour
  (reading past the end of a string, handing \<open>NULL\<close> to \<open>strcmp\<close>) returns an \<open>option\<close>, where
  \<^term>\<open>None\<close> is the undefined run, and is written in the option monad.

  Below: character classes and the C library's comparisons, bit flags held in a machine word,
  \<open>strtol\<close>-style number parsing and decimal printing, and the collections of simplification
  rules the component proofs use.
\<close>

unbundle bit_operations_syntax

named_theorems cstr_simps \<open>equations of the string operations\<close>
named_theorems tok_simps \<open>equations of the tokenizer on the separators the program uses\<close>
named_theorems flag_simps \<open>reading single bits of flag words\<close>
named_theorems halted_intros \<open>a stopped process has no further effect\<close>

type_synonym cstr = "string option"
type_synonym cint = "32 word"
type_synonym clong = "64 word"

section \<open>Characters\<close>

definition isspace :: "char \<Rightarrow> bool" where
  "isspace c \<longleftrightarrow> c = CHR '' '' \<or> c = CHR 0x09 \<or> c = CHR 0x0A \<or> c = CHR 0x0B \<or> c = CHR 0x0C \<or> c = CHR 0x0D"

definition isupper :: "char \<Rightarrow> bool" where
  "isupper c \<longleftrightarrow> 65 \<le> (of_char c :: nat) \<and> (of_char c :: nat) \<le> 90"

definition islower :: "char \<Rightarrow> bool" where
  "islower c \<longleftrightarrow> 97 \<le> (of_char c :: nat) \<and> (of_char c :: nat) \<le> 122"

definition isdigit :: "char \<Rightarrow> bool" where
  "isdigit c \<longleftrightarrow> 48 \<le> (of_char c :: nat) \<and> (of_char c :: nat) \<le> 57"

definition isalpha :: "char \<Rightarrow> bool" where
  "isalpha c \<longleftrightarrow> isupper c \<or> islower c"

text \<open>Bit 5 separates the cases of a letter.\<close>

definition tolower :: "char \<Rightarrow> char" where
  "tolower c = (case c of Char b0 b1 b2 b3 b4 b5 b6 b7 \<Rightarrow>
     if isupper c then Char b0 b1 b2 b3 b4 True b6 b7 else c)"

definition toupper :: "char \<Rightarrow> char" where
  "toupper c = (case c of Char b0 b1 b2 b3 b4 b5 b6 b7 \<Rightarrow>
     if islower c then Char b0 b1 b2 b3 b4 False b6 b7 else c)"

lemma tolower_upper: "isupper c \<Longrightarrow> \<not> isupper (tolower c)"
  by (cases c) (auto simp: tolower_def isupper_def of_char_def)

lemma tolower_tolower [simp]: "tolower (tolower c) = tolower c"
  by (cases "isupper c") (auto simp: tolower_upper tolower_def split: char.splits)

section \<open>Comparisons of the C library\<close>

text \<open>
  Only the outcome "equal" of the comparisons is used by the program: \<open>strcmp(a,b)==0\<close> is
  equality, \<open>strcasecmp(a,b)==0\<close> is equality of the lower-cased strings, and the \<open>n\<close> forms compare
  the first \<open>n\<close> bytes, stopping at the end of either string.
\<close>

definition strcaseeq :: "string \<Rightarrow> string \<Rightarrow> bool" where
  "strcaseeq a b \<longleftrightarrow> map tolower a = map tolower b"

definition strneq :: "string \<Rightarrow> string \<Rightarrow> nat \<Rightarrow> bool" where
  "strneq a b n \<longleftrightarrow> take n a = take n b"

definition strncaseeq :: "string \<Rightarrow> string \<Rightarrow> nat \<Rightarrow> bool" where
  "strncaseeq a b n \<longleftrightarrow> map tolower (take n a) = map tolower (take n b)"

lemma strcaseeq_refl [simp]: "strcaseeq a a"
  by (simp add: strcaseeq_def)

lemma strcaseeq_sym: "strcaseeq a b \<longleftrightarrow> strcaseeq b a"
  by (auto simp: strcaseeq_def)

lemma strcaseeq_trans: "strcaseeq a b \<Longrightarrow> strcaseeq b c \<Longrightarrow> strcaseeq a c"
  by (simp add: strcaseeq_def)

lemma strcaseeq_length: "strcaseeq a b \<Longrightarrow> length a = length b"
  unfolding strcaseeq_def by (metis length_map)

lemma strneq_prefix: "n = length b \<Longrightarrow> strneq a b n \<longleftrightarrow> (\<exists>r. a = b @ r)"
  unfolding strneq_def by (metis append_eq_conv_conj append_take_drop_id take_all order_refl)

section \<open>The suffix at the first occurrence of a character\<close>

text \<open>\<open>strchr\<close> for a character other than the terminator, and \<open>strrchr\<close>.\<close>

fun strchr :: "string \<Rightarrow> char \<Rightarrow> string option" where
  "strchr [] c = None"
| "strchr (x # xs) c = (if x = c then Some (x # xs) else strchr xs c)"

fun strrchr :: "string \<Rightarrow> char \<Rightarrow> string option" where
  "strrchr [] c = None"
| "strrchr (x # xs) c =
     (case strrchr xs c of Some r \<Rightarrow> Some r | None \<Rightarrow> if x = c then Some (x # xs) else None)"

lemma strchr_None_iff: "strchr s c = None \<longleftrightarrow> c \<notin> set s"
  by (induction s) auto

lemma strchr_SomeD: "strchr s c = Some r \<Longrightarrow> \<exists>p. s = p @ r \<and> c \<notin> set p \<and> (\<exists>t. r = c # t)"
proof (induction s)
  case (Cons x xs)
  show ?case
  proof (cases "x = c")
    case True
    with Cons.prems show ?thesis by auto
  next
    case False
    with Cons obtain p where "xs = p @ r" "c \<notin> set p" "\<exists>t. r = c # t" by auto
    with False show ?thesis by (intro exI [of _ "x # p"]) auto
  qed
qed simp

lemma strchr_append_notin: "c \<notin> set p \<Longrightarrow> strchr (p @ c # t) c = Some (c # t)"
  by (induction p) auto

lemma strrchr_SomeD: "strrchr s c = Some r \<Longrightarrow> \<exists>p t. s = p @ r \<and> r = c # t \<and> c \<notin> set t"
proof (induction s arbitrary: r)
  case (Cons x xs)
  show ?case
  proof (cases "strrchr xs c")
    case None
    moreover have "c \<notin> set xs" using None by (induction xs) (auto split: option.splits if_splits)
    ultimately show ?thesis using Cons.prems by (auto split: if_splits)
  next
    case (Some r')
    with Cons obtain p t where "xs = p @ r'" "r' = c # t" "c \<notin> set t" by blast
    with Some Cons.prems show ?thesis by (intro exI [of _ "x # p"] exI [of _ t]) auto
  qed
qed simp

section \<open>Bit flags\<close>

text \<open>\<open>Flags & F\<close> used as a condition.\<close>

definition has_flag :: "'a::len word \<Rightarrow> 'a word \<Rightarrow> bool" where
  "has_flag w f \<longleftrightarrow> w AND f \<noteq> 0"

lemma has_flag_exp [flag_simps]: "has_flag w (2 ^ n) \<longleftrightarrow> bit w n"
  by (simp add: has_flag_def and_exp_eq_0_iff_not_bit)

lemma has_flag_cint [flag_simps]:
  fixes w :: cint
  shows "has_flag w 1 \<longleftrightarrow> bit w 0" "has_flag w 2 \<longleftrightarrow> bit w 1" "has_flag w 4 \<longleftrightarrow> bit w 2"
    "has_flag w 8 \<longleftrightarrow> bit w 3" "has_flag w 16 \<longleftrightarrow> bit w 4" "has_flag w 32 \<longleftrightarrow> bit w 5"
    "has_flag w 64 \<longleftrightarrow> bit w 6" "has_flag w 128 \<longleftrightarrow> bit w 7" "has_flag w 2048 \<longleftrightarrow> bit w 11"
    "has_flag w 4096 \<longleftrightarrow> bit w 12" "has_flag w 65536 \<longleftrightarrow> bit w 16"
  using has_flag_exp [of w 0] has_flag_exp [of w 1] has_flag_exp [of w 2] has_flag_exp [of w 3]
    has_flag_exp [of w 4] has_flag_exp [of w 5] has_flag_exp [of w 6] has_flag_exp [of w 7]
    has_flag_exp [of w 11] has_flag_exp [of w 12] has_flag_exp [of w 16]
  by simp_all

lemma bit_cint_exp: "n < 32 \<Longrightarrow> bit (2 ^ n :: cint) m \<longleftrightarrow> m = n"
  by (auto simp: bit_exp_iff)

lemma bit_cint [flag_simps]:
  "bit (1::cint) m \<longleftrightarrow> m = 0" "bit (2::cint) m \<longleftrightarrow> m = 1" "bit (4::cint) m \<longleftrightarrow> m = 2"
  "bit (8::cint) m \<longleftrightarrow> m = 3" "bit (16::cint) m \<longleftrightarrow> m = 4" "bit (32::cint) m \<longleftrightarrow> m = 5"
  "bit (64::cint) m \<longleftrightarrow> m = 6" "bit (128::cint) m \<longleftrightarrow> m = 7" "bit (2048::cint) m \<longleftrightarrow> m = 11"
  "bit (4096::cint) m \<longleftrightarrow> m = 12" "bit (65536::cint) m \<longleftrightarrow> m = 16"
  using bit_cint_exp [of 0 m] bit_cint_exp [of 1 m] bit_cint_exp [of 2 m] bit_cint_exp [of 3 m]
    bit_cint_exp [of 4 m] bit_cint_exp [of 5 m] bit_cint_exp [of 6 m] bit_cint_exp [of 7 m]
    bit_cint_exp [of 11 m] bit_cint_exp [of 12 m] bit_cint_exp [of 16 m]
  by simp_all

lemmas word_bit_simps [flag_simps] = bit_and_iff bit_or_iff bit_not_iff

section \<open>Numbers in text\<close>

definition digit_val :: "char \<Rightarrow> int" where
  "digit_val c = (if isdigit c then int (of_char c :: nat) - 48
     else if isupper c then int (of_char c :: nat) - 55
     else if islower c then int (of_char c :: nat) - 87 else 99)"

fun digits_prefix :: "int \<Rightarrow> int \<Rightarrow> string \<Rightarrow> int \<times> string" where
  "digits_prefix radix acc [] = (acc, [])"
| "digits_prefix radix acc (c # cs) =
     (if digit_val c < radix then digits_prefix radix (acc * radix + digit_val c) cs else (acc, c # cs))"

text \<open>
  The common front of \<open>strtol\<close> and \<open>strtoul\<close>: leading white space, an optional sign, for radix 16
  an optional \<open>0x\<close>, then digits.  The result is the sign, the magnitude as an unbounded integer
  and the rest; without any digit the rest is the whole input.
\<close>

definition scan_sign :: "string \<Rightarrow> bool \<times> string" where
  "scan_sign t = (case t of [] \<Rightarrow> (False, [])
     | c # r \<Rightarrow> if c = CHR ''-'' then (True, r) else if c = CHR ''+'' then (False, r) else (False, t))"

definition scan_0x :: "int \<Rightarrow> string \<Rightarrow> string" where
  "scan_0x radix u =
     (if radix = 16 \<and> 2 < length u \<and> u ! 0 = CHR ''0'' \<and> tolower (u ! 1) = CHR ''x'' \<and> digit_val (u ! 2) < 16
      then drop 2 u else u)"

definition scan_int :: "int \<Rightarrow> string \<Rightarrow> bool \<times> int \<times> string" where
  "scan_int radix s =
     (let (neg, u) = scan_sign (dropWhile isspace s); v = scan_0x radix u
      in if v = [] \<or> \<not> digit_val (hd v) < radix then (False, 0, s)
         else (case digits_prefix radix 0 v of (n, r) \<Rightarrow> (neg, n, r)))"

definition strtol :: "int \<Rightarrow> string \<Rightarrow> int" where
  "strtol radix s = (case scan_int radix s of (neg, n, _) \<Rightarrow>
     if neg then max (- (2 ^ 63)) (- n) else min (2 ^ 63 - 1) n)"

text \<open>\<open>strtoul\<close> negates in the unsigned type and saturates; it also returns the end pointer.\<close>

definition strtoul :: "int \<Rightarrow> string \<Rightarrow> clong \<times> string" where
  "strtoul radix s = (case scan_int radix s of (neg, n, r) \<Rightarrow>
     (if n > 2 ^ 64 - 1 then - 1 else if neg then - word_of_int n else word_of_int n, r))"

definition atoi :: "string \<Rightarrow> cint" where
  "atoi s = word_of_int (strtol 10 s)"

fun nat_digits :: "nat \<Rightarrow> string" where
  "nat_digits n = (if n < 10 then [char_of (48 + n)] else nat_digits (n div 10) @ [char_of (48 + n mod 10)])"

declare nat_digits.simps [simp del]

text \<open>\<open>%d\<close> of a signed value, and \<open>%ld\<close> of a value that is not negative.\<close>

definition fmt_int :: "int \<Rightarrow> string" where
  "fmt_int i = (if i < 0 then CHR ''-'' # nat_digits (nat (- i)) else nat_digits (nat i))"

definition fmt_d :: "cint \<Rightarrow> string" where
  "fmt_d w = fmt_int (sint w)"

end
