(* ===== verification/CStrings.thy ===== *)
theory CStrings
  imports VpnPrelude
begin

text \<open>
  The resizeable strings of \<open>libUseful-bundled/String.c\<close>, and the small helpers of
  \<open>GeneralFunctions.c\<close> and \<open>FileSystem.c\<close> that work on strings alone.

  The functions of the source free or reallocate their first argument and return the new string;
  the model returns the new string.  The cache of string lengths (\<open>StrLenCache.c\<close>) is not part of
  the model: it never changes what a function returns unless a caller writes a zero byte into a
  string behind its back.
\<close>

section \<open>Validity, copying and concatenation\<close>

definition StrValid :: "cstr \<Rightarrow> bool" where
  "StrValid s \<longleftrightarrow> (case s of None \<Rightarrow> False | Some t \<Rightarrow> t \<noteq> [])"

definition StrEnd :: "cstr \<Rightarrow> bool" where
  "StrEnd s \<longleftrightarrow> (case s of None \<Rightarrow> True | Some t \<Rightarrow> t = [])"

definition StrLen :: "cstr \<Rightarrow> nat" where
  "StrLen s = (case s of None \<Rightarrow> 0 | Some t \<Rightarrow> length t)"

text \<open>The characters of a string, none for \<open>NULL\<close>.\<close>

definition chars :: "cstr \<Rightarrow> string" where
  "chars s = (case s of None \<Rightarrow> [] | Some t \<Rightarrow> t)"

definition CopyStrLen :: "cstr \<Rightarrow> cstr \<Rightarrow> nat \<Rightarrow> cstr" where
  "CopyStrLen Dest Src len = Some (take len (chars Src))"

definition CatStrLen :: "cstr \<Rightarrow> cstr \<Rightarrow> nat \<Rightarrow> cstr" where
  "CatStrLen Dest Src len = Some (chars Dest @ take len (chars Src))"

definition CatStr :: "cstr \<Rightarrow> cstr \<Rightarrow> cstr" where
  "CatStr Dest Src = CatStrLen Dest Src (StrLen Src)"

definition CopyStr :: "cstr \<Rightarrow> cstr \<Rightarrow> cstr" where
  "CopyStr Dest Src = CatStr (case Dest of None \<Rightarrow> None | Some _ \<Rightarrow> Some []) Src"

text \<open>
  The variadic functions stop at the first \<open>NULL\<close> among their arguments, whether it is the
  terminator the macros add or a string that happens to be \<open>NULL\<close>.
\<close>

fun VCatStr_loop :: "string \<Rightarrow> cstr list \<Rightarrow> string" where
  "VCatStr_loop acc [] = acc"
| "VCatStr_loop acc (None # args) = acc"
| "VCatStr_loop acc (Some s # args) = VCatStr_loop (acc @ s) args"

definition VCatStr :: "cstr \<Rightarrow> cstr list \<Rightarrow> cstr" where
  "VCatStr Dest args = Some (VCatStr_loop (chars Dest) args)"

definition MCatStr :: "cstr \<Rightarrow> cstr list \<Rightarrow> cstr" where
  "MCatStr Dest args = VCatStr Dest args"

definition MCopyStr :: "cstr \<Rightarrow> cstr list \<Rightarrow> cstr" where
  "MCopyStr Dest args = VCatStr (case Dest of None \<Rightarrow> None | Some _ \<Rightarrow> Some []) args"

lemma StrValid_simps [simp, cstr_simps]:
  "\<not> StrValid None" "StrValid (Some t) \<longleftrightarrow> t \<noteq> []"
  by (simp_all add: StrValid_def)

lemma StrEnd_StrValid [simp, cstr_simps]: "StrEnd s \<longleftrightarrow> \<not> StrValid s"
  by (cases s) (simp_all add: StrEnd_def)

lemma chars_simps [simp, cstr_simps]: "chars None = []" "chars (Some t) = t"
  by (simp_all add: chars_def)

lemma StrLen_chars [cstr_simps]: "StrLen s = length (chars s)"
  by (cases s) (simp_all add: StrLen_def)

lemma StrValid_chars: "StrValid s \<longleftrightarrow> chars s \<noteq> []"
  by (cases s) simp_all

lemma CatStr_eq [simp, cstr_simps]: "CatStr Dest Src = Some (chars Dest @ chars Src)"
  by (simp add: CatStr_def CatStrLen_def StrLen_chars)

lemma CopyStr_eq [simp, cstr_simps]: "CopyStr Dest Src = Some (chars Src)"
  by (simp add: CopyStr_def split: option.split)

lemma CopyStrLen_eq [simp, cstr_simps]: "CopyStrLen Dest Src n = Some (take n (chars Src))"
  by (simp add: CopyStrLen_def)

lemma VCatStr_loop_append: "VCatStr_loop (p @ acc) args = p @ VCatStr_loop acc args"
  by (induction acc args rule: VCatStr_loop.induct) simp_all

lemma VCatStr_loop_acc: "VCatStr_loop acc args = acc @ VCatStr_loop [] args"
  using VCatStr_loop_append [of acc "[]" args] by simp

lemma MCatStr_eq [cstr_simps]: "MCatStr Dest args = Some (chars Dest @ VCatStr_loop [] args)"
  by (simp add: MCatStr_def VCatStr_def VCatStr_loop_acc [of "chars Dest"])

lemma MCopyStr_eq [cstr_simps]: "MCopyStr Dest args = Some (VCatStr_loop [] args)"
  by (simp add: MCopyStr_def VCatStr_def split: option.split)

lemma VCatStr_loop_Somes: "VCatStr_loop acc (map Some ss) = acc @ concat ss"
  by (induction ss arbitrary: acc) auto

section \<open>Comparison\<close>

text \<open>\<open>CompareStr(..)==0\<close> and its variants: two strings that are both \<open>NULL\<close> or empty are equal.\<close>

definition CompareStr_eq :: "cstr \<Rightarrow> cstr \<Rightarrow> bool" where
  "CompareStr_eq S1 S2 =
     (if \<not> StrValid S1 \<and> \<not> StrValid S2 then True
      else if \<not> StrValid S1 then False else if \<not> StrValid S2 then False
      else chars S1 = chars S2)"

definition CompareStrNoCase_eq :: "cstr \<Rightarrow> cstr \<Rightarrow> bool" where
  "CompareStrNoCase_eq S1 S2 =
     (if \<not> StrValid S1 \<and> \<not> StrValid S2 then True
      else if \<not> StrValid S1 then False else if \<not> StrValid S2 then False
      else strcaseeq (chars S1) (chars S2))"

lemma CompareStr_eq_chars: "CompareStr_eq S1 S2 \<longleftrightarrow> chars S1 = chars S2"
  by (cases S1; cases S2) (auto simp: CompareStr_eq_def)

lemma CompareStrNoCase_eq_chars: "CompareStrNoCase_eq S1 S2 \<longleftrightarrow> strcaseeq (chars S1) (chars S2)"
  by (cases S1; cases S2) (auto simp: CompareStrNoCase_eq_def strcaseeq_def)

text \<open>\<open>List\<close> is the \<open>NULL\<close>-terminated array; the result is the index of the first match, or -1.\<close>

definition MATCH_TOKEN_PART :: cint where "MATCH_TOKEN_PART = 1"
definition MATCH_TOKEN_CASE :: cint where "MATCH_TOKEN_CASE = 2"

definition MatchToken_item :: "string \<Rightarrow> string \<Rightarrow> cint \<Rightarrow> bool" where
  "MatchToken_item Token Item Flags =
     (case (Token, Item) of
        (t # _, i # _) \<Rightarrow>
          (i = tolower t \<or> i = toupper t) \<and>
          (if has_flag Flags MATCH_TOKEN_PART
           then length Item \<le> length Token \<and>
                (if has_flag Flags MATCH_TOKEN_CASE then strneq Token Item (length Item)
                 else strncaseeq Token Item (length Item))
           else length Token = length Item \<and>
                (if has_flag Flags MATCH_TOKEN_CASE then Token = Item else strcaseeq Token Item))
      | _ \<Rightarrow> False)"

fun MatchToken_loop :: "string \<Rightarrow> string list \<Rightarrow> cint \<Rightarrow> int \<Rightarrow> int" where
  "MatchToken_loop Token [] Flags count = -1"
| "MatchToken_loop Token (Item # List) Flags count =
     (if MatchToken_item Token Item Flags then count else MatchToken_loop Token List Flags (count + 1))"

definition MatchTokenFromList :: "cstr \<Rightarrow> string list \<Rightarrow> cint \<Rightarrow> int" where
  "MatchTokenFromList Token List Flags =
     (if \<not> StrValid Token then -1 else MatchToken_loop (chars Token) List Flags 0)"

lemma MatchToken_loop_ge: "0 \<le> count \<Longrightarrow>
    MatchToken_loop Token List Flags count > -1 \<longleftrightarrow> (\<exists>i \<in> set List. MatchToken_item Token i Flags)"
  by (induction List arbitrary: count) auto

section \<open>White space\<close>

definition StripTrailingWhitespace :: "string \<Rightarrow> string" where
  "StripTrailingWhitespace s = rev (dropWhile isspace (rev s))"

definition StripLeadingWhitespace :: "string \<Rightarrow> string" where
  "StripLeadingWhitespace s = dropWhile isspace s"

definition StrTrim :: "string \<Rightarrow> string" where
  "StrTrim s = StripLeadingWhitespace (StripTrailingWhitespace s)"

definition StripCRLF :: "string \<Rightarrow> string" where
  "StripCRLF s = rev (dropWhile (\<lambda>c. c = CHR 0x0A \<or> c = CHR 0x0D) (rev s))"

lemma StripTrailing_id: "s = [] \<or> \<not> isspace (last s) \<Longrightarrow> StripTrailingWhitespace s = s"
  by (cases s rule: rev_cases) (auto simp: StripTrailingWhitespace_def)

lemma StripTrailing_last: "StripTrailingWhitespace s \<noteq> [] \<Longrightarrow> \<not> isspace (last (StripTrailingWhitespace s))"
  unfolding StripTrailingWhitespace_def by (simp add: last_rev hd_dropWhile)

lemma StripTrailing_idem [simp]:
  "StripTrailingWhitespace (StripTrailingWhitespace s) = StripTrailingWhitespace s"
  using StripTrailing_id StripTrailing_last by blast

lemma StripTrailing_snoc_space: "isspace c \<Longrightarrow> StripTrailingWhitespace (s @ [c]) = StripTrailingWhitespace s"
  by (simp add: StripTrailingWhitespace_def)

lemma StripTrailing_split: "\<exists>w. s = StripTrailingWhitespace s @ w \<and> (\<forall>c \<in> set w. isspace c)"
proof -
  have "s = rev (dropWhile isspace (rev s)) @ rev (takeWhile isspace (rev s))"
    by (metis rev_append rev_rev_ident takeWhile_dropWhile_id)
  moreover have "\<forall>c \<in> set (rev (takeWhile isspace (rev s))). isspace c"
    by (auto dest: set_takeWhileD)
  ultimately show ?thesis unfolding StripTrailingWhitespace_def by blast
qed

section \<open>Quotes\<close>

text \<open>
  The loop over the start characters keeps the last one that matches; a start character without
  a companion in \<open>EndChars\<close> cancels what an earlier one set.
\<close>

fun StripStartEnd_pick :: "char \<Rightarrow> string \<Rightarrow> string \<Rightarrow> char option \<Rightarrow> char option" where
  "StripStartEnd_pick c [] EndChars r = r"
| "StripStartEnd_pick c (s # StartChars) EndChars r =
     StripStartEnd_pick c StartChars (tl EndChars)
       (if s = c then (case EndChars of [] \<Rightarrow> None | e # _ \<Rightarrow> Some e) else r)"

definition StripStartEndChars :: "string \<Rightarrow> string \<Rightarrow> string \<Rightarrow> string" where
  "StripStartEndChars s StartChars EndChars =
     (let t = StripTrailingWhitespace s; ptr = dropWhile isspace t
      in case ptr of [] \<Rightarrow> t
         | c # r \<Rightarrow> (case StripStartEnd_pick c StartChars EndChars None of
               None \<Rightarrow> t
             | Some e \<Rightarrow> if last ptr = e then butlast r else t))"

definition StripQuotes :: "string \<Rightarrow> string" where
  "StripQuotes s = StripStartEndChars s [CHR 0x27, CHR 0x22] [CHR 0x27, CHR 0x22]"

lemma StripQuotes_plain:
  assumes "v = [] \<or> (\<not> isspace (hd v) \<and> hd v \<noteq> CHR 0x27 \<and> hd v \<noteq> CHR 0x22 \<and> \<not> isspace (last v))"
  shows "StripQuotes v = v"
  using assms by (cases v) (auto simp: StripQuotes_def StripStartEndChars_def StripTrailing_id Let_def)

fun QuoteCharsInStr :: "string \<Rightarrow> string \<Rightarrow> string" where
  "QuoteCharsInStr [] QuoteChars = []"
| "QuoteCharsInStr (c # cs) QuoteChars =
     (if c \<in> set QuoteChars
      then CHR 0x5C # (if c = CHR 0x0A then CHR ''n'' else if c = CHR 0x0D then CHR ''r'' else c)
             # QuoteCharsInStr cs QuoteChars
      else c # QuoteCharsInStr cs QuoteChars)"

section \<open>Pointers into strings\<close>

text \<open>\<open>ptr_incr\<close> never passes the terminator.\<close>

definition ptr_incr :: "string \<Rightarrow> nat \<Rightarrow> string" where
  "ptr_incr p count = drop count p"

fun traverse_until :: "string \<Rightarrow> char \<Rightarrow> string" where
  "traverse_until [] t = []"
| "traverse_until (c # cs) t =
     (if c = t then c # cs
      else if c = CHR 0x5C then (case cs of [] \<Rightarrow> [] | _ # ds \<Rightarrow> traverse_until ds t)
      else traverse_until cs t)"

definition traverse_quoted :: "string \<Rightarrow> string" where
  "traverse_quoted p = (case p of [] \<Rightarrow> [] | q # r \<Rightarrow> traverse_until r q)"

lemma traverse_until_suffix: "suffix (traverse_until s t) s"
proof (induction s t rule: traverse_until.induct)
  case (2 c cs t)
  then show ?case by (cases cs) (auto intro: suffix_ConsI)
qed simp

text \<open>\<open>CommaList\<close> of \<open>GeneralFunctions.c\<close>.\<close>

definition CommaList :: "cstr \<Rightarrow> cstr \<Rightarrow> cstr" where
  "CommaList RetStr AddStr =
     (if StrValid RetStr then MCatStr RetStr [Some '', '', AddStr] else CopyStr RetStr AddStr)"

definition StrTrunc :: "string \<Rightarrow> nat \<Rightarrow> string" where
  "StrTrunc s n = (if n < length s then take n s else s)"

definition StrRTruncChar :: "string \<Rightarrow> char \<Rightarrow> string" where
  "StrRTruncChar s t =
     (case strrchr s t of None \<Rightarrow> s | Some p \<Rightarrow> StrTrunc s (length s - length p))"

section \<open>Undoing backslash quoting\<close>

text \<open>
  \<open>UnQuoteStr\<close> writes at an explicit output position \<open>olen\<close> and may write zero bytes, so the
  buffer is modelled with them and the string it holds ends at the first.  \<open>AddCharToBuffer\<close> also
  writes a terminator, which cuts off whatever was beyond.  The Unicode functions take the value
  of \<open>GlobalUnicodeLevel\<close> as an argument.  A backslash (or an incomplete escape) that ends the
  string makes the loop step over the terminator: undefined, \<^term>\<open>None\<close>.
\<close>

definition visible :: "string \<Rightarrow> string" where
  "visible buf = takeWhile (\<lambda>c. c \<noteq> CHR 0x00) buf"

definition AddCharToBuffer :: "string \<Rightarrow> nat \<Rightarrow> char \<Rightarrow> string" where
  "AddCharToBuffer buf n c = take n (buf @ replicate n (CHR 0x00)) @ [c]"

definition UnicodeEncodeChar :: "string \<Rightarrow> nat \<Rightarrow> int \<Rightarrow> string" where
  "UnicodeEncodeChar buf level code =
     (if code = 0 \<or> level = 0 then visible buf @ ''?''
      else visible buf @
        (if code < 2048
         then [char_of (192 + (code div 64) mod 32), char_of (128 + code mod 64)]
         else if code < 65536
         then (if level > 1 then [char_of (224 + code div 4096), char_of (128 + (code div 64) mod 64),
                                  char_of (128 + code mod 64)] else ''?'')
         else (if level > 2 \<and> code < 1114112
               then [char_of (240 + code div 262144), char_of (128 + (code div 4096) mod 64),
                     char_of (128 + (code div 64) mod 64), char_of (128 + code mod 64)] else ''?'')))"

definition BufferAddUnicodeChar :: "nat \<Rightarrow> string \<Rightarrow> nat \<Rightarrow> int \<Rightarrow> string" where
  "BufferAddUnicodeChar level buf n u =
     (if u = 160 then AddCharToBuffer buf n CHR '' ''
      else if u \<in> {8208, 8209, 8210, 8211, 8212, 8213} then AddCharToBuffer buf n CHR ''-''
      else if u = 8216 \<or> u = 8217 then AddCharToBuffer buf n CHR 0x27
      else if u = 8218 then AddCharToBuffer buf n CHR '',''
      else if u = 8219 then AddCharToBuffer buf n CHR 0x60
      else if u = 8220 \<or> u = 8221 \<or> u = 8222 then AddCharToBuffer buf n CHR 0x22
      else if u = 8228 then AddCharToBuffer buf n CHR ''.''
      else if u = 8249 then AddCharToBuffer buf n CHR ''<''
      else if u = 8250 then AddCharToBuffer buf n CHR ''>''
      else if u = 8260 then AddCharToBuffer buf n CHR ''/''
      else if u = 8270 \<or> u = 8277 then AddCharToBuffer buf n CHR ''*''
      else if 0 \<le> u \<and> u < 127 then AddCharToBuffer buf n (char_of u)
      else UnicodeEncodeChar buf level u)"

definition StrAddUnicodeChar :: "nat \<Rightarrow> string \<Rightarrow> int \<Rightarrow> string" where
  "StrAddUnicodeChar level buf u = BufferAddUnicodeChar level buf (length (visible buf)) u"

function UnQuote_loop :: "nat \<Rightarrow> string \<Rightarrow> string \<Rightarrow> nat \<Rightarrow> string option" where
  "UnQuote_loop level [] buf olen = Some buf"
| "UnQuote_loop level (c # cs) buf olen =
     (if c \<noteq> CHR 0x5C then UnQuote_loop level cs (AddCharToBuffer buf olen c) (Suc olen)
      else case cs of
        [] \<Rightarrow> None
      | d # r \<Rightarrow>
          if d = CHR ''x'' then
            (case r of
               h0 # h1 # r2 \<Rightarrow> UnQuote_loop level r2
                 (AddCharToBuffer buf olen (char_of (strtol 16 [h0, h1] mod 256))) (Suc olen)
             | _ \<Rightarrow> None)
          else if d = CHR ''u'' then
            (case drop 3 r of
               [] \<Rightarrow> None
             | _ # r2 \<Rightarrow> UnQuote_loop level r2
                 (StrAddUnicodeChar level buf (strtol 16 (take 4 r))) (Suc olen))
          else UnQuote_loop level r
            (AddCharToBuffer buf olen
               (if d = CHR ''e'' then CHR 0x1B else if d = CHR ''n'' then CHR 0x0A
                else if d = CHR ''r'' then CHR 0x0D else if d = CHR ''t'' then CHR 0x09 else d))
            (Suc olen))"
  by pat_completeness auto
termination
proof (relation "measure (\<lambda>(_, s, _, _). length s)", goal_cases)
  case (3 level c cs buf olen d r h0 h1)
  have "length (drop 3 r) < Suc (Suc (length r))" by simp
  with 3 show ?case by (auto dest: arg_cong [where f = length])
qed (auto dest: arg_cong [where f = length])

definition UnQuoteStr :: "nat \<Rightarrow> string \<Rightarrow> string option" where
  "UnQuoteStr level Line = map_option visible (UnQuote_loop level Line [] 0)"

text \<open>Without a backslash nothing changes.\<close>

lemma UnQuote_loop_plain:
  "CHR 0x5C \<notin> set s \<Longrightarrow> UnQuote_loop level s buf (length buf) = Some (buf @ s)"
proof (induction s arbitrary: buf)
  case (Cons a s)
  then have "UnQuote_loop level s (buf @ [a]) (length (buf @ [a])) = Some ((buf @ [a]) @ s)"
    by (intro Cons.IH) simp
  with Cons.prems show ?case by (auto simp: AddCharToBuffer_def)
qed simp

lemma UnQuoteStr_plain: "CHR 0x5C \<notin> set s \<Longrightarrow> CHR 0x00 \<notin> set s \<Longrightarrow> UnQuoteStr level s = Some s"
  using UnQuote_loop_plain [of s level "[]"]
  by (auto simp: UnQuoteStr_def visible_def takeWhile_eq_all_conv)

section \<open>Lines\<close>

text \<open>The lines of a file, each with the newline that ends it.\<close>

function file_lines :: "string \<Rightarrow> string list" where
  "file_lines s = (if s = [] then []
     else if CHR 0x0A \<in> set s
     then (takeWhile (\<lambda>c. c \<noteq> CHR 0x0A) s @ [CHR 0x0A]) # file_lines (drop 1 (dropWhile (\<lambda>c. c \<noteq> CHR 0x0A) s))
     else [s])"
  by pat_completeness auto
termination
proof (relation "measure length", goal_cases)
  case (2 s)
  then have "0 < length s" by simp
  moreover have "length (dropWhile (\<lambda>x. x \<noteq> CHR 0x0A) s) \<le> length s" by (rule length_dropWhile_le)
  ultimately have "length (dropWhile (\<lambda>x. x \<noteq> CHR 0x0A) s) - 1 < length s" by linarith
  then show ?case by simp
qed simp

declare file_lines.simps [simp del]

lemma file_lines_Nil [simp]: "file_lines [] = []"
  by (simp add: file_lines.simps)

lemma file_lines_line: "CHR 0x0A \<notin> set s \<Longrightarrow> file_lines (s @ CHR 0x0A # r) = (s @ [CHR 0x0A]) # file_lines r"
  by (subst file_lines.simps) (simp add: takeWhile_append2 dropWhile_append)

end
