(* ===== verification/Tokenizer.thy ===== *)
theory Tokenizer
  imports CStrings
begin

text \<open>
  \<open>libUseful-bundled/Tokenizer.c\<close> and \<open>StringList.c\<close>: cutting tokens off the front of a string.

  \<open>GetToken\<close> takes a pointer into a string and returns the pointer behind the separator it found,
  as a suffix here, together with the token.  The separator is a pattern: a plain string, one that
  contains \<open>\S\<close> (a run of white space) or \<open>\X\<close> (white space or one of a few operators), or a list of
  these split at \<open>|\<close>.  The scanning functions of the source update \<open>*start\<close>, \<open>*end\<close> and \<open>*Flags\<close> of
  their caller also when they fail; the model returns all three.

  The lemmas of the last sections: the returned pointer is always strictly behind the one passed
  in, so each \<open>while (ptr)\<close> loop over \<open>GetToken\<close> ends (whatever the flags); the single-character
  separators the program uses split exactly at each occurrence.
\<close>

definition GETTOKEN_MULTI_SEP :: cint where "GETTOKEN_MULTI_SEP = 1"
definition GETTOKEN_HONOR_QUOTES :: cint where "GETTOKEN_HONOR_QUOTES = 2"
definition GETTOKEN_STRIP_QUOTES :: cint where "GETTOKEN_STRIP_QUOTES = 4"
definition GETTOKEN_QUOTES :: cint where "GETTOKEN_QUOTES = 6"
definition GETTOKEN_INCLUDE_SEP :: cint where "GETTOKEN_INCLUDE_SEP = 8"
definition GETTOKEN_APPEND_SEP :: cint where "GETTOKEN_APPEND_SEP = 16"
definition GETTOKEN_BACKSLASH :: cint where "GETTOKEN_BACKSLASH = 32"
definition GETTOKEN_STRIP_SPACE :: cint where "GETTOKEN_STRIP_SPACE = 64"
definition GETTOKEN_FOUND_BACKSLASH :: cint where "GETTOKEN_FOUND_BACKSLASH = 128"

lemmas gettoken_flag_defs [flag_simps] =
  GETTOKEN_MULTI_SEP_def GETTOKEN_HONOR_QUOTES_def GETTOKEN_STRIP_QUOTES_def GETTOKEN_QUOTES_def
  GETTOKEN_INCLUDE_SEP_def GETTOKEN_APPEND_SEP_def GETTOKEN_BACKSLASH_def
  GETTOKEN_STRIP_SPACE_def GETTOKEN_FOUND_BACKSLASH_def

abbreviation is_quote :: "char \<Rightarrow> bool" where
  "is_quote c \<equiv> c = CHR 0x22 \<or> c = CHR 0x27"

section \<open>Stepping through the string\<close>

definition GetTokenStepThru :: "string \<Rightarrow> cint \<Rightarrow> string \<times> cint" where
  "GetTokenStepThru Str Flags =
     (case Str of
        [] \<Rightarrow> (Str, Flags)
      | c # cs \<Rightarrow>
          if c = CHR 0x5C \<and> \<not> has_flag Flags GETTOKEN_BACKSLASH
          then (let Flags' = Flags OR GETTOKEN_FOUND_BACKSLASH
                in case cs of [] \<Rightarrow> (cs, Flags') | _ # ds \<Rightarrow> (ds, Flags'))
          else if is_quote c \<and> has_flag Flags GETTOKEN_HONOR_QUOTES
          then (ptr_incr (traverse_quoted Str) 1, Flags)
          else (cs, Flags))"

section \<open>Matching one separator pattern\<close>

datatype match_type = TOK_NONE | TOK_SPACE | TOK_CODE

text \<open>
  The body of the loop of \<open>GetTokenSepMatch\<close> for the text character \<open>e\<close> (with \<open>es\<close> after it) and the
  pattern character \<open>pc\<close> (\<^term>\<open>None\<close> at the end of the pattern): either the function returns
  \<open>FALSE\<close>, with \<open>*start\<close> and \<open>*Flags\<close>, or it goes on at the given text with the given match type.
\<close>

definition SepMatch_char :: "char option \<Rightarrow> match_type \<Rightarrow> char \<Rightarrow> string \<Rightarrow> string \<Rightarrow> cint
    \<Rightarrow> (string \<times> cint) + (string \<times> match_type)" where
  "SepMatch_char pc MT e es start Flags =
     (if e = CHR 0x5C then
        (if has_flag Flags GETTOKEN_BACKSLASH
         then (if pc \<noteq> Some e then Inl (start, Flags) else Inr (es, MT))
         else Inl (es, Flags OR GETTOKEN_FOUND_BACKSLASH))
      else if is_quote e then
        (if has_flag Flags GETTOKEN_HONOR_QUOTES then Inl (start, Flags)
         else if pc \<noteq> Some e then Inl (start, Flags) else Inr (es, MT))
      else if e = CHR '' '' \<or> e = CHR 0x09 \<or> e = CHR 0x0A \<or> e = CHR 0x0D then
        (if MT = TOK_SPACE \<or> MT = TOK_CODE then Inr (dropWhile isspace es, TOK_NONE)
         else if pc \<noteq> Some e then Inl (start, Flags) else Inr (es, MT))
      else if e \<in> set ''()=!<>'' then
        (if MT = TOK_CODE then Inr (es, TOK_NONE)
         else if pc \<noteq> Some e then Inl (start, Flags) else Inr (es, MT))
      else (if MT \<noteq> TOK_NONE then Inl (start, Flags)
            else if pc \<noteq> Some e then Inl (start, Flags) else Inr (es, MT)))"

lemma SepMatch_char_Inr: "SepMatch_char pc MT e es start Flags = Inr (X, M) \<Longrightarrow> suffix X es"
  by (auto simp: SepMatch_char_def suffix_dropWhile split: if_splits)

lemma SepMatch_char_Inl: "SepMatch_char pc MT e es start Flags = Inl (st, Fl) \<Longrightarrow> st = start \<or> st = es"
  by (auto simp: SepMatch_char_def split: if_splits)

text \<open>
  The loop.  The first component of the result says whether the pattern matched; the others are
  \<open>*start\<close>, \<open>*end\<close> and \<open>*Flags\<close>.
\<close>

definition SepMatch_pattern :: "string \<Rightarrow> match_type \<Rightarrow> string \<times> char option \<times> match_type" where
  "SepMatch_pattern pptr MatchType =
     (let pptr' = (case pptr of [] \<Rightarrow> [] | p # ps \<Rightarrow> if p = CHR 0x5C then ps else pptr);
          pc = (case pptr' of [] \<Rightarrow> None | q # _ \<Rightarrow> Some q)
      in (pptr', pc,
          if pptr' = pptr then MatchType
          else if pc = Some CHR ''S'' then TOK_SPACE else if pc = Some CHR ''X'' then TOK_CODE
          else MatchType))"

function SepMatch_loop :: "string \<Rightarrow> string \<Rightarrow> match_type \<Rightarrow> string \<Rightarrow> cstr \<Rightarrow> cint
    \<Rightarrow> bool \<times> string \<times> cstr \<times> cint" where
  "SepMatch_loop pptr eptr MatchType start send Flags =
     (if pptr = [] then (True, start, Some eptr, Flags)
      else case SepMatch_pattern pptr MatchType of (pptr', pc, MT) \<Rightarrow>
        (case eptr of
           [] \<Rightarrow> (False, [], Some [], Flags)
         | e # es \<Rightarrow>
             (case SepMatch_char pc MT e es start Flags of
                Inl (st, Fl) \<Rightarrow> (False, st, send, Fl)
              | Inr (X, M) \<Rightarrow> SepMatch_loop (ptr_incr pptr' 1) X M start send Flags)))"
  by pat_completeness auto
termination
  by (relation "measure (\<lambda>(_, e, _). length e)")
    (auto dest!: SepMatch_char_Inr suffix_length_le)

declare SepMatch_loop.simps [simp del]

definition GetTokenSepMatch :: "string \<Rightarrow> string \<Rightarrow> cstr \<Rightarrow> cint \<Rightarrow> bool \<times> string \<times> cstr \<times> cint" where
  "GetTokenSepMatch Pattern start send Flags =
     (if send = Some start then (False, start, send, Flags)
      else SepMatch_loop Pattern start TOK_NONE start send Flags)"

lemma SepMatch_loop_suffix:
  "SepMatch_loop pptr eptr MT start send Flags = (m, st, en, Fl) \<Longrightarrow> suffix eptr start
   \<Longrightarrow> suffix st start \<and> (m \<longrightarrow> st = start \<and> (\<exists>e. en = Some e \<and> suffix e eptr \<and> (pptr \<noteq> [] \<longrightarrow> length e < length eptr)))"
proof (induction "length eptr" arbitrary: pptr eptr MT rule: less_induct)
  case less
  show ?case
  proof (cases pptr)
    case Nil
    then show ?thesis using less.prems by (auto simp: SepMatch_loop.simps [of "[]" eptr])
  next
    case pp: (Cons p ps)
    show ?thesis
    proof (cases eptr)
      case Nil
      then show ?thesis using less.prems pp
        by (auto simp: SepMatch_loop.simps [of "p # ps" "[]"] Let_def)
    next
      case ep: (Cons e es)
      from less.prems ep have es: "suffix es start" by (auto dest: suffix_ConsD)
      obtain p' pc M where pat: "SepMatch_pattern pptr MT = (p', pc, M)"
        by (metis prod_cases3)
      show ?thesis
      proof (cases "SepMatch_char pc M e es start Flags")
        case (Inl r)
        then obtain st' Fl' where c: "SepMatch_char pc M e es start Flags = Inl (st', Fl')"
          by (cases r) auto
        then have "st' = start \<or> st' = es" by (rule SepMatch_char_Inl)
        then show ?thesis using less.prems pp ep pat c es
          by (auto simp: SepMatch_loop.simps [of "p # ps" "e # es"])
      next
        case (Inr r)
        then obtain X N where c: "SepMatch_char pc M e es start Flags = Inr (X, N)"
          by (cases r) auto
        then have X: "suffix X es" by (rule SepMatch_char_Inr)
        then have "length X < length eptr" using ep by (auto dest: suffix_length_le)
        moreover have "suffix X start" using X es by (rule suffix_order.trans)
        moreover have "SepMatch_loop (ptr_incr p' 1) X N start send Flags = (m, st, en, Fl)"
          using less.prems pp ep pat c by (simp add: SepMatch_loop.simps [of "p # ps" "e # es"])
        ultimately have IH: "suffix st start \<and> (m \<longrightarrow> st = start \<and> (\<exists>e. en = Some e \<and> suffix e X))"
          using less.hyps [of X "ptr_incr p' 1" N] by blast
        have "suffix e' eptr \<and> length e' < length eptr" if "suffix e' X" for e'
        proof -
          have "suffix e' es" using that X by (rule suffix_order.trans)
          then show ?thesis using ep by (auto intro: suffix_ConsI dest: suffix_length_le)
        qed
        with IH show ?thesis by blast
      qed
    qed
  qed
qed

lemma GetTokenSepMatch_start:
  "GetTokenSepMatch Pattern start send Flags = (m, st, en, Fl) \<Longrightarrow> suffix st start"
  using SepMatch_loop_suffix [of Pattern start TOK_NONE start send Flags m st en Fl]
  by (auto simp: GetTokenSepMatch_def split: if_splits)

lemma GetTokenSepMatch_match:
  "GetTokenSepMatch Pattern start send Flags = (True, st, en, Fl) \<Longrightarrow> Pattern \<noteq> []
   \<Longrightarrow> st = start \<and> (\<exists>e. en = Some e \<and> suffix e start \<and> length e < length start)"
  using SepMatch_loop_suffix [of Pattern start TOK_NONE start send Flags True st en Fl]
  by (auto simp: GetTokenSepMatch_def split: if_splits)

lemma GetTokenStepThru_cases:
  "fst (GetTokenStepThru (c # cs) Fl) \<in> {cs, drop 1 cs, drop 1 (traverse_until cs c)}"
  by (simp add: GetTokenStepThru_def Let_def ptr_incr_def traverse_quoted_def split: list.split)

lemma GetTokenStepThru_Cons: "suffix (fst (GetTokenStepThru (c # cs) Fl)) cs"
proof -
  have "suffix (drop 1 (traverse_until cs c)) cs"
    using traverse_until_suffix [of cs c] by (meson suffix_drop suffix_order.trans)
  moreover have "suffix (drop 1 cs) cs" by (rule suffix_drop)
  ultimately show ?thesis using GetTokenStepThru_cases [of c cs Fl] by fastforce
qed

lemma GetTokenStepThru_suffix: "suffix (fst (GetTokenStepThru s Fl)) s"
  by (cases s) (simp_all add: GetTokenStepThru_def [of "[]"] suffix_ConsI [OF GetTokenStepThru_Cons])

lemma GetTokenStepThru_shorter:
  "s \<noteq> [] \<Longrightarrow> length (fst (GetTokenStepThru s Fl)) < length s"
  using suffix_length_le [OF GetTokenStepThru_Cons] by (cases s) (simp_all add: less_Suc_eq_le)

section \<open>Finding the separator\<close>

text \<open>The result is \<open>*SepStart\<close>, \<open>*SepEnd\<close> and \<open>*Flags\<close>.\<close>

function FindSep_loop :: "string \<Rightarrow> string \<Rightarrow> cstr \<Rightarrow> cint \<Rightarrow> string \<times> string \<times> cint" where
  "FindSep_loop Pattern start_ptr end_ptr Flags =
     (case start_ptr of
        [] \<Rightarrow> ([], [], Flags)
      | c # cs \<Rightarrow>
          if c = CHR 0x5C \<and> \<not> has_flag Flags GETTOKEN_BACKSLASH
          then FindSep_loop Pattern (ptr_incr start_ptr 2) end_ptr (Flags OR GETTOKEN_FOUND_BACKSLASH)
          else (case GetTokenSepMatch Pattern start_ptr end_ptr Flags of
                  (True, st, en, Fl) \<Rightarrow> (st, chars en, Fl)
                | (False, st, en, Fl) \<Rightarrow>
                    FindSep_loop Pattern (fst (GetTokenStepThru st Fl)) en (snd (GetTokenStepThru st Fl))))"
  by pat_completeness auto
termination
proof (relation "measure (\<lambda>(_, s, _). length s)", goal_cases)
  case (3 Pattern start_ptr end_ptr Flags c cs m b st d en Fl)
  then have "GetTokenSepMatch Pattern start_ptr end_ptr Flags = (False, st, en, Fl)" by simp
  then have "suffix st start_ptr" by (rule GetTokenSepMatch_start)
  then have l: "length st \<le> length start_ptr" by (rule suffix_length_le)
  have "length (fst (GetTokenStepThru st Fl)) < length start_ptr"
  proof (cases "st = []")
    case True
    then show ?thesis using \<open>start_ptr = c # cs\<close> by (simp add: GetTokenStepThru_def)
  next
    case False
    then show ?thesis using l GetTokenStepThru_shorter [of st Fl] by linarith
  qed
  then show ?case by simp
qed (simp_all add: ptr_incr_def)

declare FindSep_loop.simps [simp del]

lemma FindSep_loop_suffix:
  "FindSep_loop Pattern s en Flags = (st, se, Fl) \<Longrightarrow> Pattern \<noteq> []
   \<Longrightarrow> suffix st s \<and> suffix se st \<and> (st \<noteq> [] \<longrightarrow> length se < length st)"
proof (induction "length s" arbitrary: s en Flags rule: less_induct)
  case less
  show ?case
  proof (cases s)
    case Nil
    with less.prems show ?thesis by (simp add: FindSep_loop.simps [of Pattern "[]"])
  next
    case (Cons c cs)
    note eq = FindSep_loop.simps [of Pattern s en Flags]
    have step: ?thesis if "FindSep_loop Pattern t en' Flags' = (st, se, Fl)" "suffix t s"
        "length t < length s" for t en' Flags'
      using less.hyps [OF that(3,1) less.prems(2)] that(2) by (blast intro: suffix_order.trans)
    show ?thesis
    proof (cases "c = CHR 0x5C \<and> \<not> has_flag Flags GETTOKEN_BACKSLASH")
      case True
      with less.prems Cons eq
      have "FindSep_loop Pattern (ptr_incr s 2) en (Flags OR GETTOKEN_FOUND_BACKSLASH) = (st, se, Fl)"
        by simp
      then show ?thesis
        by (rule step) (simp_all only: ptr_incr_def suffix_drop, simp add: Cons)
    next
      case False
      obtain m st1 en1 Fl1 where sm: "GetTokenSepMatch Pattern s en Flags = (m, st1, en1, Fl1)"
        by (metis prod_cases4)
      show ?thesis
      proof (cases m)
        case True
        then have "(st, se, Fl) = (st1, chars en1, Fl1)" using less.prems(1) Cons eq sm False by simp
        with True sm less.prems(2) GetTokenSepMatch_match [of Pattern s en Flags st1 en1 Fl1]
        show ?thesis by auto
      next
        case m: False
        let ?p = "GetTokenStepThru st1 Fl1"
        from sm m False Cons have "FindSep_loop Pattern s en Flags = FindSep_loop Pattern (fst ?p) en1 (snd ?p)"
          unfolding eq by auto
        with less.prems(1) have "FindSep_loop Pattern (fst ?p) en1 (snd ?p) = (st, se, Fl)" by simp
        moreover have st1: "suffix st1 s" using GetTokenSepMatch_start [OF sm] .
        moreover have "length (fst ?p) < length s"
          using suffix_length_le [OF st1] GetTokenStepThru_shorter [of st1 Fl1] Cons
          by (cases "st1 = []") (auto simp: GetTokenStepThru_def)
        ultimately show ?thesis
          using step GetTokenStepThru_suffix [of st1 Fl1] by (blast intro: suffix_order.trans)
      qed
    qed
  qed
qed

section \<open>Several separators\<close>

text \<open>\<open>BuildMultiSeparators\<close> splits the pattern at \<open>|\<close> and drops empty pieces.\<close>

function BuildMultiSeparators :: "string \<Rightarrow> string list" where
  "BuildMultiSeparators p =
     (case dropWhile (\<lambda>c. c = CHR ''|'') p of
        [] \<Rightarrow> []
      | q # qs \<Rightarrow> takeWhile (\<lambda>c. c \<noteq> CHR ''|'') (q # qs)
                  # BuildMultiSeparators (dropWhile (\<lambda>c. c \<noteq> CHR ''|'') (q # qs)))"
  by pat_completeness auto
termination
proof (relation "measure length", goal_cases)
  case (2 p q qs)
  then have "q \<noteq> CHR ''|''" by (metis (full_types) dropWhile_eq_Cons_conv)
  then have "length (dropWhile (\<lambda>c. c \<noteq> CHR ''|'') (q # qs)) < length (q # qs)"
    by (simp add: length_dropWhile_le le_imp_less_Suc)
  also have "\<dots> \<le> length p" using 2 by (metis length_dropWhile_le)
  finally show ?case by simp
qed simp

declare BuildMultiSeparators.simps [simp del]

lemma BuildMultiSeparators_nonempty: "p \<in> set (BuildMultiSeparators s) \<Longrightarrow> p \<noteq> []"
proof (induction s rule: BuildMultiSeparators.induct)
  case (1 s)
  show ?case
  proof (cases "dropWhile (\<lambda>c. c = CHR ''|'') s")
    case Nil
    with "1.prems" show ?thesis by (simp add: BuildMultiSeparators.simps [of s])
  next
    case (Cons q qs)
    then have "q \<noteq> CHR ''|''" by (metis (full_types) dropWhile_eq_Cons_conv)
    with "1.prems" "1.IH" [OF Cons] Cons show ?thesis
      by (auto simp: BuildMultiSeparators.simps [of s])
  qed
qed

text \<open>
  Every separator is tried at a position before the position moves on.  \<open>*start\<close> is protected from
  failed attempts, \<open>*end\<close> and \<open>*Flags\<close> are not.  If nothing is found \<open>*start\<close> becomes the caller's
  \<open>*end\<close>, which is \<open>NULL\<close> in the only call.
\<close>

fun MultiSep_try :: "string list \<Rightarrow> string \<Rightarrow> cstr \<Rightarrow> cint \<Rightarrow> bool \<times> string \<times> cstr \<times> cint" where
  "MultiSep_try [] sptr eptr Flags = (False, sptr, eptr, Flags)"
| "MultiSep_try (sep # seps) sptr eptr Flags =
     (case GetTokenSepMatch sep sptr eptr Flags of
        (True, t, e, Fl) \<Rightarrow> (True, t, e, Fl)
      | (False, t, e, Fl) \<Rightarrow> MultiSep_try seps sptr e Fl)"

function MultiSep_loop :: "string list \<Rightarrow> string \<Rightarrow> cstr \<Rightarrow> cint \<Rightarrow> cstr \<times> cstr \<times> cint" where
  "MultiSep_loop seps sptr eptr Flags =
     (case sptr of
        [] \<Rightarrow> (None, None, Flags)
      | c # cs \<Rightarrow>
          (case MultiSep_try seps sptr eptr Flags of
             (True, t, e, Fl) \<Rightarrow> (Some t, e, Fl)
           | (False, t, e, Fl) \<Rightarrow>
               MultiSep_loop seps (fst (GetTokenStepThru sptr Fl)) e (snd (GetTokenStepThru sptr Fl))))"
  by pat_completeness auto
termination
proof (relation "measure (\<lambda>(_, s, _). length s)", goal_cases)
  case (2 seps sptr eptr Flags c cs m b t d e Fl)
  then have "sptr \<noteq> []" by simp
  then show ?case using GetTokenStepThru_shorter [of sptr Fl] by simp
qed simp

declare MultiSep_loop.simps [simp del]

lemma MultiSep_try_match:
  "MultiSep_try seps sptr eptr Flags = (True, t, e, Fl) \<Longrightarrow> \<forall>p \<in> set seps. p \<noteq> []
   \<Longrightarrow> t = sptr \<and> (\<exists>e'. e = Some e' \<and> suffix e' sptr \<and> length e' < length sptr)"
proof (induction seps arbitrary: eptr Flags)
  case (Cons sep seps)
  obtain m t1 e1 F1 where sm: "GetTokenSepMatch sep sptr eptr Flags = (m, t1, e1, F1)"
    by (metis prod_cases4)
  show ?case
  proof (cases m)
    case True
    with Cons.prems sm GetTokenSepMatch_match [of sep sptr eptr Flags t1 e1 F1] show ?thesis by auto
  next
    case False
    with Cons sm show ?thesis by auto
  qed
qed simp

lemma MultiSep_loop_suffix:
  "MultiSep_loop seps s e Flags = (st, se, Fl) \<Longrightarrow> \<forall>p \<in> set seps. p \<noteq> []
   \<Longrightarrow> st = None \<or> (\<exists>t u. st = Some t \<and> se = Some u \<and> suffix t s \<and> suffix u t \<and> length u < length t)"
proof (induction "length s" arbitrary: s e Flags rule: less_induct)
  case less
  show ?case
  proof (cases s)
    case Nil
    with less.prems show ?thesis by (simp add: MultiSep_loop.simps [of seps "[]"])
  next
    case (Cons c cs)
    obtain m t e1 F1 where sm: "MultiSep_try seps s e Flags = (m, t, e1, F1)"
      by (metis prod_cases4)
    show ?thesis
    proof (cases m)
      case True
      with sm Cons have "MultiSep_loop seps s e Flags = (Some t, e1, F1)"
        unfolding MultiSep_loop.simps [of seps s] by auto
      with less.prems True sm MultiSep_try_match [of seps s e Flags t e1 F1] show ?thesis by auto
    next
      case False
      let ?p = "GetTokenStepThru s F1"
      from sm False Cons have "MultiSep_loop seps s e Flags = MultiSep_loop seps (fst ?p) e1 (snd ?p)"
        unfolding MultiSep_loop.simps [of seps s] by auto
      moreover have "length (fst ?p) < length s"
        by (rule GetTokenStepThru_shorter) (simp add: Cons)
      ultimately show ?thesis
        using less.hyps [of "fst ?p" e1 "snd ?p"] less.prems GetTokenStepThru_suffix [of s F1]
        by (auto intro: suffix_order.trans)
    qed
  qed
qed

section \<open>The token\<close>

text \<open>
  \<open>GetTokenPostProcess\<close>.  \<open>sptr\<close> and \<open>eptr\<close> bound the token; with \<open>GETTOKEN_STRIP_QUOTES\<close> and a
  quote at \<open>sptr\<close> the code looks at the byte before \<open>eptr\<close>, which lies before the string when the
  separator was found at its start: undefined.
\<close>

definition PostProcess_quotes :: "string \<Rightarrow> string \<Rightarrow> (string \<times> string) option" where
  "PostProcess_quotes SearchStr eptr =
     (if length eptr \<ge> length SearchStr then None
      else (let k = length SearchStr - length eptr - 1
            in if SearchStr ! 0 = SearchStr ! k then Some (drop 1 SearchStr, drop k SearchStr)
               else Some (SearchStr, eptr)))"

definition PostProcess_token :: "nat \<Rightarrow> string \<Rightarrow> string \<Rightarrow> cint \<Rightarrow> string option" where
  "PostProcess_token level SearchStr eptr Flags =
     (let OuterQuotes = (has_flag Flags GETTOKEN_STRIP_QUOTES \<and> SearchStr \<noteq> [] \<and> is_quote (hd SearchStr))
      in do {
        (sptr, eptr') \<leftarrow> (if OuterQuotes then PostProcess_quotes SearchStr eptr else Some (SearchStr, eptr));
        let tok = (if length eptr' \<le> length sptr then take (length sptr - length eptr') sptr else sptr);
        tok' \<leftarrow> (if \<not> OuterQuotes \<and> has_flag Flags GETTOKEN_STRIP_QUOTES \<and> has_flag Flags GETTOKEN_FOUND_BACKSLASH
                then UnQuoteStr level tok else Some tok);
        Some (if has_flag Flags GETTOKEN_STRIP_SPACE
              then StripLeadingWhitespace (StripTrailingWhitespace tok') else tok')
      })"

definition GetTokenPostProcess :: "nat \<Rightarrow> string \<Rightarrow> cstr \<Rightarrow> cstr \<Rightarrow> cint \<Rightarrow> (string \<times> string) option" where
  "GetTokenPostProcess level SearchStr SepStart SepEnd Flags =
     (case SepStart of
        None \<Rightarrow> Some ([], SearchStr)
      | Some ss \<Rightarrow>
          (let (eptr, se) =
             (if has_flag Flags GETTOKEN_INCLUDE_SEP
              then (if ss = SearchStr then (chars SepEnd, chars SepEnd) else (ss, ss))
              else if has_flag Flags GETTOKEN_APPEND_SEP then (chars SepEnd, chars SepEnd)
              else (ss, chars SepEnd))
           in map_option (\<lambda>tok. (se, tok)) (PostProcess_token level SearchStr eptr Flags)))"

text \<open>The returned pointer (\<^term>\<open>None\<close> for \<open>NULL\<close>) and the token.\<close>

definition GetToken_lvl :: "nat \<Rightarrow> cstr \<Rightarrow> cstr \<Rightarrow> cint \<Rightarrow> (cstr \<times> string) option" where
  "GetToken_lvl level SearchStr Separator Flags =
     (if StrEnd SearchStr then Some (None, [])
      else if \<not> StrValid Separator then Some (None, chars SearchStr)
      else
        (let s = chars SearchStr; sep = chars Separator
         in if \<not> has_flag Flags GETTOKEN_HONOR_QUOTES \<and> length sep = 1 then
              (case strchr s (hd sep) of
                 None \<Rightarrow> Some (Some [], s)
               | Some ss \<Rightarrow>
                   if Flags \<noteq> 0
                   then map_option (\<lambda>(p, t). (Some p, t))
                          (GetTokenPostProcess level s (Some ss) (Some (drop 1 ss)) Flags)
                   else Some (Some (drop 1 ss), take (length s - length ss) s))
            else
              map_option (\<lambda>(p, t). (Some p, t))
                (if has_flag Flags GETTOKEN_MULTI_SEP
                 then (case MultiSep_loop (BuildMultiSeparators sep) s None Flags of
                         (ss, se, Fl) \<Rightarrow> GetTokenPostProcess level s ss se Fl)
                 else (case FindSep_loop sep s None Flags of
                         (ss, se, Fl) \<Rightarrow> GetTokenPostProcess level s (Some ss) (Some se) Fl))))"

text \<open>
  The program is modelled with \<open>GlobalUnicodeLevel\<close> at its initial value, 0; only the bytes of a
  \<open>\u\<close> escape inside a quoted token depend on it.
\<close>

definition GetToken :: "cstr \<Rightarrow> cstr \<Rightarrow> cint \<Rightarrow> (cstr \<times> string) option" where
  "GetToken = GetToken_lvl 0"

section \<open>Progress\<close>

lemma GetTokenPostProcess_suffix:
  assumes "GetTokenPostProcess level s SepStart SepEnd Flags = Some (p, t)" "s \<noteq> []"
    and "SepStart = None \<or> (\<exists>st u. SepStart = Some st \<and> SepEnd = Some u \<and> suffix st s \<and> suffix u st
           \<and> (st \<noteq> [] \<longrightarrow> length u < length st))"
  shows "suffix p s \<and> length p < length s"
proof (cases SepStart)
  case None
  with assms show ?thesis by (auto simp: GetTokenPostProcess_def)
next
  case (Some st)
  with assms(3) obtain u where u: "SepEnd = Some u" "suffix st s" "suffix u st" "st \<noteq> [] \<longrightarrow> length u < length st"
    by auto
  have "p = u \<or> p = st \<and> st \<noteq> s"
    using assms(1) Some u(1) by (auto simp: GetTokenPostProcess_def split: if_splits)
  moreover have "suffix u s" using u(2,3) by (blast intro: suffix_order.trans)
  moreover have "length u < length s"
    using u(2,4) assms(2) suffix_length_le [OF u(2)] suffix_length_le [OF u(3)] by (cases "st = []") auto
  moreover have "st \<noteq> s \<longrightarrow> length st < length s"
    using u(2) by (metis suffix_length_less strict_suffix_def)
  ultimately show ?thesis using u(2) by blast
qed

lemma GetToken_lvl_progress:
  assumes "GetToken_lvl level (Some s) sep Flags = Some (Some p, t)"
  shows "suffix p s \<and> length p < length s"
proof -
  from assms have s: "s \<noteq> []" and sv: "StrValid sep"
    by (auto simp: GetToken_lvl_def split: if_splits)
  then have sep: "chars sep \<noteq> []" by (simp add: StrValid_chars)
  show ?thesis
  proof (cases "\<not> has_flag Flags GETTOKEN_HONOR_QUOTES \<and> length (chars sep) = 1")
    case single: True
    show ?thesis
    proof (cases "strchr s (hd (chars sep))")
      case None
      with assms s sv single show ?thesis by (auto simp: GetToken_lvl_def Let_def)
    next
      case (Some ss)
      obtain q r where sp: "s = q @ ss" "ss = hd (chars sep) # r"
        using strchr_SomeD [OF Some] by auto
      then have ss: "suffix ss s" "suffix (drop 1 ss) ss" "ss \<noteq> []" "length (drop 1 ss) < length ss"
        by (simp_all add: suffix_def)
      show ?thesis
      proof (cases "Flags = 0")
        case True
        with assms s sv single Some have "p = drop 1 ss" by (auto simp: GetToken_lvl_def Let_def)
        moreover have "length (drop 1 ss) < length s"
          using ss(4) suffix_length_le [OF ss(1)] by (rule less_le_trans)
        ultimately show ?thesis using ss by (auto intro: suffix_order.trans)
      next
        case False
        with assms s sv single Some
        have "GetTokenPostProcess level s (Some ss) (Some (drop 1 ss)) Flags = Some (p, t)"
          by (auto simp: GetToken_lvl_def Let_def)
        then show ?thesis by (rule GetTokenPostProcess_suffix) (use s ss in auto)
      qed
    qed
  next
    case complex: False
    show ?thesis
    proof (cases "has_flag Flags GETTOKEN_MULTI_SEP")
      case True
      obtain st se Fl where m: "MultiSep_loop (BuildMultiSeparators (chars sep)) s None Flags = (st, se, Fl)"
        by (metis prod_cases3)
      with assms s sv complex True have pp: "GetTokenPostProcess level s st se Fl = Some (p, t)"
        by (auto simp: GetToken_lvl_def Let_def)
      have "\<forall>q \<in> set (BuildMultiSeparators (chars sep)). q \<noteq> []"
        using BuildMultiSeparators_nonempty by blast
      then show ?thesis
        using MultiSep_loop_suffix [OF m] by (intro GetTokenPostProcess_suffix [OF pp s]) blast
    next
      case False
      obtain st se Fl where m: "FindSep_loop (chars sep) s None Flags = (st, se, Fl)"
        by (metis prod_cases3)
      with assms s sv complex False have "GetTokenPostProcess level s (Some st) (Some se) Fl = Some (p, t)"
        by (auto simp: GetToken_lvl_def Let_def)
      then show ?thesis
        by (rule GetTokenPostProcess_suffix) (use s FindSep_loop_suffix [OF m sep] in auto)
    qed
  qed
qed

lemma GetToken_progress:
  "GetToken (Some s) sep Flags = Some (Some p, t) \<Longrightarrow> suffix p s \<and> length p < length s"
  unfolding GetToken_def by (rule GetToken_lvl_progress)

section \<open>The loop over all tokens\<close>

text \<open>
  \<open>ptr=GetToken(Str, Sep, &Token, Flags); while (ptr) { ...; ptr=GetToken(ptr, Sep, &Token, Flags); }\<close>:
  the tokens the body sees, in order.  The body never writes to \<open>ptr\<close>, so the loops of the program
  are recursions over this list.
\<close>

function GetTokens :: "cstr \<Rightarrow> cint \<Rightarrow> cstr \<Rightarrow> string list option" where
  "GetTokens Sep Flags ptr =
     (case GetToken ptr Sep Flags of
        None \<Rightarrow> None
      | Some (None, t) \<Rightarrow> Some []
      | Some (Some p, t) \<Rightarrow> map_option (\<lambda>ts. t # ts) (GetTokens Sep Flags (Some p)))"
  by pat_completeness auto
termination
proof (relation "measure (\<lambda>(_, _, s). StrLen s)", goal_cases)
  case (2 Sep Flags ptr a b t p)
  then have g: "GetToken ptr Sep Flags = Some (Some p, t)" by simp
  then obtain s where "ptr = Some s" by (cases ptr) (auto simp: GetToken_def GetToken_lvl_def)
  then show ?case using GetToken_progress [of s Sep Flags p t] g by (simp add: StrLen_def)
qed simp

declare GetTokens.simps [simp del]

text \<open>The reference: cut at every occurrence of a character; a trailing empty piece is no token.\<close>

function csplit :: "char \<Rightarrow> string \<Rightarrow> string list" where
  "csplit c s = (if s = [] then []
     else takeWhile (\<lambda>x. x \<noteq> c) s # csplit c (drop 1 (dropWhile (\<lambda>x. x \<noteq> c) s)))"
  by pat_completeness auto
termination
proof (relation "measure (\<lambda>(_, s). length s)", goal_cases)
  case (2 c s)
  then have "0 < length s" by simp
  moreover have "length (dropWhile (\<lambda>x. x \<noteq> c) s) \<le> length s" by (rule length_dropWhile_le)
  ultimately have "length (dropWhile (\<lambda>x. x \<noteq> c) s) - 1 < length s" by linarith
  then show ?case by simp
qed simp

declare csplit.simps [simp del]

fun cjoin :: "char \<Rightarrow> string list \<Rightarrow> string" where
  "cjoin c [] = []"
| "cjoin c [x] = x"
| "cjoin c (x # xs) = x @ c # cjoin c xs"

lemma csplit_Nil [simp]: "csplit c [] = []"
  by (simp add: csplit.simps)

lemma until_char [simp]:
  "c \<notin> set s \<Longrightarrow> takeWhile (\<lambda>x. x \<noteq> c) s = s" "c \<notin> set s \<Longrightarrow> dropWhile (\<lambda>x. x \<noteq> c) s = []"
  "c \<notin> set s \<Longrightarrow> takeWhile (\<lambda>x. x \<noteq> c) (s @ c # r) = s"
  "c \<notin> set s \<Longrightarrow> dropWhile (\<lambda>x. x \<noteq> c) (s @ c # r) = c # r"
  by (induction s) auto

lemma csplit_no_sep: "c \<notin> set s \<Longrightarrow> s \<noteq> [] \<Longrightarrow> csplit c s = [s]"
  by (subst csplit.simps) simp

lemma csplit_Cons_sep: "c \<notin> set x \<Longrightarrow> csplit c (x @ c # r) = x # csplit c r"
  by (subst csplit.simps) simp

lemma csplit_cjoin:
  "\<forall>x \<in> set xs. c \<notin> set x \<Longrightarrow> xs = [] \<or> last xs \<noteq> [] \<Longrightarrow> csplit c (cjoin c xs) = xs"
proof (induction c xs rule: cjoin.induct)
  case (2 c x)
  then show ?case by (simp add: csplit_no_sep)
next
  case (3 c x y ys)
  then show ?case by (simp add: csplit_Cons_sep)
qed simp

lemma csplit_elems: "x \<in> set (csplit c s) \<Longrightarrow> c \<notin> set x"
proof (induction c s rule: csplit.induct)
  case (1 c s)
  then show ?case by (subst (asm) (2) csplit.simps) (auto split: if_splits dest: set_takeWhileD)
qed

text \<open>A single character as separator, no flags.\<close>

lemma GetToken_char_None:
  "c \<notin> set s \<Longrightarrow> s \<noteq> [] \<Longrightarrow> GetToken (Some s) (Some [c]) 0 = Some (Some [], s)"
  by (simp add: GetToken_def GetToken_lvl_def has_flag_def strchr_None_iff [THEN iffD2])

lemma GetToken_char_Some:
  "c \<notin> set p \<Longrightarrow> GetToken (Some (p @ c # r)) (Some [c]) 0 = Some (Some r, p)"
  by (simp add: GetToken_def GetToken_lvl_def has_flag_def strchr_append_notin)

lemma GetToken_NULL [simp, tok_simps]: "GetToken None Sep Flags = Some (None, [])"
  by (simp add: GetToken_def GetToken_lvl_def)

lemma GetToken_empty [simp, tok_simps]: "GetToken (Some []) Sep Flags = Some (None, [])"
  by (simp add: GetToken_def GetToken_lvl_def)

lemma GetTokens_char [tok_simps]: "GetTokens (Some [c]) 0 (Some s) = Some (csplit c s)"
proof (induction c s rule: csplit.induct)
  case (1 c s)
  show ?case
  proof (cases "s = []")
    case True
    then show ?thesis by (simp add: GetTokens.simps)
  next
    case s: False
    show ?thesis
    proof (cases "c \<in> set s")
      case True
      then obtain p r where sp: "s = p @ c # r" "c \<notin> set p" by (meson split_list_first)
      then have d: "drop 1 (dropWhile (\<lambda>x. x \<noteq> c) s) = r"
        by simp
      have "GetTokens (Some [c]) 0 (Some r) = Some (csplit c r)" using "1.IH" [OF s] d by simp
      then show ?thesis
        by (subst GetTokens.simps) (simp add: sp GetToken_char_Some csplit_Cons_sep)
    next
      case False
      then show ?thesis using s
        by (subst GetTokens.simps)
          (simp add: GetToken_char_None csplit_no_sep GetTokens.simps [of _ _ "Some []"])
    qed
  qed
qed

lemma GetTokens_NULL [simp, tok_simps]: "GetTokens Sep Flags None = Some []"
  by (simp add: GetTokens.simps)

section \<open>Lists in a string\<close>

text \<open>
  \<open>InStringList\<close> stops at the first match.  \<open>strcmp\<close> on a \<open>NULL\<close> item is undefined, and is only
  reached if the list has a token at all.
\<close>

fun InStringList_loop :: "cstr \<Rightarrow> string list \<Rightarrow> bool option" where
  "InStringList_loop Item [] = Some False"
| "InStringList_loop Item (Token # rest) =
     (case Item of None \<Rightarrow> None | Some i \<Rightarrow> if i = Token then Some True else InStringList_loop Item rest)"

definition InStringList :: "cstr \<Rightarrow> cstr \<Rightarrow> cstr \<Rightarrow> bool option" where
  "InStringList Item List Sep = do { toks \<leftarrow> GetTokens Sep 0 List; InStringList_loop Item toks }"

lemma InStringList_loop_mem: "InStringList_loop (Some i) toks = Some (i \<in> set toks)"
  by (induction toks) auto

lemma InStringList_char [tok_simps]:
  "InStringList (Some i) (Some l) (Some [c]) = Some (i \<in> set (csplit c l))"
  by (simp add: InStringList_def GetTokens_char InStringList_loop_mem)

definition StringListGet :: "cstr \<Rightarrow> cstr \<Rightarrow> nat \<Rightarrow> cstr option" where
  "StringListGet List Sep Pos =
     do { toks \<leftarrow> GetTokens Sep 0 List; Some (if Pos < length toks then Some (toks ! Pos) else Some []) }"

definition StringListAdd :: "cstr \<Rightarrow> cstr \<Rightarrow> cstr \<Rightarrow> cstr" where
  "StringListAdd RetStr Item Sep =
     (if StrValid RetStr then MCatStr RetStr [Sep, Item] else CopyStr RetStr Item)"

definition StringListAddUnique :: "cstr \<Rightarrow> cstr \<Rightarrow> cstr \<Rightarrow> cstr option" where
  "StringListAddUnique RetStr Item Sep =
     do { toks \<leftarrow> GetTokens Sep 0 RetStr;
          Some (if \<exists>t \<in> set toks. CompareStr_eq (Some t) Item then RetStr else StringListAdd RetStr Item Sep) }"

fun StringListToUnique_loop :: "cstr \<Rightarrow> string list \<Rightarrow> cstr \<Rightarrow> cstr option" where
  "StringListToUnique_loop RetStr [] Sep = Some RetStr"
| "StringListToUnique_loop RetStr (t # ts) Sep =
     do { r \<leftarrow> StringListAddUnique RetStr (Some t) Sep; StringListToUnique_loop r ts Sep }"

definition StringListToUnique :: "cstr \<Rightarrow> cstr \<Rightarrow> cstr \<Rightarrow> cstr option" where
  "StringListToUnique RetStr Input Sep =
     do { toks \<leftarrow> GetTokens Sep 0 Input; StringListToUnique_loop RetStr toks Sep }"

section \<open>Name and value\<close>

text \<open>The result is the pointer behind the pair, the name and the value.\<close>

definition GetNameValuePair :: "cstr \<Rightarrow> cstr \<Rightarrow> cstr \<Rightarrow> (cstr \<times> string \<times> string) option" where
  "GetNameValuePair Input PairDelim NameValueDelim =
     do { (ptr, Token) \<leftarrow> GetToken Input PairDelim GETTOKEN_HONOR_QUOTES;
          if Token = [] then Some (ptr, [], [])
          else do { (ptr2, Name) \<leftarrow> GetToken (Some Token) NameValueDelim GETTOKEN_QUOTES;
                    Some (ptr, Name, StripQuotes (chars (CopyStr None ptr2))) } }"

section \<open>Definedness\<close>

text \<open>Only the removal of quotes can touch bytes outside the string: without it every call is defined.\<close>

abbreviation strips :: "cint \<Rightarrow> bool" where "strips Flags \<equiv> has_flag Flags GETTOKEN_STRIP_QUOTES"

lemma strips_found [simp]: "strips (Flags OR GETTOKEN_FOUND_BACKSLASH) = strips Flags"
  by (simp add: flag_simps)

lemma SepMatch_char_strips: "SepMatch_char pc MT e es start Flags = Inl (st, Fl) \<Longrightarrow> strips Fl = strips Flags"
  by (auto simp: SepMatch_char_def split: if_splits)

lemma SepMatch_loop_strips: "SepMatch_loop p e MT start send Flags = (m, st, en, Fl) \<Longrightarrow> strips Fl = strips Flags"
proof (induction p e MT start send Flags arbitrary: m st en Fl rule: SepMatch_loop.induct)
  case (1 p e MT start send Flags)
  show ?case
  proof (cases "p = [] \<or> e = []")
    case True
    then consider "p = []" | "e = []" by blast
    then show ?thesis
    proof cases
      case 1
      with "1.prems" show ?thesis by (simp add: SepMatch_loop.simps [of "[]"])
    next
      case 2
      with "1.prems" show ?thesis
        by (simp add: SepMatch_loop.simps [of p "[]"] split: prod.splits if_splits)
    qed
  next
    case False
    then obtain c cs where e: "e = c # cs" by (cases e) auto
    obtain p' pc M where g: "SepMatch_pattern p MT = (p', pc, M)" by (metis prod_cases3)
    show ?thesis
    proof (cases "SepMatch_char pc M c cs start Flags")
      case (Inl x)
      with False e g "1.prems" SepMatch_char_strips [of pc M c cs start Flags "fst x" "snd x"] show ?thesis
        by (auto simp: SepMatch_loop.simps [of p] split: prod.splits)
    next
      case (Inr x)
      then have "SepMatch_loop (ptr_incr p' 1) (fst x) (snd x) start send Flags = (m, st, en, Fl)"
        using False e g "1.prems" by (simp add: SepMatch_loop.simps [of p] split: prod.splits)
      with "1.IH" [OF _ g [symmetric] refl e Inr] False show ?thesis by (metis prod.collapse)
    qed
  qed
qed

lemma GetTokenSepMatch_strips: "GetTokenSepMatch p s e Flags = (m, st, en, Fl) \<Longrightarrow> strips Fl = strips Flags"
  by (auto simp: GetTokenSepMatch_def split: if_splits dest: SepMatch_loop_strips)

lemma GetTokenStepThru_strips: "strips (snd (GetTokenStepThru s Flags)) = strips Flags"
  by (auto simp: GetTokenStepThru_def Let_def split: list.split)

lemma FindSep_loop_strips: "FindSep_loop p s e Flags = (st, en, Fl) \<Longrightarrow> strips Fl = strips Flags"
proof (induction p s e Flags arbitrary: st en Fl rule: FindSep_loop.induct)
  case (1 p s e Flags)
  show ?case
  proof (cases s)
    case Nil
    with "1.prems" show ?thesis by (simp add: FindSep_loop.simps [of p "[]"])
  next
    case (Cons c cs)
    obtain m st1 en1 Fl1 where g: "GetTokenSepMatch p s e Flags = (m, st1, en1, Fl1)" by (metis prod_cases4)
    show ?thesis
    proof (cases "c = CHR 0x5C \<and> \<not> has_flag Flags GETTOKEN_BACKSLASH")
      case True
      then have "FindSep_loop p (ptr_incr s 2) e (Flags OR GETTOKEN_FOUND_BACKSLASH) = (st, en, Fl)"
        using "1.prems" Cons by (subst (asm) FindSep_loop.simps) simp
      then show ?thesis using "1.IH"(1) [OF Cons True] by simp
    next
      case False
      show ?thesis
      proof (cases m)
        case True
        then show ?thesis using "1.prems" Cons False g GetTokenSepMatch_strips [OF g]
          by (simp add: FindSep_loop.simps [of p "c # cs"])
      next
        case m: False
        then have "FindSep_loop p (fst (GetTokenStepThru st1 Fl1)) en1 (snd (GetTokenStepThru st1 Fl1)) = (st, en, Fl)"
          using "1.prems" Cons False g by (simp add: FindSep_loop.simps [of p "c # cs"])
        with "1.IH"(2) [OF Cons False g [symmetric] _ refl refl] m show ?thesis
          using GetTokenSepMatch_strips [OF g] GetTokenStepThru_strips [of st1 Fl1] by auto
      qed
    qed
  qed
qed

lemma MultiSep_try_strips: "MultiSep_try seps s e Flags = (m, t, en, Fl) \<Longrightarrow> strips Fl = strips Flags"
proof (induction seps s e Flags arbitrary: m t en Fl rule: MultiSep_try.induct)
  case (2 sep seps s e Flags)
  obtain m1 t1 e1 Fl1 where g: "GetTokenSepMatch sep s e Flags = (m1, t1, e1, Fl1)" by (metis prod_cases4)
  with 2 GetTokenSepMatch_strips [OF g] show ?case by (cases m1) auto
qed simp

lemma MultiSep_loop_strips: "MultiSep_loop seps s e Flags = (st, en, Fl) \<Longrightarrow> strips Fl = strips Flags"
proof (induction seps s e Flags arbitrary: st en Fl rule: MultiSep_loop.induct)
  case (1 seps s e Flags)
  show ?case
  proof (cases s)
    case Nil
    with "1.prems" show ?thesis by (simp add: MultiSep_loop.simps [of seps "[]"])
  next
    case (Cons c cs)
    obtain m t e1 Fl1 where g: "MultiSep_try seps s e Flags = (m, t, e1, Fl1)" by (metis prod_cases4)
    show ?thesis
    proof (cases m)
      case True
      then show ?thesis using "1.prems" Cons g MultiSep_try_strips [OF g] by (simp add: MultiSep_loop.simps [of seps "c # cs"])
    next
      case False
      then have "MultiSep_loop seps (fst (GetTokenStepThru s Fl1)) e1 (snd (GetTokenStepThru s Fl1)) = (st, en, Fl)"
        using "1.prems" Cons g by (simp add: MultiSep_loop.simps [of seps "c # cs"])
      with "1.IH" [OF Cons g [symmetric] _ refl refl] False show ?thesis
        using MultiSep_try_strips [OF g] GetTokenStepThru_strips [of s Fl1] by auto
    qed
  qed
qed

lemma PostProcess_total: "\<not> strips Flags \<Longrightarrow> \<exists>a b. GetTokenPostProcess level s ss se Flags = Some (a, b)"
  by (auto simp: GetTokenPostProcess_def PostProcess_token_def Let_def split: option.split prod.split)

lemma GetToken_total: "\<not> strips Flags \<Longrightarrow> GetToken s sep Flags \<noteq> None"
proof -
  assume ns: "\<not> strips Flags"
  have "\<exists>u v. (case MultiSep_loop a b c Flags of (ss, se, Fl) \<Rightarrow> GetTokenPostProcess 0 s' ss se Fl) = Some (u, v)"
    "\<exists>u v. (case FindSep_loop d b c Flags of (ss, se, Fl) \<Rightarrow> GetTokenPostProcess 0 s' (Some ss) (Some se) Fl) = Some (u, v)"
    "\<exists>u v. GetTokenPostProcess 0 s' x y Flags = Some (u, v)" for a b c d s' x y
    using ns PostProcess_total by (auto split: prod.split dest: MultiSep_loop_strips FindSep_loop_strips)
  note total = this
  show ?thesis
  proof (cases "StrEnd s \<or> \<not> StrValid sep")
    case True
    then show ?thesis by (auto simp: GetToken_def GetToken_lvl_def)
  next
    case False
    show ?thesis
    proof (cases "\<not> has_flag Flags GETTOKEN_HONOR_QUOTES \<and> length (chars sep) = 1")
      case True
      with False show ?thesis
        using total(3) [of "chars s" "strchr (chars s) (hd (chars sep))" "Some (drop 1 (the (strchr (chars s) (hd (chars sep)))))"]
        by (auto simp: GetToken_def GetToken_lvl_def Let_def split: option.split)
    next
      case complex: False
      show ?thesis using False complex total(1) [where a = "BuildMultiSeparators (chars sep)" and b = "chars s" and c = None and s' = "chars s"]
          total(2) [where d = "chars sep" and b = "chars s" and c = None and s' = "chars s"]
        by (auto simp: GetToken_def GetToken_lvl_def Let_def)
    qed
  qed
qed

text \<open>The total version, for calls without quote removal.\<close>

definition token :: "cstr \<Rightarrow> string \<Rightarrow> cstr \<times> string" where
  "token s sep = (case GetToken s (Some sep) 0 of None \<Rightarrow> (None, []) | Some r \<Rightarrow> r)"

lemma GetToken_token: "GetToken s (Some sep) 0 = Some (token s sep)"
proof -
  have "GetToken s (Some sep) 0 \<noteq> None" by (rule GetToken_total) (simp add: flag_simps)
  then show ?thesis by (auto simp: token_def)
qed

lemma GetTokens_total: "\<not> strips Flags \<Longrightarrow> GetTokens Sep Flags p \<noteq> None"
proof (induction Sep Flags p rule: GetTokens.induct)
  case (1 Sep Flags p)
  then show ?case using GetToken_total [of Flags p Sep]
    by (subst GetTokens.simps) (auto split: option.split prod.split)
qed

section \<open>Properties\<close>

text \<open>
C33. Every loop of the form \<open>while (ptr)\<close> over \<open>GetToken\<close> ends, for any separator pattern and any flags:
a call that returns a pointer returns one strictly behind the pointer it was given, and inside the same
string.
\<close>

theorem GetToken_moves_on:
  assumes "GetToken (Some s) sep Fl = Some (Some p, t)"
  shows "(\<exists>q. s = q @ p) \<and> length p < length s"
  using GetToken_progress [OF assms] by (auto simp: suffix_def)

theorem GetToken_moves_on_witness:
  "(\<exists>q. ''ab,cd'' = q @ ''cd'') \<and> length ''cd'' < length ''ab,cd''"
  by (rule GetToken_moves_on [of "''ab,cd''" "Some '',''" 0 "''cd''" "''ab''"]) code_simp

text \<open>
C32. Splitting at a single separator character is the inverse of joining: the loop over the tokens of a
joined list sees exactly the pieces, whatever they contain (quotes and backslashes included), unless the
last one is empty.
\<close>

theorem GetTokens_join:
  assumes "\<forall>x \<in> set xs. c \<notin> set x" "xs = [] \<or> last xs \<noteq> []"
  shows "GetTokens (Some [c]) 0 (Some (cjoin c xs)) = Some xs"
  using csplit_cjoin [OF assms] by (simp add: GetTokens_char)

theorem GetTokens_join_witness:
  "GetTokens (Some [CHR '','']) 0 (Some ''ip,,wg'') = Some [''ip'', '''', ''wg'']"
  using GetTokens_join [of "[''ip'', '''', ''wg'']" "CHR '',''"] by simp

text \<open>
\<open>InStringList\<close> with a one-character separator answers exactly whether the item is one of the
pieces of the list: never a prefix or a part of one.
\<close>

theorem InStringList_exact:
  assumes "\<forall>x \<in> set xs. c \<notin> set x" "xs = [] \<or> last xs \<noteq> []"
  shows "InStringList (Some i) (Some (cjoin c xs)) (Some [c]) = Some (i \<in> set xs)"
  using csplit_cjoin [OF assms] by (simp add: InStringList_char)

theorem InStringList_exact_witness:
  "InStringList (Some ''al'') (Some ''alice,bob'') (Some '','') = Some False"
  using InStringList_exact [of "[''alice'', ''bob'']" "CHR '',''" "''al''"] by simp

lemma cjoin_snoc: "xs \<noteq> [] \<Longrightarrow> cjoin c (xs @ [x]) = cjoin c xs @ c # x"
  by (induction c xs rule: cjoin.induct) auto

lemma cjoin_Nil_iff: "[] \<notin> set xs \<Longrightarrow> cjoin c xs = [] \<longleftrightarrow> xs = []"
  by (cases "(c, xs)" rule: cjoin.cases) auto

text \<open>The first occurrences, in order.\<close>

definition firsts :: "string list \<Rightarrow> string list" where "firsts xs = rev (remdups (rev xs))"

lemma set_firsts [simp]: "set (firsts xs) = set xs"
  by (simp add: firsts_def)

lemma firsts_snoc: "firsts (xs @ [x]) = (if x \<in> set xs then firsts xs else firsts xs @ [x])"
  by (simp add: firsts_def)

lemma StringListAdd_join:
  assumes "[] \<notin> set us"
  shows "StringListAdd (Some (cjoin c us)) (Some x) (Some [c]) = Some (cjoin c (us @ [x]))"
  using assms by (auto simp: StringListAdd_def cjoin_Nil_iff cjoin_snoc StrValid_def MCatStr_eq)

lemma StringListAddUnique_join:
  assumes "[] \<notin> set us" "\<forall>u \<in> set us. c \<notin> set u"
  shows "StringListAddUnique (Some (cjoin c us)) (Some x) (Some [c])
    = Some (Some (cjoin c (if x \<in> set us then us else us @ [x])))"
proof -
  have "us = [] \<or> last us \<noteq> []" using assms(1) last_in_set by metis
  then have "GetTokens (Some [c]) 0 (Some (cjoin c us)) = Some us"
    using csplit_cjoin [OF assms(2)] by (simp add: GetTokens_char)
  then show ?thesis
    using StringListAdd_join [OF assms(1)] by (auto simp: StringListAddUnique_def CompareStr_eq_chars)
qed

lemma StringListToUnique_loop_join:
  assumes "[] \<notin> set (us @ xs)" "\<forall>x \<in> set (us @ xs). c \<notin> set x"
  shows "StringListToUnique_loop (Some (cjoin c (firsts us))) xs (Some [c]) = Some (Some (cjoin c (firsts (us @ xs))))"
  using assms
proof (induction xs arbitrary: us)
  case (Cons x xs)
  from Cons.IH [of "us @ [x]"] Cons.prems show ?case
    by (simp add: StringListAddUnique_join firsts_snoc)
qed simp

text \<open>
  \<open>StringListToUnique\<close> is the removal of repeated items: what it adds to a list are the items of the
  input that are not yet there, each once and in the order of their first occurrence.
\<close>

theorem StringListToUnique_firsts:
  assumes "[] \<notin> set (us @ xs)" "\<forall>x \<in> set (us @ xs). c \<notin> set x" "distinct us"
  shows "StringListToUnique (Some (cjoin c us)) (Some (cjoin c xs)) (Some [c]) = Some (Some (cjoin c (firsts (us @ xs))))"
proof -
  have "firsts us = us" using assms(3) by (simp add: firsts_def distinct_remdups_id)
  moreover have "csplit c (cjoin c xs) = xs"
  proof (rule csplit_cjoin)
    show "\<forall>x \<in> set xs. c \<notin> set x" using assms(2) by simp
    show "xs = [] \<or> last xs \<noteq> []" using assms(1) last_in_set by (metis Un_iff set_append)
  qed
  ultimately show ?thesis
    using StringListToUnique_loop_join [OF assms(1,2)] by (simp add: StringListToUnique_def GetTokens_char)
qed

theorem StringListToUnique_firsts_witness:
  "StringListToUnique (Some ''bob'') (Some ''alice,bob,alice,carol'') (Some '','') = Some (Some ''bob,alice,carol'')"
  using StringListToUnique_firsts [of "[''bob'']" "[''alice'', ''bob'', ''alice'', ''carol'']" "CHR '',''"]
  by (simp add: firsts_def)

end
