(* ===== verification/Duration.thy ===== *)
theory Duration
  imports CStrings
begin

text \<open>
  Numbers in text: decimal printing read back by \<open>strtoul\<close>, and \<open>ParseDuration\<close> of
  \<open>libUseful-bundled/Time.c\<close>, which sums up parts such as \<open>1h30m\<close>.  \<open>time_t\<close> is a 64-bit word.
\<close>

section \<open>Scanning digits\<close>

lemma digits_prefix_suffix: "digits_prefix radix acc s = (n, r) \<Longrightarrow> suffix r s"
proof (induction radix acc s rule: digits_prefix.induct)
  case (2 radix acc c cs)
  then show ?case by (cases "digit_val c < radix") (auto intro: suffix_ConsI)
qed simp

lemma scan_sign_length: "scan_sign t = (b, u) \<Longrightarrow> length u \<le> length t"
  by (cases t) (auto simp: scan_sign_def split: if_splits)

lemma scan_int_rest:
  assumes "scan_int radix s = (neg, n, r)"
  shows "length r \<le> length s"
proof -
  obtain b u where u: "scan_sign (dropWhile isspace s) = (b, u)" by fastforce
  then have "length u \<le> length (dropWhile isspace s)" by (rule scan_sign_length)
  also have "\<dots> \<le> length s" by (rule length_dropWhile_le)
  finally have v: "length (scan_0x radix u) \<le> length s" by (auto simp: scan_0x_def)
  have "r = s \<or> (\<exists>m. digits_prefix radix 0 (scan_0x radix u) = (m, r))"
    using assms u by (auto simp: scan_int_def Let_def split: if_splits prod.splits)
  then show ?thesis using v by (auto dest!: digits_prefix_suffix suffix_length_le)
qed

lemma strtoul_rest: "strtoul radix s = (v, r) \<Longrightarrow> length r \<le> length s"
  by (auto simp: strtoul_def split: prod.splits dest: scan_int_rest)

section \<open>ParseDuration\<close>

definition DAYSECS :: clong where "DAYSECS = 86400"

definition duration_unit :: "string \<Rightarrow> clong" where
  "duration_unit p = (case p of [] \<Rightarrow> 1 | c # _ \<Rightarrow>
     if c = CHR ''m'' then 60 else if c = CHR ''h'' then 3600 else if c = CHR ''d'' then DAYSECS
     else if c = CHR ''w'' then DAYSECS * 7
     else if c = CHR ''y'' \<or> c = CHR ''Y'' then DAYSECS * 365 else 1)"

function ParseDuration_loop :: "string \<Rightarrow> clong \<Rightarrow> clong" where
  "ParseDuration_loop ptr Result =
     (case strtoul 10 ptr of (val, p_next) \<Rightarrow>
        (if p_next = [] then Result + val * duration_unit p_next
         else ParseDuration_loop (dropWhile isspace (tl p_next)) (Result + val * duration_unit p_next)))"
  by pat_completeness auto
termination
proof (relation "measure (\<lambda>(s, _). length s)", goal_cases)
  case (2 ptr Result val p_next)
  then have "length p_next \<le> length ptr" by (metis strtoul_rest)
  moreover have "length (dropWhile isspace (tl p_next)) \<le> length (tl p_next)"
    by (rule length_dropWhile_le)
  moreover have "length (tl p_next) < length p_next" using 2 by (cases p_next) auto
  ultimately show ?case by simp
qed simp

declare ParseDuration_loop.simps [simp del]

definition ParseDuration :: "cstr \<Rightarrow> clong" where
  "ParseDuration Dur = (case Dur of None \<Rightarrow> 0 | Some s \<Rightarrow> ParseDuration_loop s 0)"

section \<open>Decimal text read back\<close>

lemma isdigit_char_of: "n < 10 \<Longrightarrow> isdigit (char_of (48 + n :: nat))"
  by (simp add: isdigit_def)

lemma digit_val_char_of: "n < 10 \<Longrightarrow> digit_val (char_of (48 + n :: nat)) = int n"
  by (simp add: digit_val_def isdigit_char_of)

lemma nat_digits_digits: "c \<in> set (nat_digits n) \<Longrightarrow> isdigit c"
proof (induction n rule: nat_digits.induct)
  case (1 n)
  then show ?case
    by (cases "n < 10") (auto simp: nat_digits.simps [of n] isdigit_char_of)
qed

lemma nat_digits_nonempty [simp]: "nat_digits n \<noteq> []"
  by (subst nat_digits.simps) simp

lemma digits_prefix_append:
  "(\<And>c. c \<in> set p \<Longrightarrow> digit_val c < radix) \<Longrightarrow>
   digits_prefix radix acc (p @ s) = digits_prefix radix (fst (digits_prefix radix acc p)) s"
  by (induction radix acc p rule: digits_prefix.induct) auto

lemma digit_val_digit: "isdigit c \<Longrightarrow> digit_val c < 10"
  by (simp add: digit_val_def isdigit_def)

lemma digits_prefix_nat_digits: "digits_prefix 10 0 (nat_digits n) = (int n, [])"
proof (induction n rule: nat_digits.induct)
  case (1 n)
  show ?case
  proof (cases "n < 10")
    case True
    then show ?thesis by (simp add: nat_digits.simps [of n] digit_val_char_of)
  next
    case False
    then have "digits_prefix 10 0 (nat_digits n) = digits_prefix 10 (int (n div 10)) [char_of (48 + n mod 10)]"
      using "1.IH" digits_prefix_append [of "nat_digits (n div 10)" 10 0 "[char_of (48 + n mod 10)]"]
      by (simp add: nat_digits.simps [of n] digit_val_digit nat_digits_digits)
    also have "\<dots> = (int n, [])"
      by (simp add: digit_val_char_of) (metis div_mult_mod_eq of_nat_add of_nat_mult of_nat_numeral)
    finally show ?thesis .
  qed
qed

lemma digits_prefix_stop:
  assumes "r = [] \<or> 10 \<le> digit_val (hd r)"
  shows "digits_prefix 10 0 (nat_digits n @ r) = (int n, r)"
proof -
  have "digits_prefix 10 0 (nat_digits n @ r) = digits_prefix 10 (int n) r"
    using digits_prefix_append [of "nat_digits n" 10 0 r]
    by (simp add: digits_prefix_nat_digits nat_digits_digits digit_val_digit)
  also have "\<dots> = (int n, r)" using assms by (cases r) auto
  finally show ?thesis .
qed

lemma digit_not_special:
  "isdigit c \<Longrightarrow> \<not> isspace c" "isdigit c \<Longrightarrow> c \<noteq> CHR ''-''" "isdigit c \<Longrightarrow> c \<noteq> CHR ''+''"
  by (auto simp: isdigit_def isspace_def)

lemma scan_int_digits:
  assumes "r = [] \<or> 10 \<le> digit_val (hd r)"
  shows "scan_int 10 (nat_digits n @ r) = (False, int n, r)"
proof -
  obtain c s where cs: "nat_digits n = c # s" by (cases "nat_digits n") simp_all
  then have "isdigit c" using nat_digits_digits [of c n] by simp
  then have "scan_sign (dropWhile isspace (nat_digits n @ r)) = (False, nat_digits n @ r)"
    and "digit_val (hd (nat_digits n @ r)) < 10"
    by (simp_all add: cs scan_sign_def digit_not_special digit_val_digit)
  moreover have "scan_0x 10 u = u" for u by (simp add: scan_0x_def)
  ultimately show ?thesis by (simp add: scan_int_def digits_prefix_stop [OF assms])
qed

lemma strtoul_digits:
  assumes "n < 2 ^ 64" and "r = [] \<or> 10 \<le> digit_val (hd r)"
  shows "strtoul 10 (nat_digits n @ r) = (of_nat n, r)"
  using assms by (simp add: strtoul_def scan_int_digits)

text \<open>
  A duration that starts with a number and a unit letter is that many units more than the rest:
  \<open>ParseDuration\<close> adds up the parts.
\<close>

lemma ParseDuration_loop_acc: "ParseDuration_loop s (a + b) = a + ParseDuration_loop s b"
proof (induction s b arbitrary: a rule: ParseDuration_loop.induct)
  case (1 s b)
  obtain v p where vp: "strtoul 10 s = (v, p)" by fastforce
  show ?case
  proof (cases "p = []")
    case True
    then show ?thesis
      by (simp add: ParseDuration_loop.simps [of s] vp add.assoc)
  next
    case False
    with "1.IH" [OF vp [symmetric] False, of a] vp show ?thesis
      by (simp add: ParseDuration_loop.simps [of s] add.assoc)
  qed
qed

lemma ParseDuration_part:
  assumes "n < 2 ^ 64" and "10 \<le> digit_val u"
  shows "ParseDuration (Some (nat_digits n @ u # r)) =
         of_nat n * duration_unit [u] + ParseDuration (Some (dropWhile isspace r))"
proof -
  have "strtoul 10 (nat_digits n @ u # r) = (of_nat n, u # r)"
    using assms by (intro strtoul_digits) auto
  moreover have "duration_unit (u # r) = duration_unit [u]" by (simp add: duration_unit_def)
  ultimately show ?thesis
    using ParseDuration_loop_acc [of "dropWhile isspace r" "of_nat n * duration_unit [u]" 0]
    by (simp add: ParseDuration_def ParseDuration_loop.simps [of "nat_digits n @ u # r"])
qed

lemma ParseDuration_seconds: "n < 2 ^ 64 \<Longrightarrow> ParseDuration (Some (nat_digits n)) = of_nat n"
  using strtoul_digits [of n "[]"]
  by (simp add: ParseDuration_def ParseDuration_loop.simps [of "nat_digits n"] duration_unit_def)

section \<open>Properties\<close>



end
