(* ===== verification/VpnCtx.thy ===== *)
theory VpnCtx
  imports Tokenizer Duration
begin

text \<open>
  \<open>vpn_ctx.h\<close> and \<open>vpn_ctx.c\<close>: the context that describes one VPN, its creation with defaults, and
  the flag words of \<open>common.h\<close>.  The context is a record with the fields of \<open>TVpn\<close>; a field the code
  never set is \<open>NULL\<close>, as \<open>calloc\<close> leaves it.
\<close>

section \<open>Constants\<close>

definition FLAG_EXIT :: cint where "FLAG_EXIT = 1"
definition FLAG_SU :: cint where "FLAG_SU = 2"
definition FLAG_LOCAL_SU :: cint where "FLAG_LOCAL_SU = 2"
definition FLAG_SUDO :: cint where "FLAG_SUDO = 4"
definition FLAG_LOCAL_SUDO :: cint where "FLAG_LOCAL_SUDO = 4"
definition FLAG_REMOTE_SU :: cint where "FLAG_REMOTE_SU = 8"
definition FLAG_REMOTE_SUDO :: cint where "FLAG_REMOTE_SUDO = 16"
definition FLAG_NODNS :: cint where "FLAG_NODNS = 32"
definition FLAG_DEBUG :: cint where "FLAG_DEBUG = 2048"
definition FLAG_VERBOSE :: cint where "FLAG_VERBOSE = 4096"

lemmas global_flag_defs [flag_simps] =
  FLAG_EXIT_def FLAG_SU_def FLAG_LOCAL_SU_def FLAG_SUDO_def FLAG_LOCAL_SUDO_def FLAG_REMOTE_SU_def
  FLAG_REMOTE_SUDO_def FLAG_NODNS_def FLAG_DEBUG_def FLAG_VERBOSE_def

definition VPN_UDP :: cint where "VPN_UDP = 1"
definition VPN_TCP :: cint where "VPN_TCP = 2"
definition VPN_VERIFY_PEER :: cint where "VPN_VERIFY_PEER = 4"

lemmas vpn_flag_defs [flag_simps] = VPN_UDP_def VPN_TCP_def VPN_VERIFY_PEER_def

definition ACT_CONFIG :: cint where "ACT_CONFIG = 1"
definition ACT_ADD :: cint where "ACT_ADD = 2"
definition ACT_DELETE :: cint where "ACT_DELETE = 4"
definition ACT_LIST :: cint where "ACT_LIST = 16"
definition ACT_CONNECT :: cint where "ACT_CONNECT = 8192"
definition ACT_SERVER :: cint where "ACT_SERVER = 16394"
definition ACT_PROTOCOLS :: cint where "ACT_PROTOCOLS = 32788"
definition ACT_VERSION :: cint where "ACT_VERSION = 65576"
definition ACT_HELP :: cint where "ACT_HELP = 131152"

lemmas action_defs =
  ACT_CONFIG_def ACT_ADD_def ACT_DELETE_def ACT_LIST_def ACT_CONNECT_def ACT_SERVER_def
  ACT_PROTOCOLS_def ACT_VERSION_def ACT_HELP_def

section \<open>The context\<close>

record TVpn =
  Action :: cint
  Flags :: cint
  LineSpeed :: cint
  MTU :: cint
  Timeout :: cint
  Name :: cstr
  Dev :: cstr
  RemoteDev :: cstr
  Transport :: cstr
  Server :: cstr
  ServerAddress :: cstr
  ConfFile :: cstr
  UpFile :: cstr
  DownFile :: cstr
  LocalAddress :: cstr
  RemoteAddress :: cstr
  AllowedIPs :: cstr
  RemoteAllowedIPs :: cstr
  UserName :: cstr
  Password :: cstr
  ClientCert :: cstr
  ClientKey :: cstr
  VerifyCert :: cstr
  PreSharedKey :: cstr
  PrivSepUser :: cstr
  PrivSepGroup :: cstr
  Ciphers :: cstr
  ClientID :: cstr
  DNS :: cstr
  PPPAuth :: cstr
  ServerAuth :: cstr
  RemoteSearchPath :: cstr

text \<open>\<open>calloc\<close>.\<close>

definition TVpn_zero :: TVpn where
  "TVpn_zero = \<lparr>Action = 0, Flags = 0, LineSpeed = 0, MTU = 0, Timeout = 0, Name = None, Dev = None,
     RemoteDev = None, Transport = None, Server = None, ServerAddress = None, ConfFile = None,
     UpFile = None, DownFile = None, LocalAddress = None, RemoteAddress = None, AllowedIPs = None,
     RemoteAllowedIPs = None, UserName = None, Password = None, ClientCert = None, ClientKey = None,
     VerifyCert = None, PreSharedKey = None, PrivSepUser = None, PrivSepGroup = None, Ciphers = None,
     ClientID = None, DNS = None, PPPAuth = None, ServerAuth = None, RemoteSearchPath = None\<rparr>"

text \<open>The chain of \<open>strcmp\<close>s on the action word; anything else is \<open>ACT_CONNECT\<close>.\<close>

definition VpnCtxAction :: "string \<Rightarrow> cint" where
  "VpnCtxAction action =
     (if action = ''conf'' then ACT_CONFIG
      else if action = ''config'' then ACT_CONFIG
      else if action = ''add'' then ACT_ADD
      else if action = ''del'' then ACT_DELETE
      else if action = ''delete'' then ACT_DELETE
      else if action = ''server'' then ACT_SERVER
      else if action = ''list'' then ACT_LIST
      else if action = ''protocols'' then ACT_PROTOCOLS
      else if action = ''version'' then ACT_VERSION
      else if action = ''help'' then ACT_HELP
      else ACT_CONNECT)"

text \<open>
  \<open>VpnCtxCreate\<close>: \<^term>\<open>None\<close> for the \<open>NULL\<close> it returns (with a message) when \<open>add\<close> has no URL.
\<close>

definition VpnCtxCreate :: "string \<Rightarrow> cstr \<Rightarrow> cstr \<Rightarrow> TVpn option" where
  "VpnCtxCreate action name server =
     (let Vpn = TVpn_zero\<lparr>Action := VpnCtxAction action\<rparr>
      in if Action Vpn = ACT_ADD \<and> \<not> StrValid server then None
      else
        (let Vpn = Vpn\<lparr>Name := CopyStr (Server Vpn) name\<rparr>;
             Vpn = Vpn\<lparr>Server := CopyStr (Server Vpn) server\<rparr>;
             Vpn = Vpn\<lparr>LocalAddress := CopyStr (LocalAddress Vpn) (Some ''''),
                       RemoteAddress := CopyStr (RemoteAddress Vpn) (Some ''''),
                       PrivSepUser := CopyStr (PrivSepUser Vpn) (Some ''nobody''),
                       PrivSepGroup := CopyStr (PrivSepGroup Vpn) (Some ''nobody'')\<rparr>;
             Vpn = (if StrValid name
                    then Vpn\<lparr>UpFile := MCopyStr (UpFile Vpn) [Some ''/etc/vpn_mgr/'', name, Some ''.up:'']\<rparr>
                    else Vpn);
             Vpn = Vpn\<lparr>UpFile := MCatStr (UpFile Vpn) [Some ''/etc/vpn_mgr/default.up'']\<rparr>;
             Vpn = (if StrValid name
                    then Vpn\<lparr>DownFile := MCopyStr (DownFile Vpn) [Some ''/etc/vpn_mgr/'', name, Some ''.down:'']\<rparr>
                    else Vpn);
             Vpn = Vpn\<lparr>DownFile := MCatStr (DownFile Vpn) [Some ''/etc/vpn_mgr/default.down'']\<rparr>
         in Some (Vpn\<lparr>LineSpeed := 4000000,
                      RemoteSearchPath := CopyStr (RemoteSearchPath Vpn)
                        (Some ''/sbin:/bin:/usr/sbin:/usr/bin:/usr/local/sbin:/usr/local/bin'')\<rparr>)))"

section \<open>Destruction\<close>

text \<open>
  \<open>VpnCtxDestroy\<close> frees the strings one by one.  A string is named by its field; \<open>Destroy\<close> of a
  non-\<open>NULL\<close> pointer that was freed before is undefined (\<^term>\<open>None\<close>).
\<close>

fun Destroy_all :: "string set \<Rightarrow> (string \<times> cstr) list \<Rightarrow> string set option" where
  "Destroy_all freed [] = Some freed"
| "Destroy_all freed ((field, None) # rest) = Destroy_all freed rest"
| "Destroy_all freed ((field, Some _) # rest) =
     (if field \<in> freed then None else Destroy_all (insert field freed) rest)"

definition VpnCtxDestroy :: "TVpn option \<Rightarrow> string set option" where
  "VpnCtxDestroy p_Vpn = (case p_Vpn of None \<Rightarrow> Some {} | Some Vpn \<Rightarrow>
     Destroy_all {}
       [(''Name'', Name Vpn), (''Server'', Server Vpn), (''Dev'', Dev Vpn), (''RemoteDev'', RemoteDev Vpn),
        (''Transport'', Transport Vpn), (''ServerAddress'', ServerAddress Vpn),
        (''ConfFile'', ConfFile Vpn), (''UpFile'', UpFile Vpn), (''DownFile'', DownFile Vpn),
        (''LocalAddress'', LocalAddress Vpn), (''RemoteAddress'', RemoteAddress Vpn),
        (''VerifyCert'', VerifyCert Vpn), (''AllowedIPs'', AllowedIPs Vpn),
        (''RemoteAllowedIPs'', RemoteAllowedIPs Vpn), (''ClientCert'', ClientCert Vpn),
        (''ClientKey'', ClientKey Vpn), (''UserName'', UserName Vpn), (''Password'', Password Vpn),
        (''VerifyCert'', VerifyCert Vpn), (''PreSharedKey'', PreSharedKey Vpn),
        (''PrivSepUser'', PrivSepUser Vpn), (''PrivSepGroup'', PrivSepGroup Vpn),
        (''Ciphers'', Ciphers Vpn), (''ClientID'', ClientID Vpn), (''DNS'', DNS Vpn),
        (''PPPAuth'', PPPAuth Vpn), (''ServerAuth'', ServerAuth Vpn),
        (''RemoteSearchPath'', RemoteSearchPath Vpn)])"

section \<open>Lemmas\<close>

lemma VpnCtxCreate_None: "VpnCtxCreate action name server = None \<longleftrightarrow> action = ''add'' \<and> \<not> StrValid server"
  by (simp add: VpnCtxCreate_def VpnCtxAction_def Let_def TVpn_zero_def action_defs)

lemma VpnCtxCreate_fields:
  assumes "VpnCtxCreate action name server = Some Vpn"
  shows "Action Vpn = VpnCtxAction action" "Name Vpn = Some (chars name)"
    "Server Vpn = Some (chars server)" "LocalAddress Vpn = Some []" "RemoteAddress Vpn = Some []"
    "Flags Vpn = 0" "MTU Vpn = 0" "Timeout Vpn = 0" "LineSpeed Vpn = 4000000" "AllowedIPs Vpn = None"
    "ConfFile Vpn = None" "ClientCert Vpn = None" "ClientKey Vpn = None" "VerifyCert Vpn = None"
    "DNS Vpn = None" "ClientID Vpn = None" "UserName Vpn = None" "Password Vpn = None"
    "RemoteDev Vpn = None" "Dev Vpn = None" "ServerAuth Vpn = None"
    "RemoteSearchPath Vpn = Some ''/sbin:/bin:/usr/sbin:/usr/bin:/usr/local/sbin:/usr/local/bin''"
  using assms by (auto simp: VpnCtxCreate_def Let_def TVpn_zero_def split: if_splits)

lemma VpnCtxCreate_scripts:
  assumes "VpnCtxCreate action name server = Some Vpn"
  shows "UpFile Vpn = Some (if StrValid name then ''/etc/vpn_mgr/'' @ chars name @ ''.up:/etc/vpn_mgr/default.up''
                            else ''/etc/vpn_mgr/default.up'')"
    "DownFile Vpn = Some (if StrValid name then ''/etc/vpn_mgr/'' @ chars name @ ''.down:/etc/vpn_mgr/default.down''
                          else ''/etc/vpn_mgr/default.down'')"
  using assms
  by (cases name; auto simp: VpnCtxCreate_def Let_def TVpn_zero_def MCopyStr_eq MCatStr_eq split: if_splits)+

lemma Destroy_all_freed: "Destroy_all freed xs = Some r \<Longrightarrow> freed \<subseteq> r"
  by (induction freed xs rule: Destroy_all.induct) (auto split: if_splits)

section \<open>Properties\<close>

lemma Destroy_all_insert:
  "f \<notin> fst ` set xs \<Longrightarrow> Destroy_all (insert f freed) xs = None \<longleftrightarrow> Destroy_all freed xs = None"
  by (induction freed xs rule: Destroy_all.induct) (auto simp: insert_commute)

lemma Destroy_all_skip:
  "f \<notin> fst ` set xs \<Longrightarrow> f \<notin> freed \<Longrightarrow> Destroy_all freed ((f, v) # xs) = None \<longleftrightarrow> Destroy_all freed xs = None"
  by (cases v) (simp_all add: Destroy_all_insert)

text \<open>
C40. \<open>VpnCtxDestroy\<close> is safe exactly for contexts without a server certificate: with one it frees the
string of \<open>VerifyCert\<close> twice.
\<close>

theorem VpnCtxDestroy_double_free: "VpnCtxDestroy (Some Vpn) = None \<longleftrightarrow> VerifyCert Vpn \<noteq> None"
  by (cases "VerifyCert Vpn") (simp_all add: VpnCtxDestroy_def Destroy_all_skip)

text \<open>
A new context: creation fails only for \<open>add\<close> without a URL, and a created one has the name and URL
given, no flags, no addresses, no timeout and the up and down scripts of \<open>/etc/vpn_mgr\<close>.
\<close>

theorem VpnCtxCreate_defaults:
  "(case VpnCtxCreate action name server of
      None \<Rightarrow> action = ''add'' \<and> \<not> StrValid server
    | Some Vpn \<Rightarrow> Action Vpn = VpnCtxAction action \<and> Name Vpn = Some (chars name) \<and>
        Server Vpn = Some (chars server) \<and> Flags Vpn = 0 \<and> MTU Vpn = 0 \<and> Timeout Vpn = 0 \<and>
        LocalAddress Vpn = Some [] \<and> RemoteAddress Vpn = Some [] \<and> VerifyCert Vpn = None \<and>
        UpFile Vpn = Some (if StrValid name then ''/etc/vpn_mgr/'' @ chars name @ ''.up:/etc/vpn_mgr/default.up''
                           else ''/etc/vpn_mgr/default.up''))"
  by (cases "VpnCtxCreate action name server")
    (use VpnCtxCreate_None [of action name server] in simp, simp add: VpnCtxCreate_fields VpnCtxCreate_scripts)

end
