(* ===== verification/CommandLine.thy ===== *)
theory CommandLine
  imports VpnCtx
begin

text \<open>
  \<open>command_line.c\<close> over \<open>libUseful-bundled/CommandLineParser.c\<close>: from the argument vector to a
  context and the global flags.

  \<open>argv\<close> is the list of arguments, the program name first; \<open>argv[argc]\<close> is \<open>NULL\<close>.  The parser runs
  in the option monad: \<^term>\<open>None\<close> is the crash of handing \<open>NULL\<close> to \<open>atoi\<close> or \<open>strncmp\<close>.
\<close>

section \<open>The argument cursor\<close>

record CMDLINE =
  argc :: nat
  curr :: nat
  argv :: "string list"

definition CommandLineParserCreate :: "string list \<Rightarrow> CMDLINE" where
  "CommandLineParserCreate args = \<lparr>argc = length args, curr = 0, argv = args\<rparr>"

definition argv_at :: "CMDLINE \<Rightarrow> nat \<Rightarrow> cstr" where
  "argv_at Cmd i = (if i < length (argv Cmd) then Some (argv Cmd ! i) else None)"

definition CommandLineCurr :: "CMDLINE \<Rightarrow> cstr" where
  "CommandLineCurr Cmd = (if curr Cmd < argc Cmd then argv_at Cmd (curr Cmd) else None)"

definition CommandLineNext :: "CMDLINE \<Rightarrow> cstr \<times> CMDLINE" where
  "CommandLineNext Cmd =
     (if curr Cmd < argc Cmd
      then (argv_at Cmd (Suc (curr Cmd)), Cmd\<lparr>curr := Suc (curr Cmd)\<rparr>) else (None, Cmd))"

definition CommandLineFirst :: "CMDLINE \<Rightarrow> cstr \<times> CMDLINE" where
  "CommandLineFirst Cmd = CommandLineNext (Cmd\<lparr>curr := 0\<rparr>)"

definition CommandLinePeek :: "CMDLINE \<Rightarrow> cstr" where
  "CommandLinePeek Cmd = (if Suc (curr Cmd) < argc Cmd then argv_at Cmd (Suc (curr Cmd)) else None)"

lemma CommandLineNext_Some:
  "CommandLineNext Cmd = (Some a, Cmd') \<Longrightarrow>
   argc Cmd' = argc Cmd \<and> curr Cmd < argc Cmd \<and> curr Cmd' = Suc (curr Cmd)"
  by (auto simp: CommandLineNext_def split: if_splits)

lemma CommandLineNext_le:
  "CommandLineNext Cmd = (a, Cmd') \<Longrightarrow> argc Cmd' = argc Cmd \<and> argc Cmd' - curr Cmd' \<le> argc Cmd - curr Cmd"
  by (auto simp: CommandLineNext_def split: if_splits)

section \<open>Validity of the command\<close>

definition server_prefixes :: "string list" where
  "server_prefixes = [''wg:'', ''ovpn:'', ''openvpn:'', ''ssh:'', ''tls:'', ''ssl:'', ''pssh:'', ''pppssh:'',
     ''pssl:'', ''pppssl:'', ''ptls:'', ''ppptls:'']"

text \<open>\<open>strncmp\<close> of a \<open>NULL\<close> pointer is undefined.\<close>

definition IsServerURL :: "cstr \<Rightarrow> bool option" where
  "IsServerURL server = (case server of None \<Rightarrow> None
     | Some s \<Rightarrow> Some (\<exists>p \<in> set server_prefixes. strneq s p (length p)))"

definition CommandsNeedingServer :: "string list" where
  "CommandsNeedingServer = [''add'', ''connect'', ''server'']"

text \<open>The message it prints is the second component.\<close>

definition CommandLineValid :: "string \<Rightarrow> cstr \<Rightarrow> cstr \<Rightarrow> (bool \<times> string list) option" where
  "CommandLineValid action name server =
     (if MatchTokenFromList (Some action) CommandsNeedingServer 0 > -1
      then (if StrValid server
            then do { ok \<leftarrow> IsServerURL server;
                      if \<not> ok
                      then do { n \<leftarrow> IsServerURL name;
                                Some (False, [if n then ''ERROR: Invalid command line: 'name' seems to be the service url.\<newline>''
                                              else ''Invalid command line: no server url\<newline>'']) }
                      else Some (True, []) }
            else Some (True, []))
      else Some (True, []))"

section \<open>Options\<close>

text \<open>The options that copy their argument into a field.\<close>

definition opt_field :: "string \<Rightarrow> ((cstr \<Rightarrow> cstr) \<Rightarrow> TVpn \<Rightarrow> TVpn) option" where
  "opt_field Arg =
     (if Arg = ''-c'' then Some ConfFile_update
      else if Arg = ''-conf'' then Some ConfFile_update
      else if Arg = ''-a'' then Some AllowedIPs_update
      else if Arg = ''-A'' then Some RemoteAllowedIPs_update
      else if Arg = ''-d'' then Some Dev_update
      else if Arg = ''-dev'' then Some Dev_update
      else if Arg = ''-ldev'' then Some Dev_update
      else if Arg = ''-local-dev'' then Some Dev_update
      else if Arg = ''-D'' then Some RemoteDev_update
      else if Arg = ''-rdev'' then Some RemoteDev_update
      else if Arg = ''-remote-dev'' then Some RemoteDev_update
      else if Arg = ''-L'' then Some LocalAddress_update
      else if Arg = ''-R'' then Some RemoteAddress_update
      else if Arg = ''-local-address'' then Some LocalAddress_update
      else if Arg = ''-remote-address'' then Some RemoteAddress_update
      else if Arg = ''-laddr'' then Some LocalAddress_update
      else if Arg = ''-raddr'' then Some RemoteAddress_update
      else if Arg = ''-cid'' then Some ClientID_update
      else if Arg = ''-id'' then Some ClientID_update
      else if Arg = ''-user'' then Some UserName_update
      else if Arg = ''-pass'' then Some Password_update
      else if Arg = ''-passwd'' then Some Password_update
      else if Arg = ''-password'' then Some Password_update
      else if Arg = ''-pw'' then Some Password_update
      else if Arg = ''-psk'' then Some PreSharedKey_update
      else if Arg = ''-cert'' then Some ClientCert_update
      else if Arg = ''-key'' then Some ClientKey_update
      else if Arg = ''-k'' then Some ClientKey_update
      else if Arg = ''-server-key'' then Some VerifyCert_update
      else if Arg = ''-ca'' then Some VerifyCert_update
      else if Arg = ''-ciphers'' then Some Ciphers_update
      else if Arg = ''-dns'' then Some DNS_update
      else if Arg = ''-ppp-auth'' then Some PPPAuth_update
      else if Arg = ''-up'' then Some UpFile_update
      else if Arg = ''-down'' then Some DownFile_update
      else if Arg = ''-remote_path'' then Some RemoteSearchPath_update
      else if Arg = ''-auth'' then Some ServerAuth_update
      else None)"

text \<open>The options without an argument that change the global flags.\<close>

definition opt_flags :: "string \<Rightarrow> cint \<Rightarrow> cint option" where
  "opt_flags Arg g =
     (if Arg = ''-nodns'' then Some (g OR FLAG_NODNS)
      else if Arg = ''-local-sudo'' then Some ((g AND NOT FLAG_SU) OR FLAG_SUDO)
      else if Arg = ''-local-su'' then Some ((g AND NOT FLAG_SUDO) OR FLAG_SU)
      else if Arg = ''-remote-sudo'' then Some ((g AND NOT FLAG_REMOTE_SU) OR FLAG_REMOTE_SUDO)
      else if Arg = ''-remote-su'' then Some ((g AND NOT FLAG_REMOTE_SUDO) OR FLAG_REMOTE_SU)
      else if Arg = ''-s'' then Some (g OR FLAG_REMOTE_SU)
      else if Arg = ''-S'' then Some (g OR FLAG_REMOTE_SUDO)
      else if Arg = ''-N'' then Some (g AND NOT (FLAG_REMOTE_SU OR FLAG_REMOTE_SUDO))
      else if Arg = ''-debug'' then Some (g OR FLAG_DEBUG)
      else if Arg = ''-verbose'' then Some (g OR FLAG_VERBOSE)
      else if Arg = ''-version'' then Some (g OR FLAG_VERBOSE)
      else if Arg = ''--version'' then Some (g OR FLAG_VERBOSE)
      else None)"

text \<open>\<open>atoi(NULL)\<close> is undefined.\<close>

definition atoi_ptr :: "cstr \<Rightarrow> cint option" where
  "atoi_ptr p = map_option atoi p"

text \<open>One round of the option loop; an unknown argument is skipped.\<close>

definition ParseOption :: "string \<Rightarrow> TVpn \<times> cint \<times> CMDLINE \<Rightarrow> (TVpn \<times> cint \<times> CMDLINE) option" where
  "ParseOption Arg st = (case st of (Ctx, g, Cmd) \<Rightarrow>
     (case opt_field Arg of
        Some upd \<Rightarrow> (case CommandLineNext Cmd of (a, Cmd') \<Rightarrow> Some (upd (\<lambda>f. CopyStr f a) Ctx, g, Cmd'))
      | None \<Rightarrow>
        (case opt_flags Arg g of
           Some g' \<Rightarrow> Some (Ctx, g', Cmd)
         | None \<Rightarrow>
           if Arg = ''-mtu'' then
             (case CommandLineNext Cmd of (a, Cmd') \<Rightarrow>
                do { n \<leftarrow> atoi_ptr a; Some (Ctx\<lparr>MTU := n\<rparr>, g, Cmd') })
           else if Arg = ''-ppp-speed'' then
             (case CommandLineNext Cmd of (a, Cmd') \<Rightarrow>
                do { n \<leftarrow> atoi_ptr a; Some (Ctx\<lparr>LineSpeed := n\<rparr>, g, Cmd') })
           else if Arg = ''-tcp'' then Some (Ctx\<lparr>Flags := Flags Ctx OR VPN_TCP\<rparr>, g, Cmd)
           else if Arg = ''-timeout'' \<or> Arg = ''-T'' then
             (case CommandLineNext Cmd of (a, Cmd') \<Rightarrow> Some (Ctx\<lparr>Timeout := ucast (ParseDuration a)\<rparr>, g, Cmd'))
           else if Arg = ''-V'' \<or> Arg = ''-verify'' then
             Some (Ctx\<lparr>Flags := Flags Ctx OR VPN_VERIFY_PEER\<rparr>, g, Cmd)
           else Some (Ctx, g, Cmd))))"

lemma ParseOption_Cmd_cases:
  "ParseOption Arg (Ctx, g, Cmd) = Some (Ctx', g', Cmd') \<Longrightarrow> Cmd' = Cmd \<or> Cmd' = snd (CommandLineNext Cmd)"
  unfolding ParseOption_def prod.case
  by (cases "opt_field Arg"; cases "opt_flags Arg g"; cases "CommandLineNext Cmd")
    (simp_all add: bind_eq_Some_conv split: if_split_asm, blast+)

lemma ParseOption_Cmd:
  "ParseOption Arg (Ctx, g, Cmd) = Some (Ctx', g', Cmd') \<Longrightarrow>
   argc Cmd' = argc Cmd \<and> argc Cmd' - curr Cmd' \<le> argc Cmd - curr Cmd"
  using ParseOption_Cmd_cases [of Arg Ctx g Cmd Ctx' g' Cmd']
    CommandLineNext_le [of Cmd "fst (CommandLineNext Cmd)" "snd (CommandLineNext Cmd)"]
  by auto

function ParseOptions :: "TVpn \<Rightarrow> cint \<Rightarrow> CMDLINE \<Rightarrow> (TVpn \<times> cint) option" where
  "ParseOptions Ctx g Cmd =
     (case CommandLineNext Cmd of
        (None, Cmd') \<Rightarrow> Some (Ctx, g)
      | (Some Arg, Cmd') \<Rightarrow>
          (case ParseOption Arg (Ctx, g, Cmd') of
             None \<Rightarrow> None
           | Some (Ctx', g', Cmd'') \<Rightarrow> ParseOptions Ctx' g' Cmd''))"
  by pat_completeness auto
termination
proof (relation "measure (\<lambda>(_, _, Cmd). argc Cmd - curr Cmd)", goal_cases)
  case (2 Ctx g Cmd o1 Cmd' Arg r Ctx' b g' Cmd'')
  then have "CommandLineNext Cmd = (Some Arg, Cmd')" "ParseOption Arg (Ctx, g, Cmd') = Some (Ctx', g', Cmd'')"
    by simp_all
  then show ?case using CommandLineNext_Some [of Cmd Arg Cmd'] ParseOption_Cmd [of Arg Ctx g Cmd' Ctx' g' Cmd'']
    by auto
qed simp

declare ParseOptions.simps [simp del]

section \<open>The whole command line\<close>

text \<open>The action word, the name and the URL.\<close>

definition ParseAction :: "CMDLINE \<Rightarrow> (string \<times> cstr \<times> cstr \<times> CMDLINE) option" where
  "ParseAction Cmd0 =
     (case CommandLineNext Cmd0 of (a, Cmd) \<Rightarrow>
       (let action = chars (CopyStr None a);
            named = (case CommandLineNext Cmd of (n, Cmd') \<Rightarrow> Some (action, CopyStr None n, None, Cmd'))
        in if strcaseeq action ''add'' \<or> strcaseeq action ''conf'' \<or> strcaseeq action ''config'' then
             (case CommandLineNext Cmd of (n, Cmd') \<Rightarrow>
               (case CommandLineNext Cmd' of (s, Cmd'') \<Rightarrow> Some (action, CopyStr None n, CopyStr None s, Cmd'')))
           else if strcaseeq action ''list'' then named
           else if strcaseeq action ''del'' then named
           else if strcaseeq action ''delete'' then named
           else if strcaseeq action ''protocols'' then named
           else if strcaseeq action ''server'' then
             (case CommandLineNext Cmd of (s, Cmd') \<Rightarrow> Some (action, None, CopyStr None s, Cmd'))
           else if strcaseeq action ''connect'' then
             (case CommandLineNext Cmd of (s, Cmd') \<Rightarrow>
               (let server = CopyStr None s
                in do { u \<leftarrow> IsServerURL server;
                        Some (if u then (action, None, server, Cmd')
                              else (action, CopyStr None server, CopyStr server (Some ''''), Cmd')) }))
           else if strcaseeq action ''version'' \<or> strcaseeq action ''-version'' \<or> strcaseeq action ''--version''
             then Some (''version'', None, None, Cmd)
           else Some (''help'', None, None, Cmd)))"

text \<open>
  The result: the context (\<^term>\<open>None\<close> for \<open>NULL\<close>), the global flags and what was printed.
\<close>

definition ParseCommandLine :: "string list \<Rightarrow> cint \<Rightarrow> (TVpn option \<times> cint \<times> string list) option" where
  "ParseCommandLine args g =
     do { (action, name, server, Cmd) \<leftarrow> ParseAction (CommandLineParserCreate args);
          (valid, msg) \<leftarrow> CommandLineValid action name server;
          if valid
          then (case VpnCtxCreate action name server of
                  None \<Rightarrow> Some (None, g, msg @ [''ERROR: no URL given for add command\<newline>''])
                | Some Ctx \<Rightarrow> do { (Ctx', g') \<leftarrow> ParseOptions Ctx g Cmd; Some (Some Ctx', g', msg) })
          else Some (None, g, msg) }"

section \<open>Properties\<close>

text \<open>No option touches the action, the name or the URL.\<close>

lemma opt_field_keeps:
  assumes "opt_field Arg = Some upd"
  shows "Action (upd h Ctx) = Action Ctx \<and> Name (upd h Ctx) = Name Ctx \<and> Server (upd h Ctx) = Server Ctx"
proof -
  have "upd \<in> {ConfFile_update, AllowedIPs_update, RemoteAllowedIPs_update, Dev_update, RemoteDev_update,
      LocalAddress_update, RemoteAddress_update, ClientID_update, UserName_update, Password_update,
      PreSharedKey_update, ClientCert_update, ClientKey_update, VerifyCert_update, Ciphers_update, DNS_update,
      PPPAuth_update, UpFile_update, DownFile_update, RemoteSearchPath_update, ServerAuth_update}"
    using assms unfolding opt_field_def by (simp split: if_split_asm)
  then show ?thesis by (elim insertE emptyE) simp_all
qed

lemma ParseOption_keeps:
  assumes "ParseOption Arg (Ctx, g, Cmd) = Some (Ctx', g', Cmd')"
  shows "Action Ctx' = Action Ctx \<and> Name Ctx' = Name Ctx \<and> Server Ctx' = Server Ctx"
proof (cases "opt_field Arg")
  case (Some upd)
  then show ?thesis
    using assms opt_field_keeps [OF Some] unfolding ParseOption_def by (auto split: prod.splits)
next
  case None
  obtain a C where n: "CommandLineNext Cmd = (a, C)" by fastforce
  show ?thesis
  proof (cases "opt_flags Arg g")
    case (Some h)
    with None assms show ?thesis by (simp add: ParseOption_def)
  next
    case flags: None
    note p = assms [unfolded ParseOption_def prod.case n None flags option.case]
    show ?thesis
    proof (cases "Arg = ''-mtu'' \<or> Arg = ''-ppp-speed''")
      case True
      then obtain m where "atoi_ptr a = Some m" "Ctx' = Ctx\<lparr>MTU := m\<rparr> \<or> Ctx' = Ctx\<lparr>LineSpeed := m\<rparr>"
        using p by (cases "atoi_ptr a") auto
      then show ?thesis by auto
    next
      case False
      then have "Ctx' = Ctx\<lparr>Flags := Flags Ctx OR VPN_TCP\<rparr> \<or> Ctx' = Ctx\<lparr>Timeout := ucast (ParseDuration a)\<rparr>
          \<or> Ctx' = Ctx\<lparr>Flags := Flags Ctx OR VPN_VERIFY_PEER\<rparr> \<or> Ctx' = Ctx"
        using p by (simp only: de_Morgan_disj if_False simp_thms split: if_split_asm) auto
      then show ?thesis by auto
    qed
  qed
qed

lemma ParseOptions_keeps:
  "ParseOptions Ctx g Cmd = Some (Ctx', g') \<Longrightarrow>
   Action Ctx' = Action Ctx \<and> Name Ctx' = Name Ctx \<and> Server Ctx' = Server Ctx"
proof (induction Ctx g Cmd rule: ParseOptions.induct)
  case (1 Ctx g Cmd)
  show ?case
  proof (cases "fst (CommandLineNext Cmd)")
    case None
    with "1.prems" show ?thesis by (subst (asm) ParseOptions.simps) (auto split: prod.splits)
  next
    case (Some Arg)
    then obtain C1 where n: "CommandLineNext Cmd = (Some Arg, C1)" by (metis prod.collapse)
    with "1.prems" obtain Ctx1 g1 C2 where p: "ParseOption Arg (Ctx, g, C1) = Some (Ctx1, g1, C2)"
      and r: "ParseOptions Ctx1 g1 C2 = Some (Ctx', g')"
      by (subst (asm) ParseOptions.simps) (auto split: option.splits)
    show ?thesis
      using "1.IH" [OF n [symmetric] _ p] r ParseOption_keeps [OF p] by auto
  qed
qed

lemma VpnCtxAction_add: "VpnCtxAction action = ACT_ADD \<longleftrightarrow> action = ''add''"
  by (auto simp: VpnCtxAction_def action_defs)

lemma MatchTokenFromList_add: "MatchTokenFromList (Some ''add'') CommandsNeedingServer 0 > -1"
  by code_simp

lemma MatchTokenFromList_server: "MatchTokenFromList (Some ''server'') CommandsNeedingServer 0 > -1"
  by code_simp

text \<open>
C28. A context with the action \<open>ADD\<close> that comes out of the command line has a URL, and the URL starts
with one of the known protocol prefixes, whatever options follow.
\<close>

theorem ParseCommandLine_add_has_url:
  assumes "ParseCommandLine args g = Some (Some Ctx, g', msg)" "Action Ctx = ACT_ADD"
  shows "\<exists>s. Server Ctx = Some s \<and> s \<noteq> [] \<and> (\<exists>p \<in> set server_prefixes. \<exists>r. s = p @ r)"
proof -
  obtain action name server Cmd where a: "ParseAction (CommandLineParserCreate args) = Some (action, name, server, Cmd)"
    and v: "CommandLineValid action name server = Some (True, msg)"
    and c: "\<exists>C. VpnCtxCreate action name server = Some C \<and> ParseOptions C g Cmd = Some (Ctx, g')"
    using assms(1) by (auto simp: ParseCommandLine_def bind_eq_Some_conv split: if_split_asm option.splits)
  from c obtain C where C: "VpnCtxCreate action name server = Some C" "ParseOptions C g Cmd = Some (Ctx, g')" by blast
  have "VpnCtxAction action = ACT_ADD"
    using ParseOptions_keeps [OF C(2)] VpnCtxCreate_fields(1) [OF C(1)] assms(2) by simp
  then have add: "action = ''add''" by (simp add: VpnCtxAction_add)
  have valid: "StrValid server" using C(1) VpnCtxCreate_None [of action name server] add by auto
  then obtain s where s: "server = Some s" "s \<noteq> []" by (cases server) auto
  have "IsServerURL server = Some True"
    using v valid MatchTokenFromList_add unfolding CommandLineValid_def add
    by (auto simp: bind_eq_Some_conv IsServerURL_def split: if_split_asm option.splits)
  then have "\<exists>p \<in> set server_prefixes. \<exists>r. s = p @ r"
    by (auto simp: IsServerURL_def s strneq_prefix)
  moreover have "Server Ctx = Some s"
    using ParseOptions_keeps [OF C(2)] VpnCtxCreate_fields(3) [OF C(1)] s by simp
  ultimately show ?thesis using s(2) by simp
qed

theorem ParseCommandLine_add_has_url_witness:
  "\<exists>s. Server (the (fst (the (ParseCommandLine [''vpn_mgr'', ''add'', ''home'', ''wg:vpn:51820'', ''-tcp''] 0)))) = Some s \<and>
     s \<noteq> [] \<and> (\<exists>p \<in> set server_prefixes. \<exists>r. s = p @ r)"
proof -
  have "case ParseCommandLine [''vpn_mgr'', ''add'', ''home'', ''wg:vpn:51820'', ''-tcp''] 0 of
      Some (Some Ctx, g, msg) \<Rightarrow> Action Ctx = ACT_ADD | _ \<Rightarrow> False"
    by code_simp
  then obtain Ctx g msg where "ParseCommandLine [''vpn_mgr'', ''add'', ''home'', ''wg:vpn:51820'', ''-tcp''] 0 = Some (Some Ctx, g, msg)"
    "Action Ctx = ACT_ADD"
    by (auto split: option.splits)
  then show ?thesis using ParseCommandLine_add_has_url [of _ 0 Ctx g msg] by simp
qed

text \<open>
C39. \<open>vpn_mgr server\<close> with an argument that is not a URL does not get an error message: the check for the
message looks at the name, which is \<open>NULL\<close> for this command, and the program crashes.
\<close>

theorem ParseCommandLine_server_crash:
  assumes "s \<noteq> []" "\<forall>p \<in> set server_prefixes. \<forall>r. s \<noteq> p @ r"
  shows "ParseCommandLine [prog, ''server'', s] g = None"
proof -
  have u: "IsServerURL (Some s) = Some False"
    using assms(2) by (auto simp: IsServerURL_def strneq_prefix)
  have "CommandLineValid ''server'' None (Some s) = None"
    using assms(1) u MatchTokenFromList_server by (simp add: CommandLineValid_def) (simp add: IsServerURL_def)
  moreover have "\<exists>Cmd. ParseAction (CommandLineParserCreate [prog, ''server'', s]) = Some (''server'', None, Some s, Cmd)"
  proof -
    have "\<not> strcaseeq ''server'' ''add''" "\<not> strcaseeq ''server'' ''conf''" "\<not> strcaseeq ''server'' ''config''"
      "\<not> strcaseeq ''server'' ''list''" "\<not> strcaseeq ''server'' ''del''" "\<not> strcaseeq ''server'' ''delete''"
      "\<not> strcaseeq ''server'' ''protocols''"
      by code_simp+
    then show ?thesis
      by (simp add: ParseAction_def CommandLineNext_def argv_at_def CommandLineParserCreate_def)
  qed
  ultimately show ?thesis by (auto simp: ParseCommandLine_def)
qed

theorem ParseCommandLine_server_crash_witness: "ParseCommandLine [''vpn_mgr'', ''server'', ''0.0.0.0:443''] 0 = None"
  by (rule ParseCommandLine_server_crash) (simp_all add: server_prefixes_def)

end
