(* ===== verification/PlainTokens.thy ===== *)
theory PlainTokens
  imports Tokenizer
begin

text \<open>
  \<open>GetToken\<close> on text without white space, quotes and backslashes, where it simply splits at the
  separators.
\<close>

section \<open>One separator character\<close>

text \<open>Characters that the tokenizer passes over.\<close>

definition plain_char :: "char \<Rightarrow> bool" where
  "plain_char c \<longleftrightarrow> \<not> isspace c \<and> \<not> is_quote c \<and> c \<noteq> CHR 0x5C"

abbreviation plain :: "string \<Rightarrow> bool" where
  "plain s \<equiv> \<forall>c \<in> set s. plain_char c"

lemma SepMatch_pattern_char: "d \<noteq> CHR 0x5C \<Longrightarrow> SepMatch_pattern [d] MT = ([d], Some d, MT)"
  by (simp add: SepMatch_pattern_def)

lemma SepMatch_char_other:
  assumes "x \<noteq> d" "\<not> is_quote x" "x \<noteq> CHR 0x5C"
  shows "SepMatch_char (Some d) TOK_NONE x es start Fl = Inl (start, Fl)"
proof -
  have d: "Some d \<noteq> Some x" using assms(1) by simp
  show ?thesis unfolding SepMatch_char_def if_not_P [OF assms(3)] if_not_P [OF assms(2)] if_P [OF d] by simp
qed

lemma SepMatch_char_same:
  assumes "\<not> is_quote d" "d \<noteq> CHR 0x5C"
  shows "SepMatch_char (Some d) TOK_NONE d es start Fl = Inr (es, TOK_NONE)"
  unfolding SepMatch_char_def if_not_P [OF assms(2)] if_not_P [OF assms(1)] by simp

lemma SepMatch_other:
  assumes "x \<noteq> d" "d \<noteq> CHR 0x5C" "\<not> is_quote x" "x \<noteq> CHR 0x5C"
  shows "GetTokenSepMatch [d] (x # xs) en Fl = (False, x # xs, en, Fl)"
  using SepMatch_char_other [OF assms(1,3,4)]
  by (simp only: GetTokenSepMatch_def SepMatch_loop.simps [of "[d]"] SepMatch_pattern_char [OF assms(2)]
      list.distinct if_False prod.case list.case sum.case if_cancel)

lemma SepMatch_hit:
  assumes "d \<noteq> CHR 0x5C" "\<not> is_quote d" "en \<noteq> Some (d # xs)"
  shows "GetTokenSepMatch [d] (d # xs) en Fl = (True, d # xs, Some xs, Fl)"
proof -
  have "SepMatch_loop [d] (d # xs) TOK_NONE (d # xs) en Fl = SepMatch_loop [] xs TOK_NONE (d # xs) en Fl"
    by (subst SepMatch_loop.simps)
      (simp only: SepMatch_pattern_char [OF assms(1)] SepMatch_char_same [OF assms(2,1)]
        prod.case list.case sum.case ptr_incr_def list.distinct if_False drop_Suc_Cons drop0 One_nat_def)
  then show ?thesis using assms(3) by (simp add: GetTokenSepMatch_def SepMatch_loop.simps [of "[]"])
qed

lemma StepThru_plain:
  assumes "x \<noteq> CHR 0x5C" "\<not> is_quote x"
  shows "GetTokenStepThru (x # xs) Fl = (xs, Fl)"
  using assms by (simp only: GetTokenStepThru_def list.case simp_thms if_False ptr_incr_def drop_Suc_Cons drop0 One_nat_def)

lemma FindSep_step:
  assumes "c \<noteq> CHR 0x5C"
  shows "GetTokenSepMatch P (c # cs) en Fl = (False, st, en', Fl')
    \<Longrightarrow> FindSep_loop P (c # cs) en Fl = FindSep_loop P (fst (GetTokenStepThru st Fl')) en' (snd (GetTokenStepThru st Fl'))"
    "GetTokenSepMatch P (c # cs) en Fl = (True, st, en', Fl') \<Longrightarrow> FindSep_loop P (c # cs) en Fl = (st, chars en', Fl')"
  using assms by (subst FindSep_loop.simps, simp)+

lemma FindSep_skip:
  assumes "x \<noteq> d" "d \<noteq> CHR 0x5C" "\<not> is_quote x" "x \<noteq> CHR 0x5C"
  shows "FindSep_loop [d] (x # xs) en Fl = FindSep_loop [d] xs en Fl"
  by (simp only: FindSep_step(1) [OF assms(4) SepMatch_other [OF assms]] StepThru_plain [OF assms(4,3)]
      fst_conv snd_conv)

lemma FindSep_none:
  assumes "d \<noteq> CHR 0x5C" "d \<notin> set s" "\<forall>c \<in> set s. c \<noteq> CHR 0x5C \<and> \<not> is_quote c"
  shows "FindSep_loop [d] s en Fl = ([], [], Fl)"
  using assms(2,3)
proof (induction s)
  case Nil
  show ?case by (subst FindSep_loop.simps) simp
next
  case (Cons x xs)
  then have "x \<noteq> d" by auto
  moreover have "x \<noteq> CHR 0x5C \<and> \<not> is_quote x" using Cons.prems(2) by simp
  ultimately have "x \<noteq> d" "\<not> is_quote x" "x \<noteq> CHR 0x5C" by simp_all
  then have "FindSep_loop [d] (x # xs) en Fl = FindSep_loop [d] xs en Fl"
    using assms(1) by (intro FindSep_skip)
  with Cons show ?case by simp
qed

lemma FindSep_first:
  assumes "d \<noteq> CHR 0x5C" "\<not> is_quote d" "d \<notin> set s" "\<forall>c \<in> set s. c \<noteq> CHR 0x5C \<and> \<not> is_quote c"
  shows "FindSep_loop [d] (s @ d # r) None Fl = (d # r, r, Fl)"
  using assms(3,4)
proof (induction s)
  case Nil
  have "FindSep_loop [d] (d # r) None Fl = (d # r, r, Fl)"
    using FindSep_step(2) [OF assms(1) SepMatch_hit [OF assms(1,2), of None]] by simp
  then show ?case by simp
next
  case (Cons x xs)
  then have "x \<noteq> d" by auto
  moreover have "x \<noteq> CHR 0x5C \<and> \<not> is_quote x" using Cons.prems(2) by simp
  ultimately have "x \<noteq> d" "\<not> is_quote x" "x \<noteq> CHR 0x5C" by simp_all
  then have "FindSep_loop [d] (x # (xs @ d # r)) None Fl = FindSep_loop [d] (xs @ d # r) None Fl"
    using assms(1) by (intro FindSep_skip)
  with Cons show ?case by simp
qed

lemma PostProcess_plain:
  assumes "s \<noteq> []" "\<not> is_quote (hd s)" "suffix ss s"
    "\<not> has_flag Fl GETTOKEN_INCLUDE_SEP" "\<not> has_flag Fl GETTOKEN_APPEND_SEP"
    "\<not> has_flag Fl GETTOKEN_FOUND_BACKSLASH" "\<not> has_flag Fl GETTOKEN_STRIP_SPACE"
  shows "GetTokenPostProcess level s (Some ss) (Some se) Fl = Some (se, take (length s - length ss) s)"
  using assms suffix_length_le [OF assms(3)]
  by (simp add: GetTokenPostProcess_def PostProcess_token_def)

lemma plainD: "plain s \<Longrightarrow> \<forall>c \<in> set s. c \<noteq> CHR 0x5C \<and> \<not> is_quote c" "plain s \<Longrightarrow> s \<noteq> [] \<Longrightarrow> \<not> is_quote (hd s)"
  by (auto simp: plain_char_def)

lemma plain_ends: "plain v \<Longrightarrow> v = [] \<or> plain_char (hd v) \<and> plain_char (last v)"
  by (cases "v = []") simp_all

lemma GetToken_plain_none:
  assumes "plain s" "s \<noteq> []" "d \<noteq> CHR 0x5C" "d \<notin> set s" "F = GETTOKEN_HONOR_QUOTES \<or> F = GETTOKEN_QUOTES"
  shows "GetToken (Some s) (Some [d]) F = Some (Some [], s)"
proof -
  have f: "has_flag F GETTOKEN_HONOR_QUOTES" "\<not> has_flag F GETTOKEN_MULTI_SEP"
    "\<not> has_flag F GETTOKEN_INCLUDE_SEP" "\<not> has_flag F GETTOKEN_APPEND_SEP"
    "\<not> has_flag F GETTOKEN_FOUND_BACKSLASH" "\<not> has_flag F GETTOKEN_STRIP_SPACE"
    using assms(5) by (auto simp: has_flag_def gettoken_flag_defs)
  show ?thesis
    using assms f FindSep_none [of d s None F]
      PostProcess_plain [of s "[]" F 0 "[]"] plainD [OF assms(1)]
    by (simp add: GetToken_def GetToken_lvl_def Let_def)
qed

lemma GetToken_plain_first:
  assumes "plain s" "s \<noteq> []" "d \<noteq> CHR 0x5C" "\<not> is_quote d" "d \<notin> set s"
    "F = GETTOKEN_HONOR_QUOTES \<or> F = GETTOKEN_QUOTES"
  shows "GetToken (Some (s @ d # r)) (Some [d]) F = Some (Some r, s)"
proof -
  have f: "has_flag F GETTOKEN_HONOR_QUOTES" "\<not> has_flag F GETTOKEN_MULTI_SEP"
    "\<not> has_flag F GETTOKEN_INCLUDE_SEP" "\<not> has_flag F GETTOKEN_APPEND_SEP"
    "\<not> has_flag F GETTOKEN_FOUND_BACKSLASH" "\<not> has_flag F GETTOKEN_STRIP_SPACE"
    using assms(6) by (auto simp: has_flag_def gettoken_flag_defs)
  have "GetTokenPostProcess 0 (s @ d # r) (Some (d # r)) (Some r) F = Some (r, s)"
    using PostProcess_plain [of "s @ d # r" "d # r" F 0 r] f assms(2) plainD [OF assms(1)]
    by (simp add: suffix_def)
  then show ?thesis
    using assms f FindSep_first [of d s r F] plainD [OF assms(1)]
    by (simp add: GetToken_def GetToken_lvl_def Let_def)
qed

section \<open>Several separators\<close>

lemma MultiSep_try_other:
  assumes "x \<noteq> CHR 0x5C" "\<not> is_quote x" "\<forall>d \<in> set ds. d \<noteq> CHR 0x5C \<and> d \<noteq> x"
  shows "MultiSep_try (map (\<lambda>d. [d]) ds) (x # xs) en Fl = (False, x # xs, en, Fl)"
  using assms(3)
proof (induction ds)
  case (Cons d ds)
  then have "x \<noteq> d" "d \<noteq> CHR 0x5C" by auto
  then have "GetTokenSepMatch [d] (x # xs) en Fl = (False, x # xs, en, Fl)" using assms(1,2) by (intro SepMatch_other)
  with Cons show ?case by simp
qed simp

lemma MultiSep_none:
  "plain s \<Longrightarrow> \<forall>d \<in> set ds. d \<noteq> CHR 0x5C \<and> d \<notin> set s \<Longrightarrow> MultiSep_loop (map (\<lambda>d. [d]) ds) s en Fl = (None, None, Fl)"
proof (induction s)
  case Nil
  show ?case by (subst MultiSep_loop.simps) simp
next
  case (Cons x xs)
  then have x: "x \<noteq> CHR 0x5C" "\<not> is_quote x" by (auto simp: plain_char_def)
  have "MultiSep_loop (map (\<lambda>d. [d]) ds) (x # xs) en Fl = MultiSep_loop (map (\<lambda>d. [d]) ds) xs en Fl"
    using MultiSep_try_other [OF x, of ds xs en Fl] Cons.prems(2) StepThru_plain [OF x, of xs Fl]
    by (subst MultiSep_loop.simps) simp
  with Cons show ?case by simp
qed

lemma GetToken_plain_multi:
  assumes "plain s" "s \<noteq> []" "BuildMultiSeparators sep = map (\<lambda>d. [d]) ds" "1 < length sep"
    "\<forall>d \<in> set ds. d \<noteq> CHR 0x5C \<and> d \<notin> set s"
  shows "GetToken (Some s) (Some sep) GETTOKEN_MULTI_SEP = Some (Some [], s)"
proof -
  have "sep \<noteq> []" using assms(4) by auto
  then show ?thesis using assms MultiSep_none [OF assms(1,5), of None GETTOKEN_MULTI_SEP]
    by (auto simp: GetToken_def GetToken_lvl_def Let_def GetTokenPostProcess_def flag_simps)
qed

section \<open>White space as separator\<close>

text \<open>The separator \<open>\S\<close>: a run of white space.\<close>

definition backslash_S :: string where "backslash_S = [CHR 0x5C, CHR ''S'']"

lemma SepMatch_pattern_S: "SepMatch_pattern backslash_S MT = (''S'', Some CHR ''S'', TOK_SPACE)"
  by (simp add: SepMatch_pattern_def backslash_S_def)

lemma S_other:
  assumes "plain_char x"
  shows "GetTokenSepMatch backslash_S (x # xs) None Fl = (False, x # xs, None, Fl)"
proof -
  have "x \<noteq> CHR 0x5C" "\<not> is_quote x" "\<not> (x = CHR '' '' \<or> x = CHR 0x09 \<or> x = CHR 0x0A \<or> x = CHR 0x0D)"
    using assms by (auto simp: plain_char_def isspace_def)
  moreover have "x \<in> set ''()=!<>'' \<Longrightarrow> Some CHR ''S'' \<noteq> Some x" by auto
  ultimately have "SepMatch_char (Some CHR ''S'') TOK_SPACE x es start Fl = Inl (start, Fl)" for es start
    by (auto simp: SepMatch_char_def)
  then show ?thesis
    by (simp add: GetTokenSepMatch_def SepMatch_loop.simps [of backslash_S] SepMatch_pattern_S) (simp add: backslash_S_def)
qed

lemma S_hit: "GetTokenSepMatch backslash_S (CHR '' '' # xs) None Fl = (True, CHR '' '' # xs, Some (dropWhile isspace xs), Fl)"
proof -
  have "SepMatch_char (Some CHR ''S'') TOK_SPACE CHR '' '' xs start Fl = Inr (dropWhile isspace xs, TOK_NONE)" for start
    by (simp add: SepMatch_char_def)
  then show ?thesis
    by (simp add: GetTokenSepMatch_def SepMatch_loop.simps [of backslash_S] SepMatch_pattern_S SepMatch_loop.simps [of "[]"] ptr_incr_def)
      (simp add: backslash_S_def)
qed

lemma FindSep_word:
  "plain s \<Longrightarrow> FindSep_loop backslash_S (s @ CHR '' '' # r) None Fl = (CHR '' '' # r, dropWhile isspace r, Fl)"
proof (induction s)
  case Nil
  show ?case using FindSep_step(2) [OF _ S_hit] by simp
next
  case (Cons x xs)
  then have x: "plain_char x" "x \<noteq> CHR 0x5C" "\<not> is_quote x" by (simp_all add: plain_char_def)
  with Cons show ?case
    using FindSep_step(1) [OF x(2) S_other [OF x(1)], of "xs @ CHR '' '' # r" Fl] StepThru_plain [OF x(2,3), of "xs @ CHR '' '' # r" Fl]
    by simp
qed

lemma FindSep_last: "plain s \<Longrightarrow> FindSep_loop backslash_S s None Fl = ([], [], Fl)"
proof (induction s)
  case Nil
  show ?case by (subst FindSep_loop.simps) simp
next
  case (Cons x xs)
  then have x: "plain_char x" "x \<noteq> CHR 0x5C" "\<not> is_quote x" by (simp_all add: plain_char_def)
  with Cons show ?case
    using FindSep_step(1) [OF x(2) S_other [OF x(1)], of xs Fl] StepThru_plain [OF x(2,3), of xs Fl] by simp
qed

lemma GetToken_word:
  assumes "plain s" "s \<noteq> []"
  shows "GetToken (Some (s @ CHR '' '' # r)) (Some backslash_S) 0 = Some (Some (dropWhile isspace r), s)"
proof -
  have "length backslash_S = 2" "backslash_S \<noteq> []" by (simp_all add: backslash_S_def)
  then show ?thesis
    using FindSep_word [OF assms(1)] PostProcess_plain [of "s @ CHR '' '' # r" "CHR '' '' # r" 0 0] assms plainD [OF assms(1)]
    by (simp add: GetToken_def GetToken_lvl_def Let_def has_flag_def suffix_def)
qed

lemma GetToken_last_word:
  assumes "plain s" "s \<noteq> []"
  shows "GetToken (Some s) (Some backslash_S) 0 = Some (Some [], s)"
proof -
  have "length backslash_S = 2" "backslash_S \<noteq> []" by (simp_all add: backslash_S_def)
  then show ?thesis
    using FindSep_last [OF assms(1)] PostProcess_plain [of s "[]" 0 0] assms plainD [OF assms(1)]
    by (simp add: GetToken_def GetToken_lvl_def Let_def has_flag_def)
qed

text \<open>The words of a line, one space between two of them.\<close>

abbreviation word :: "string \<Rightarrow> bool" where
  "word s \<equiv> s \<noteq> [] \<and> plain s"

fun unwords :: "string list \<Rightarrow> string" where
  "unwords [] = []"
| "unwords [x] = x"
| "unwords (x # xs) = x @ CHR '' '' # unwords xs"

lemma unwords_no_space: "list_all word ws \<Longrightarrow> dropWhile isspace (unwords ws) = unwords ws"
proof (cases ws rule: unwords.cases)
  case (2 x)
  then show "list_all word ws \<Longrightarrow> ?thesis" by (cases x) (simp_all add: plain_char_def)
next
  case (3 x y xs)
  then show "list_all word ws \<Longrightarrow> ?thesis" by (cases x) (simp_all add: plain_char_def)
qed simp

lemma unwords_Nil: "list_all word ws \<Longrightarrow> unwords ws = [] \<longleftrightarrow> ws = []"
  by (cases ws rule: unwords.cases) auto

text \<open>One call of \<open>GetToken\<close> takes one word, and \<open>NULL\<close> follows an empty rest.\<close>

lemma GetToken_unwords:
  assumes "list_all word ws"
  shows "GetToken (Some (unwords ws)) (Some backslash_S) 0
    = (case ws of [] \<Rightarrow> Some (None, []) | w # r \<Rightarrow> Some (Some (unwords r), w))"
proof (cases ws rule: unwords.cases)
  case 1
  then show ?thesis by (simp add: GetToken_def GetToken_lvl_def)
next
  case (2 x)
  with assms GetToken_last_word [of x] show ?thesis by simp
next
  case (3 x y xs)
  with assms GetToken_word [of x "unwords (y # xs)"] unwords_no_space [of "y # xs"] show ?thesis by simp
qed

text \<open>\<open>n\<close> calls of \<open>GetToken(ptr, "\S", &Token, 0)\<close> in a row.\<close>

primrec skip_tokens :: "nat \<Rightarrow> cstr \<Rightarrow> string \<Rightarrow> (cstr \<times> string) option" where
  "skip_tokens 0 ptr Token = Some (ptr, Token)"
| "skip_tokens (Suc n) ptr Token = do { (p, t) \<leftarrow> GetToken ptr (Some backslash_S) 0; skip_tokens n p t }"

lemma GetToken_null: "GetToken None (Some backslash_S) 0 = Some (None, [])"
  by (simp add: GetToken_def GetToken_lvl_def)

lemma skip_tokens_unwords:
  "list_all word ws \<Longrightarrow> 0 < n \<Longrightarrow> n \<le> length ws \<Longrightarrow>
   skip_tokens n (Some (unwords ws)) Token = Some (Some (unwords (drop n ws)), ws ! (n - 1))"
proof (induction n arbitrary: ws Token)
  case (Suc n)
  then obtain w r where ws: "ws = w # r" by (cases ws) auto
  show ?case
  proof (cases n)
    case 0
    with Suc.prems ws GetToken_unwords [of "w # r"] show ?thesis by (simp del: unwords.simps)
  next
    case (Suc k)
    with Suc.prems ws GetToken_unwords [of "w # r"] Suc.IH [of r w] show ?thesis by (subst skip_tokens.simps) (simp del: unwords.simps skip_tokens.simps)
  qed
qed simp

end
