(* ===== verification/VpnConfig.thy ===== *)
theory VpnConfig
  imports CommandLine PlainTokens
begin

text \<open>
  The text of a saved configuration (\<open>vpn_config.c\<close>): what \<open>WriteConfig\<close> writes and how
  \<open>ReadConfig\<close> and \<open>ReadConfigLine\<close> read it back.  Opening the file, the directories and the copies of
  key files are in the theory \<open>ConfigFiles\<close>.

  \<open>home\<close> is the result of \<open>GetCurrUserHomeDir\<close>, without a trailing slash.
\<close>

section \<open>Reading\<close>

definition ReadFileConf :: "string \<Rightarrow> string \<Rightarrow> cstr" where
  "ReadFileConf home v =
     (if v = [] then Some []
      else if strneq v ''~/'' 2 then MCopyStr (Some []) [Some home, Some (drop 1 v)]
      else CopyStr (Some []) (Some v))"

definition SuFlags :: "string \<Rightarrow> cint \<Rightarrow> cint \<Rightarrow> cint \<Rightarrow> cint" where
  "SuFlags v su sudo g =
     (let g = g AND NOT (su OR sudo)
      in if v = ''none'' then g AND NOT (su OR sudo)
         else if v = ''su'' then g OR su else if v = ''sudo'' then g OR sudo else g)"

text \<open>
  The fields \<open>ReadConfigLine\<close> knows, in the order of its comparisons, each with the assignment it makes
  for a value.  The two \<open>GlobalFlags\<close> settings are below.
\<close>

definition config_fields :: "string \<Rightarrow> (string \<times> (string \<Rightarrow> TVpn \<Rightarrow> TVpn)) list" where
  "config_fields home =
     [(''Server'', \<lambda>v Vpn. Vpn\<lparr>Server := CopyStr (Server Vpn) (Some v)\<rparr>),
      (''ClientCert'', \<lambda>v Vpn. Vpn\<lparr>ClientCert := ReadFileConf home v\<rparr>),
      (''ClientKey'', \<lambda>v Vpn. Vpn\<lparr>ClientKey := ReadFileConf home v\<rparr>),
      (''VerifyCert'', \<lambda>v Vpn. Vpn\<lparr>VerifyCert := ReadFileConf home v\<rparr>),
      (''ServerCert'', \<lambda>v Vpn. Vpn\<lparr>VerifyCert := ReadFileConf home v\<rparr>),
      (''ConfFile'', \<lambda>v Vpn. Vpn\<lparr>ConfFile := ReadFileConf home v\<rparr>),
      (''UpFile'', \<lambda>v Vpn. Vpn\<lparr>UpFile := ReadFileConf home v\<rparr>),
      (''DownFile'', \<lambda>v Vpn. Vpn\<lparr>DownFile := ReadFileConf home v\<rparr>),
      (''LocalAddress'', \<lambda>v Vpn. Vpn\<lparr>LocalAddress := CopyStr (LocalAddress Vpn) (Some v)\<rparr>),
      (''AllowedIPs'', \<lambda>v Vpn. Vpn\<lparr>AllowedIPs := CommaList (AllowedIPs Vpn) (Some v)\<rparr>),
      (''RemoteDev'', \<lambda>v Vpn. Vpn\<lparr>RemoteDev := CopyStr (RemoteDev Vpn) (Some v)\<rparr>),
      (''ClientID'', \<lambda>v Vpn. Vpn\<lparr>ClientID := CopyStr (ClientID Vpn) (Some v)\<rparr>),
      (''UserName'', \<lambda>v Vpn. Vpn\<lparr>UserName := CopyStr (UserName Vpn) (Some v)\<rparr>),
      (''Password'', \<lambda>v Vpn. Vpn\<lparr>Password := CopyStr (Password Vpn) (Some v)\<rparr>),
      (''RemoteSearchPath'', \<lambda>v Vpn. Vpn\<lparr>RemoteSearchPath := CopyStr (RemoteSearchPath Vpn) (Some v)\<rparr>),
      (''DNS'', \<lambda>v Vpn. Vpn\<lparr>DNS := CopyStr (DNS Vpn) (Some v)\<rparr>),
      (''Timeout'', \<lambda>v Vpn. Vpn\<lparr>Timeout := ucast (ParseDuration (Some v))\<rparr>),
      (''Protocol'', \<lambda>v Vpn. Vpn\<lparr>Flags := Flags Vpn OR VPN_TCP\<rparr>)]"

text \<open>The body of the loop of \<open>ReadConfigLine\<close> for one name and value: every comparison is made.\<close>

definition ConfigPair :: "string \<Rightarrow> string \<Rightarrow> string \<Rightarrow> TVpn \<times> cint \<Rightarrow> TVpn \<times> cint" where
  "ConfigPair home key v st =
     (fold (\<lambda>(name, assign) Vpn. if strcaseeq key name then assign v Vpn else Vpn) (config_fields home) (fst st),
      (let g = (if strcaseeq key ''RemoteSU'' then SuFlags v FLAG_REMOTE_SU FLAG_REMOTE_SUDO (snd st) else snd st)
       in if strcaseeq key ''LocalSU'' then SuFlags v FLAG_LOCAL_SU FLAG_LOCAL_SUDO g else g))"

lemma GetNameValuePair_progress:
  "GetNameValuePair (Some s) pd nd = Some (Some p, n, v) \<Longrightarrow> length p < length s"
  by (auto simp: GetNameValuePair_def bind_eq_Some_conv split: if_splits dest!: GetToken_progress)

lemma GetNameValuePair_NULL: "GetNameValuePair None pd nd = Some (None, [], [])"
  by (simp add: GetNameValuePair_def)

function ReadConfigLine :: "string \<Rightarrow> cstr \<Rightarrow> TVpn \<times> cint \<Rightarrow> (TVpn \<times> cint) option" where
  "ReadConfigLine home line st =
     (case GetNameValuePair line (Some '' '') (Some ''='') of
        None \<Rightarrow> None
      | Some (None, key, v) \<Rightarrow> Some st
      | Some (Some p, key, v) \<Rightarrow> ReadConfigLine home (Some p) (ConfigPair home key v st))"
  by pat_completeness auto
termination
proof (relation "measure (\<lambda>(_, s, _). StrLen s)", goal_cases)
  case (2 home line st a q b p key v)
  then have g: "GetNameValuePair line (Some '' '') (Some ''='') = Some (Some p, key, v)" by simp
  then obtain s where "line = Some s" by (cases line) (auto simp: GetNameValuePair_NULL)
  then show ?case using GetNameValuePair_progress [of s _ _ p key v] g by (auto simp: StrLen_def)
qed simp

declare ReadConfigLine.simps [simp del]

fun ReadConfigLines :: "string \<Rightarrow> string list \<Rightarrow> TVpn \<times> cint \<Rightarrow> (TVpn \<times> cint) option" where
  "ReadConfigLines home [] st = Some st"
| "ReadConfigLines home (l # ls) st =
     do { st' \<leftarrow> ReadConfigLine home (Some (StripTrailingWhitespace l)) st; ReadConfigLines home ls st' }"

definition ReadConfigText :: "string \<Rightarrow> string \<Rightarrow> TVpn \<times> cint \<Rightarrow> (TVpn \<times> cint) option" where
  "ReadConfigText home text st = ReadConfigLines home (file_lines text) st"

section \<open>Writing\<close>

text \<open>Each function returns the text it sends to \<open>STREAMWriteLine\<close>, empty if it sends none.\<close>

definition SaveFilePath :: "string \<Rightarrow> cstr \<Rightarrow> string \<Rightarrow> string" where
  "SaveFilePath name Path Home =
     (if StrValid Path
      then (let Tempstr = MCopyStr None [Some name, Some ''=''];
                p = chars Path; hlen = length Home
            in if strneq p Home hlen
               then chars (MCatStr Tempstr [Some ''~/'', Some (drop hlen p), Some [CHR 0x0A]])
               else chars (MCatStr Tempstr [Path, Some [CHR 0x0A]]))
      else [])"

definition SaveField :: "string \<Rightarrow> cstr \<Rightarrow> string" where
  "SaveField name v =
     (if StrValid v then chars (MCopyStr None [Some (name @ ''=''), v, Some [CHR 0x0A]]) else [])"

definition SaveSu :: "string \<Rightarrow> cint \<Rightarrow> cint \<Rightarrow> cint \<Rightarrow> string" where
  "SaveSu name su sudo g =
     (let v = g AND (su OR sudo)
      in if v = 0 then name @ ''=none'' @ [CHR 0x0A]
         else if v = su then name @ ''=su'' @ [CHR 0x0A]
         else if v = sudo then name @ ''=sudo'' @ [CHR 0x0A] else [])"

text \<open>
  The format of the timeout has no newline; the arguments after \<open>Vpn->Timeout\<close> in the source are
  ignored by \<open>FormatStr\<close>.
\<close>

definition WriteConfigTexts :: "string \<Rightarrow> TVpn \<Rightarrow> cint \<Rightarrow> string list" where
  "WriteConfigTexts home Vpn g =
     (let Home = chars (MCopyStr None [Some home, Some ''/''])
      in [chars (MCopyStr None [Some ''Server='', Server Vpn, Some [CHR 0x0A]]),
          SaveFilePath ''ClientCert'' (ClientCert Vpn) Home,
          SaveFilePath ''ClientKey'' (ClientKey Vpn) Home,
          SaveFilePath ''VerifyCert'' (VerifyCert Vpn) Home,
          SaveFilePath ''ConfFile'' (ConfFile Vpn) Home,
          SaveFilePath ''UpFile'' (UpFile Vpn) Home,
          SaveFilePath ''DownFile'' (DownFile Vpn) Home,
          SaveField ''LocalAddress'' (LocalAddress Vpn),
          SaveField ''AllowedIPs'' (AllowedIPs Vpn),
          SaveField ''RemoteDev'' (RemoteDev Vpn),
          SaveField ''DNS'' (DNS Vpn),
          SaveField ''ClientID'' (ClientID Vpn),
          SaveField ''UserName'' (UserName Vpn),
          SaveField ''Password'' (Password Vpn),
          SaveField ''RemoteSearchPath'' (RemoteSearchPath Vpn),
          (if Timeout Vpn > 0 then ''Timeout='' @ fmt_int (uint (Timeout Vpn)) else []),
          (if has_flag (Flags Vpn) VPN_TCP then ''Protocol=tcp'' @ [CHR 0x0A] else []),
          SaveSu ''LocalSU'' FLAG_LOCAL_SU FLAG_LOCAL_SUDO g,
          SaveSu ''RemoteSU'' FLAG_REMOTE_SU FLAG_REMOTE_SUDO g])"

definition WriteConfigText :: "string \<Rightarrow> TVpn \<Rightarrow> cint \<Rightarrow> string" where
  "WriteConfigText home Vpn g = concat (WriteConfigTexts home Vpn g)"

section \<open>Reading one written line\<close>

lemma GetNameValuePair_plain:
  assumes "plain k" "k \<noteq> []" "CHR ''='' \<notin> set k" "plain v"
  shows "GetNameValuePair (Some (k @ CHR ''='' # v)) (Some '' '') (Some ''='') = Some (Some [], k, v)"
proof -
  have "plain (k @ CHR ''='' # v)" using assms by (auto simp: plain_char_def isspace_def)
  moreover have "CHR '' '' \<notin> set (k @ CHR ''='' # v)" using assms by (auto simp: plain_char_def isspace_def)
  ultimately have "GetToken (Some (k @ CHR ''='' # v)) (Some '' '') GETTOKEN_HONOR_QUOTES
      = Some (Some [], k @ CHR ''='' # v)"
    by (intro GetToken_plain_none) auto
  moreover have "GetToken (Some (k @ CHR ''='' # v)) (Some ''='') GETTOKEN_QUOTES = Some (Some v, k)"
    using assms by (intro GetToken_plain_first) auto
  moreover have "StripQuotes v = v"
    using StripQuotes_plain [of v] plain_ends [OF assms(4)] by (auto simp: plain_char_def)
  ultimately show ?thesis by (simp add: GetNameValuePair_def)
qed

lemma ReadConfigLine_plain:
  assumes "plain k" "k \<noteq> []" "CHR ''='' \<notin> set k" "plain v"
  shows "ReadConfigLine home (Some (k @ CHR ''='' # v)) st = Some (ConfigPair home k v st)"
proof -
  have "GetNameValuePair (Some []) (Some '' '') (Some ''='') = Some (None, [], [])"
    by (simp add: GetNameValuePair_def)
  then have "ReadConfigLine home (Some []) st' = Some st'" for st'
    by (simp add: ReadConfigLine.simps)
  then show ?thesis
    by (subst ReadConfigLine.simps) (simp add: GetNameValuePair_plain [OF assms])
qed

section \<open>The whole file read back\<close>

lemma lower_keys:
  "map tolower ''Server'' = ''server''" "map tolower ''ClientCert'' = ''clientcert''"
  "map tolower ''ClientKey'' = ''clientkey''" "map tolower ''VerifyCert'' = ''verifycert''"
  "map tolower ''ServerCert'' = ''servercert''" "map tolower ''ConfFile'' = ''conffile''"
  "map tolower ''UpFile'' = ''upfile''" "map tolower ''DownFile'' = ''downfile''"
  "map tolower ''LocalAddress'' = ''localaddress''" "map tolower ''AllowedIPs'' = ''allowedips''"
  "map tolower ''RemoteDev'' = ''remotedev''" "map tolower ''ClientID'' = ''clientid''"
  "map tolower ''UserName'' = ''username''" "map tolower ''Password'' = ''password''"
  "map tolower ''RemoteSearchPath'' = ''remotesearchpath''" "map tolower ''DNS'' = ''dns''"
  "map tolower ''Timeout'' = ''timeout''" "map tolower ''Protocol'' = ''protocol''"
  "map tolower ''RemoteSU'' = ''remotesu''" "map tolower ''LocalSU'' = ''localsu''"
  by code_simp+

text \<open>What one line does to the context.\<close>

lemma ConfigPair_keys:
  "ConfigPair home ''Server'' v (V, g) = (V\<lparr>Server := Some v\<rparr>, g)"
  "ConfigPair home ''ClientCert'' v (V, g) = (V\<lparr>ClientCert := ReadFileConf home v\<rparr>, g)"
  "ConfigPair home ''ClientKey'' v (V, g) = (V\<lparr>ClientKey := ReadFileConf home v\<rparr>, g)"
  "ConfigPair home ''VerifyCert'' v (V, g) = (V\<lparr>VerifyCert := ReadFileConf home v\<rparr>, g)"
  "ConfigPair home ''ConfFile'' v (V, g) = (V\<lparr>ConfFile := ReadFileConf home v\<rparr>, g)"
  "ConfigPair home ''UpFile'' v (V, g) = (V\<lparr>UpFile := ReadFileConf home v\<rparr>, g)"
  "ConfigPair home ''DownFile'' v (V, g) = (V\<lparr>DownFile := ReadFileConf home v\<rparr>, g)"
  "ConfigPair home ''LocalAddress'' v (V, g) = (V\<lparr>LocalAddress := Some v\<rparr>, g)"
  "ConfigPair home ''AllowedIPs'' v (V, g) = (V\<lparr>AllowedIPs := CommaList (AllowedIPs V) (Some v)\<rparr>, g)"
  "ConfigPair home ''RemoteDev'' v (V, g) = (V\<lparr>RemoteDev := Some v\<rparr>, g)"
  "ConfigPair home ''DNS'' v (V, g) = (V\<lparr>DNS := Some v\<rparr>, g)"
  "ConfigPair home ''ClientID'' v (V, g) = (V\<lparr>ClientID := Some v\<rparr>, g)"
  "ConfigPair home ''UserName'' v (V, g) = (V\<lparr>UserName := Some v\<rparr>, g)"
  "ConfigPair home ''Password'' v (V, g) = (V\<lparr>Password := Some v\<rparr>, g)"
  "ConfigPair home ''RemoteSearchPath'' v (V, g) = (V\<lparr>RemoteSearchPath := Some v\<rparr>, g)"
  "ConfigPair home ''Timeout'' v (V, g) = (V\<lparr>Timeout := ucast (ParseDuration (Some v))\<rparr>, g)"
  "ConfigPair home ''Protocol'' v (V, g) = (V\<lparr>Flags := Flags V OR VPN_TCP\<rparr>, g)"
  "ConfigPair home ''LocalSU'' v (V, g) = (V, SuFlags v FLAG_LOCAL_SU FLAG_LOCAL_SUDO g)"
  "ConfigPair home ''RemoteSU'' v (V, g) = (V, SuFlags v FLAG_REMOTE_SU FLAG_REMOTE_SUDO g)"
  by (simp_all only: ConfigPair_def config_fields_def fold_simps prod.case strcaseeq_def lower_keys list.inject
      char.inject simp_thms if_False if_True fst_conv snd_conv list.distinct Let_def CopyStr_eq chars_simps)

lemma plain_keys:
  "plain ''Server''" "plain ''ClientCert''" "plain ''ClientKey''" "plain ''VerifyCert''" "plain ''ConfFile''"
  "plain ''UpFile''" "plain ''DownFile''" "plain ''LocalAddress''" "plain ''AllowedIPs''" "plain ''RemoteDev''"
  "plain ''DNS''" "plain ''ClientID''" "plain ''UserName''" "plain ''Password''" "plain ''RemoteSearchPath''"
  "plain ''Timeout''" "plain ''Protocol''" "plain ''LocalSU''" "plain ''RemoteSU''"
  by (simp_all add: plain_char_def isspace_def)

lemma plain_newline: "plain s \<Longrightarrow> CHR 0x0A \<notin> set s"
  by (auto simp: plain_char_def isspace_def)

lemma strip_plain_line: "plain s \<Longrightarrow> StripTrailingWhitespace (s @ [CHR 0x0A]) = s"
  using plain_ends [of s] StripTrailing_id [of s] StripTrailing_snoc_space [of "CHR 0x0A" s]
  by (auto simp: isspace_def plain_char_def)

lemma ReadConfigText_line:
  assumes "plain k" "k \<noteq> []" "CHR ''='' \<notin> set k" "plain v"
  shows "ReadConfigText home (k @ CHR ''='' # v @ CHR 0x0A # r) st = ReadConfigText home r (ConfigPair home k v st)"
proof -
  let ?l = "k @ CHR ''='' # v"
  have p: "plain ?l" using assms by (auto simp: plain_char_def isspace_def)
  have "file_lines (?l @ CHR 0x0A # r) = (?l @ [CHR 0x0A]) # file_lines r"
    using p by (intro file_lines_line plain_newline)
  then show ?thesis
    using ReadConfigLine_plain [OF assms, of home st] strip_plain_line [OF p]
    by (simp add: ReadConfigText_def)
qed

lemma ReadConfigText_SaveField:
  assumes "plain k" "k \<noteq> []" "CHR ''='' \<notin> set k" "plain (chars f)"
  shows "ReadConfigText home (SaveField k f @ r) st
       = ReadConfigText home r (if StrValid f then ConfigPair home k (chars f) st else st)"
  using ReadConfigText_line [OF assms, of home r st]
  by (cases f) (simp_all add: SaveField_def MCopyStr_eq)

lemma ReadConfigText_SaveSu:
  assumes "plain k" "k \<noteq> []" "CHR ''='' \<notin> set k"
  shows "ReadConfigText home (SaveSu k su sudo g @ r) st
       = ReadConfigText home r
           (let v = g AND (su OR sudo)
            in if v = 0 then ConfigPair home k ''none'' st else if v = su then ConfigPair home k ''su'' st
               else if v = sudo then ConfigPair home k ''sudo'' st else st)"
proof -
  have "plain ''none''" "plain ''su''" "plain ''sudo''" by (simp_all add: plain_char_def isspace_def)
  from this [THEN ReadConfigText_line [OF assms, of _ home r st]]
  show ?thesis by (simp add: SaveSu_def Let_def)
qed

text \<open>A file below the home directory is saved with \<open>~/\<close> and comes back as it was.\<close>

lemma ReadConfigText_SaveFilePath:
  assumes "plain k" "k \<noteq> []" "CHR ''='' \<notin> set k" "plain (chars f)" "\<not> strneq (chars f) ''~/'' 2"
    and upd: "\<And>v st. ConfigPair home k v st = upd (ReadFileConf home v) st"
  shows "ReadConfigText home (SaveFilePath k f (home @ ''/'') @ r) st
       = ReadConfigText home r (if StrValid f then upd f st else st)"
proof (cases "StrValid f")
  case False
  then show ?thesis by (simp add: SaveFilePath_def)
next
  case True
  then obtain p where f: "f = Some p" "p \<noteq> []" by (cases f) auto
  show ?thesis
  proof (cases "strneq p (home @ ''/'') (length (home @ ''/''))")
    case True
    then obtain q where q: "p = home @ CHR ''/'' # q" by (auto simp: strneq_prefix)
    with assms(4) f have "plain (''~/'' @ q)" by (auto simp: plain_char_def isspace_def)
    moreover have "ReadFileConf home (''~/'' @ q) = Some p"
      by (simp add: ReadFileConf_def strneq_def MCopyStr_eq q)
    moreover have "SaveFilePath k f (home @ ''/'') @ r = k @ CHR ''='' # (''~/'' @ q) @ CHR 0x0A # r"
      using f True q by (simp add: SaveFilePath_def MCopyStr_eq MCatStr_eq)
    ultimately show ?thesis
      using ReadConfigText_line [OF assms(1-3), of "''~/'' @ q" home r st] f by (simp only: upd) simp
  next
    case False
    then have "SaveFilePath k f (home @ ''/'') @ r = k @ CHR ''='' # p @ CHR 0x0A # r"
      using f by (simp add: SaveFilePath_def MCopyStr_eq MCatStr_eq)
    moreover have "ReadFileConf home p = Some p" using f assms(5) by (simp add: ReadFileConf_def)
    ultimately show ?thesis
      using ReadConfigText_line [OF assms(1-3), of p home r st] f assms(4) by (simp add: upd)
  qed
qed

section \<open>Properties\<close>

text \<open>The specification of a saved and restored context: \<open>V\<close> was written, \<open>V0\<close> is the fresh one.\<close>

definition restored_field :: "cstr \<Rightarrow> cstr \<Rightarrow> cstr" where
  "restored_field saved fresh = (if StrValid saved then saved else fresh)"

definition restored :: "TVpn \<Rightarrow> TVpn \<Rightarrow> TVpn" where
  "restored V V0 = V0\<lparr>Server := Server V,
     ClientCert := restored_field (ClientCert V) (ClientCert V0),
     ClientKey := restored_field (ClientKey V) (ClientKey V0),
     VerifyCert := restored_field (VerifyCert V) (VerifyCert V0),
     ConfFile := restored_field (ConfFile V) (ConfFile V0),
     UpFile := restored_field (UpFile V) (UpFile V0),
     DownFile := restored_field (DownFile V) (DownFile V0),
     LocalAddress := restored_field (LocalAddress V) (LocalAddress V0),
     AllowedIPs := restored_field (AllowedIPs V) (AllowedIPs V0),
     RemoteDev := restored_field (RemoteDev V) (RemoteDev V0),
     DNS := restored_field (DNS V) (DNS V0),
     ClientID := restored_field (ClientID V) (ClientID V0),
     UserName := restored_field (UserName V) (UserName V0),
     Password := restored_field (Password V) (Password V0),
     RemoteSearchPath := restored_field (RemoteSearchPath V) (RemoteSearchPath V0),
     Flags := (if has_flag (Flags V) VPN_TCP then Flags V0 OR VPN_TCP else Flags V0)\<rparr>"

text \<open>The \<open>su\<close> and \<open>sudo\<close> bits: nothing is saved while both are set.\<close>

definition restored_su :: "cint \<Rightarrow> cint \<Rightarrow> cint \<Rightarrow> cint \<Rightarrow> cint" where
  "restored_su su sudo saved fresh =
     (let v = saved AND (su OR sudo)
      in if v = su OR sudo then fresh else (fresh AND NOT (su OR sudo)) OR v)"

definition saved_plain :: "TVpn \<Rightarrow> bool" where
  "saved_plain V \<longleftrightarrow> Server V \<noteq> None \<and>
     (\<forall>f \<in> {Server V, LocalAddress V, AllowedIPs V, RemoteDev V, DNS V, ClientID V, UserName V, Password V,
             RemoteSearchPath V}. plain (chars f)) \<and>
     (\<forall>f \<in> {ClientCert V, ClientKey V, VerifyCert V, ConfFile V, UpFile V, DownFile V}.
        plain (chars f) \<and> \<not> strneq (chars f) ''~/'' 2)"

lemma su_cases:
  fixes g :: cint
  assumes "su = 2 ^ i" "sudo = 2 ^ j" "i \<noteq> j" "i < 32" "j < 32"
  shows "g AND (su OR sudo) \<in> {0, su, sudo, su OR sudo}" "su \<noteq> 0" "sudo \<noteq> 0" "su \<noteq> sudo" "su OR sudo \<noteq> su" "su OR sudo \<noteq> sudo"
    "su OR sudo \<noteq> 0"
proof -
  have b: "bit su n \<longleftrightarrow> n = i" "bit sudo n \<longleftrightarrow> n = j" for n
    using assms by (auto simp: bit_exp_iff)
  have "g AND (su OR sudo) = (if bit g i then su else 0) OR (if bit g j then sudo else 0)"
    by (rule bit_eqI) (auto simp: bit_and_iff bit_or_iff b)
  then show "g AND (su OR sudo) \<in> {0, su, sudo, su OR sudo}" by simp
  show "su \<noteq> 0" "sudo \<noteq> 0" "su \<noteq> sudo" "su OR sudo \<noteq> su" "su OR sudo \<noteq> sudo" "su OR sudo \<noteq> 0"
    using assms(3) by (auto dest!: arg_cong [where f = "\<lambda>w. (bit w i, bit w j)"] simp: b bit_or_iff)
qed

lemma SuFlags_words:
  "SuFlags ''none'' su sudo g = g AND NOT (su OR sudo)"
  "SuFlags ''su'' su sudo g = (g AND NOT (su OR sudo)) OR su"
  "SuFlags ''sudo'' su sudo g = (g AND NOT (su OR sudo)) OR sudo"
  by (simp_all add: SuFlags_def Let_def and.assoc)

lemma ReadConfigText_LocalSU:
  "ReadConfigText home (SaveSu ''LocalSU'' FLAG_LOCAL_SU FLAG_LOCAL_SUDO g @ r) (V, h)
   = ReadConfigText home r (V, restored_su FLAG_LOCAL_SU FLAG_LOCAL_SUDO g h)"
proof -
  have s: "FLAG_LOCAL_SU = 2 ^ 1" "FLAG_LOCAL_SUDO = 2 ^ 2"
    by (simp_all add: FLAG_LOCAL_SU_def FLAG_LOCAL_SUDO_def)
  have c: "CHR ''='' \<notin> set ''LocalSU''" by simp
  show ?thesis
    using su_cases(1) [OF s, of g] su_cases(2-7) [OF s]
    by (simp add: ReadConfigText_SaveSu [OF plain_keys(18) _ c] ConfigPair_keys SuFlags_words restored_su_def Let_def)
      (elim disjE; simp)
qed

lemma ReadConfigText_RemoteSU:
  "ReadConfigText home (SaveSu ''RemoteSU'' FLAG_REMOTE_SU FLAG_REMOTE_SUDO g @ r) (V, h)
   = ReadConfigText home r (V, restored_su FLAG_REMOTE_SU FLAG_REMOTE_SUDO g h)"
proof -
  have s: "FLAG_REMOTE_SU = 2 ^ 3" "FLAG_REMOTE_SUDO = 2 ^ 4"
    by (simp_all add: FLAG_REMOTE_SU_def FLAG_REMOTE_SUDO_def)
  have c: "CHR ''='' \<notin> set ''RemoteSU''" by simp
  show ?thesis
    using su_cases(1) [OF s, of g] su_cases(2-7) [OF s]
    by (simp add: ReadConfigText_SaveSu [OF plain_keys(19) _ c] ConfigPair_keys SuFlags_words restored_su_def Let_def)
      (elim disjE; simp)
qed

lemma ReadConfigText_end [simp]: "ReadConfigText home [] st = Some st"
  by (simp add: ReadConfigText_def)

lemma read_back_fields:
  assumes "plain (chars f)"
  shows
    "ReadConfigText home (SaveField ''LocalAddress'' f @ r) (V, h) = ReadConfigText home r (V\<lparr>LocalAddress := restored_field f (LocalAddress V)\<rparr>, h)"
    "ReadConfigText home (SaveField ''RemoteDev'' f @ r) (V, h) = ReadConfigText home r (V\<lparr>RemoteDev := restored_field f (RemoteDev V)\<rparr>, h)"
    "ReadConfigText home (SaveField ''DNS'' f @ r) (V, h) = ReadConfigText home r (V\<lparr>DNS := restored_field f (DNS V)\<rparr>, h)"
    "ReadConfigText home (SaveField ''ClientID'' f @ r) (V, h) = ReadConfigText home r (V\<lparr>ClientID := restored_field f (ClientID V)\<rparr>, h)"
    "ReadConfigText home (SaveField ''UserName'' f @ r) (V, h) = ReadConfigText home r (V\<lparr>UserName := restored_field f (UserName V)\<rparr>, h)"
    "ReadConfigText home (SaveField ''Password'' f @ r) (V, h) = ReadConfigText home r (V\<lparr>Password := restored_field f (Password V)\<rparr>, h)"
    "ReadConfigText home (SaveField ''RemoteSearchPath'' f @ r) (V, h) = ReadConfigText home r (V\<lparr>RemoteSearchPath := restored_field f (RemoteSearchPath V)\<rparr>, h)"
    "\<not> StrValid (AllowedIPs V) \<Longrightarrow> ReadConfigText home (SaveField ''AllowedIPs'' f @ r) (V, h)
       = ReadConfigText home r (V\<lparr>AllowedIPs := restored_field f (AllowedIPs V)\<rparr>, h)"
  using assms
  by (cases f; simp add: ReadConfigText_SaveField plain_keys ConfigPair_keys restored_field_def CommaList_def)+

lemma read_back_files:
  assumes "plain (chars f)" "\<not> strneq (chars f) ''~/'' 2"
  shows
    "ReadConfigText home (SaveFilePath ''ClientCert'' f (home @ ''/'') @ r) (V, h) = ReadConfigText home r (V\<lparr>ClientCert := restored_field f (ClientCert V)\<rparr>, h)"
    "ReadConfigText home (SaveFilePath ''ClientKey'' f (home @ ''/'') @ r) (V, h) = ReadConfigText home r (V\<lparr>ClientKey := restored_field f (ClientKey V)\<rparr>, h)"
    "ReadConfigText home (SaveFilePath ''VerifyCert'' f (home @ ''/'') @ r) (V, h) = ReadConfigText home r (V\<lparr>VerifyCert := restored_field f (VerifyCert V)\<rparr>, h)"
    "ReadConfigText home (SaveFilePath ''ConfFile'' f (home @ ''/'') @ r) (V, h) = ReadConfigText home r (V\<lparr>ConfFile := restored_field f (ConfFile V)\<rparr>, h)"
    "ReadConfigText home (SaveFilePath ''UpFile'' f (home @ ''/'') @ r) (V, h) = ReadConfigText home r (V\<lparr>UpFile := restored_field f (UpFile V)\<rparr>, h)"
    "ReadConfigText home (SaveFilePath ''DownFile'' f (home @ ''/'') @ r) (V, h) = ReadConfigText home r (V\<lparr>DownFile := restored_field f (DownFile V)\<rparr>, h)"
  subgoal using assms
    by (subst ReadConfigText_SaveFilePath [where upd = "\<lambda>c (V, h). (V\<lparr>ClientCert := c\<rparr>, h)"])
      (auto simp: plain_keys ConfigPair_keys restored_field_def)
  subgoal using assms
    by (subst ReadConfigText_SaveFilePath [where upd = "\<lambda>c (V, h). (V\<lparr>ClientKey := c\<rparr>, h)"])
      (auto simp: plain_keys ConfigPair_keys restored_field_def)
  subgoal using assms
    by (subst ReadConfigText_SaveFilePath [where upd = "\<lambda>c (V, h). (V\<lparr>VerifyCert := c\<rparr>, h)"])
      (auto simp: plain_keys ConfigPair_keys restored_field_def)
  subgoal using assms
    by (subst ReadConfigText_SaveFilePath [where upd = "\<lambda>c (V, h). (V\<lparr>ConfFile := c\<rparr>, h)"])
      (auto simp: plain_keys ConfigPair_keys restored_field_def)
  subgoal using assms
    by (subst ReadConfigText_SaveFilePath [where upd = "\<lambda>c (V, h). (V\<lparr>UpFile := c\<rparr>, h)"])
      (auto simp: plain_keys ConfigPair_keys restored_field_def)
  subgoal using assms
    by (subst ReadConfigText_SaveFilePath [where upd = "\<lambda>c (V, h). (V\<lparr>DownFile := c\<rparr>, h)"])
      (auto simp: plain_keys ConfigPair_keys restored_field_def)
  done

lemma ReadConfigText_server:
  "plain s \<Longrightarrow> ReadConfigText home (''Server='' @ s @ CHR 0x0A # r) (V, h) = ReadConfigText home r (V\<lparr>Server := Some s\<rparr>, h)"
  using ReadConfigText_line [OF plain_keys(1), of s home r "(V, h)"] by (simp add: ConfigPair_keys)

lemma digit_plain: "isdigit c \<Longrightarrow> plain_char c"
  by (auto simp: plain_char_def isdigit_def isspace_def)

lemma timeout_line:
  assumes "g AND (FLAG_LOCAL_SU OR FLAG_LOCAL_SUDO) \<noteq> FLAG_LOCAL_SU OR FLAG_LOCAL_SUDO"
  shows "\<exists>w. plain w \<and> ''Timeout='' @ fmt_int (uint t) @ SaveSu ''LocalSU'' FLAG_LOCAL_SU FLAG_LOCAL_SUDO g
     = ''Timeout='' @ w @ [CHR 0x0A]"
proof -
  have s: "FLAG_LOCAL_SU = 2 ^ 1" "FLAG_LOCAL_SUDO = 2 ^ 2"
    by (simp_all add: FLAG_LOCAL_SU_def FLAG_LOCAL_SUDO_def)
  obtain v where v: "SaveSu ''LocalSU'' FLAG_LOCAL_SU FLAG_LOCAL_SUDO g = ''LocalSU='' @ v @ [CHR 0x0A]"
    "v \<in> {''none'', ''su'', ''sudo''}"
    using su_cases(1) [OF s, of g] su_cases(2-7) [OF s] assms by (auto simp: SaveSu_def Let_def)
  have "plain (fmt_int (uint t))"
    using nat_digits_digits digit_plain by (auto simp: fmt_int_def)
  moreover have "plain (''LocalSU='' @ v)" using v(2) by (auto simp: plain_char_def isspace_def)
  ultimately have "plain (fmt_int (uint t) @ ''LocalSU='' @ v)" by auto
  then show ?thesis using v(1) by (intro exI [of _ "fmt_int (uint t) @ ''LocalSU='' @ v"]) simp
qed

lemma ReadConfigText_WriteConfigText:
  assumes "saved_plain V" "Timeout V = 0" "\<not> StrValid (AllowedIPs V0)"
  shows "ReadConfigText home (WriteConfigText home V g) (V0, h)
       = Some (restored V V0,
               restored_su FLAG_REMOTE_SU FLAG_REMOTE_SUDO g (restored_su FLAG_LOCAL_SU FLAG_LOCAL_SUDO g h))"
proof -
  have p: "plain (chars f)" if "f \<in> {LocalAddress V, AllowedIPs V, RemoteDev V, DNS V, ClientID V, UserName V,
      Password V, RemoteSearchPath V}" for f
    using assms(1) that unfolding saved_plain_def by blast
  have q: "plain (chars f)" "\<not> strneq (chars f) ''~/'' 2"
    if "f \<in> {ClientCert V, ClientKey V, VerifyCert V, ConfFile V, UpFile V, DownFile V}" for f
    using assms(1) that unfolding saved_plain_def by blast+
  obtain s where s: "Server V = Some s" "plain s" using assms(1) by (auto simp: saved_plain_def)
  have tcp: "ReadConfigText home (''Protocol='' @ ''tcp'' @ CHR 0x0A # r) (V, h)
      = ReadConfigText home r (V\<lparr>Flags := Flags V OR VPN_TCP\<rparr>, h)" for r V h
    using ReadConfigText_line [OF plain_keys(17), of "''tcp''" home r "(V, h)"]
    by (simp add: ConfigPair_keys plain_char_def isspace_def)
  note read = read_back_files [OF q] read_back_fields(1-7) [OF p] read_back_fields(8) [OF p]
  have tail: "ReadConfigText home ((if has_flag (Flags V) VPN_TCP then ''Protocol=tcp'' @ [CHR 0x0A] else []) @ r) (X, h)
      = ReadConfigText home r (X\<lparr>Flags := (if has_flag (Flags V) VPN_TCP then Flags X OR VPN_TCP else Flags X)\<rparr>, h)"
    for X r
    using tcp [of r X h] by simp
  show ?thesis
    unfolding WriteConfigText_def WriteConfigTexts_def Let_def MCopyStr_eq s(1)
    using assms(2,3)
    by (simp add: ReadConfigText_server [OF s(2), simplified] read tail [simplified] ReadConfigText_LocalSU ReadConfigText_RemoteSU [where r = "[]", simplified]
        restored_def s(1) del: if_split)
qed

text \<open>
C36. A saved timeout destroys the setting that follows it: the line \<open>Timeout=\<close> is written without a
newline, so the \<open>LocalSU\<close> line behind it becomes part of its value and the local \<open>su\<close>/\<open>sudo\<close> bits
are not restored: they stay as they were before the file was read.
\<close>

theorem config_timeout_swallows:
  assumes "saved_plain V" "0 < Timeout V" "\<not> has_flag (Flags V) VPN_TCP" "\<not> StrValid (AllowedIPs V0)"
    and "g AND (FLAG_LOCAL_SU OR FLAG_LOCAL_SUDO) \<noteq> FLAG_LOCAL_SU OR FLAG_LOCAL_SUDO"
  shows "\<exists>X. ReadConfigText home (WriteConfigText home V g) (V0, h)
           = Some (X, restored_su FLAG_REMOTE_SU FLAG_REMOTE_SUDO g h)"
proof -
  have p: "plain (chars f)" if "f \<in> {LocalAddress V, AllowedIPs V, RemoteDev V, DNS V, ClientID V, UserName V,
      Password V, RemoteSearchPath V}" for f
    using assms(1) that unfolding saved_plain_def by blast
  have q: "plain (chars f)" "\<not> strneq (chars f) ''~/'' 2"
    if "f \<in> {ClientCert V, ClientKey V, VerifyCert V, ConfFile V, UpFile V, DownFile V}" for f
    using assms(1) that unfolding saved_plain_def by blast+
  obtain s where s: "Server V = Some s" "plain s" using assms(1) by (auto simp: saved_plain_def)
  note read = read_back_files [OF q] read_back_fields(1-7) [OF p] read_back_fields(8) [OF p]
    ReadConfigText_server [OF s(2), simplified]
  define T where "T = ''Timeout='' @ fmt_int (uint (Timeout V)) @ SaveSu ''LocalSU'' FLAG_LOCAL_SU FLAG_LOCAL_SUDO g"
  obtain w where w: "plain w" "T = ''Timeout='' @ w @ [CHR 0x0A]"
    using timeout_line [OF assms(5), of "Timeout V"] by (auto simp: T_def)
  have timeout: "ReadConfigText home (T @ r) (X, h')
      = ReadConfigText home r (X\<lparr>Timeout := ucast (ParseDuration (Some w))\<rparr>, h')" for r X h'
    using ReadConfigText_line [OF plain_keys(16) _ _ w(1), of home r "(X, h')"] by (simp add: w(2) ConfigPair_keys)
  show ?thesis
    unfolding WriteConfigText_def WriteConfigTexts_def Let_def MCopyStr_eq s(1)
    using assms(2,3,4)
    by (simp add: read timeout [unfolded T_def, simplified] ReadConfigText_RemoteSU [where r = "[]", simplified] del: if_split)
qed

theorem config_timeout_swallows_witness:
  "\<exists>X. ReadConfigText ''/home/u'' (WriteConfigText ''/home/u'' (TVpn_zero\<lparr>Server := Some ''wg:h'', Timeout := 30\<rparr>) FLAG_LOCAL_SUDO)
        (TVpn_zero, FLAG_LOCAL_SU) = Some (X, FLAG_LOCAL_SU)"
proof -
  have "saved_plain (TVpn_zero\<lparr>Server := Some ''wg:h'', Timeout := 30\<rparr>)"
    by (simp add: saved_plain_def TVpn_zero_def plain_char_def isspace_def strneq_def)
  moreover have "restored_su FLAG_REMOTE_SU FLAG_REMOTE_SUDO FLAG_LOCAL_SUDO FLAG_LOCAL_SU = FLAG_LOCAL_SU"
    "FLAG_LOCAL_SUDO AND (FLAG_LOCAL_SU OR FLAG_LOCAL_SUDO) \<noteq> FLAG_LOCAL_SU OR FLAG_LOCAL_SUDO"
    by code_simp+
  ultimately show ?thesis
    using config_timeout_swallows [of "TVpn_zero\<lparr>Server := Some ''wg:h'', Timeout := 30\<rparr>" TVpn_zero FLAG_LOCAL_SUDO
        "''/home/u''" FLAG_LOCAL_SU]
    by (simp add: TVpn_zero_def has_flag_def)
qed

end
