(* ===== verification/World.thy ===== *)
theory World
  imports VpnCtx "HOL-Library.State_Monad"
begin

text \<open>
  The process and its surroundings.  The operations of the program that do more than compute on strings
  run in the state monad over a \<open>world\<close>: the global variables of the program (\<open>common.c\<close>,
  \<open>run_command.c\<close>, \<open>ssh.c\<close>), its open streams, whether it still runs, and the trace of everything it did
  to the outside, oldest first.

  The outside (kernel, other programs, network, user) is the record \<open>system\<close>, a parameter of the
  model: what a program started now will print, whether a file can be read, what the user types.  Its
  answers may depend on everything the process did before, which is why they are functions of the trace.
  The layer of \<open>libUseful\<close> that does input and output (\<open>Stream.c\<close>, \<open>SpawnPrograms.c\<close>, \<open>Terminal.c\<close>,
  \<open>Server.c\<close>) appears as the primitives of this theory.

  A stream delivers a list of inputs: bytes, a pause (the read times out), or a signal that arrives while
  the process waits.  At the end of the list the other side has closed.
\<close>

named_theorems io_simps \<open>one step of a computation over the world\<close>

section \<open>State\<close>

datatype status = Running | Exited nat | Crashed

datatype input = Bytes string | Pause | Interrupt

record stream =
  st_buf :: string
  st_inputs :: "input list"
  st_values :: "(string \<times> string) list"
  st_items :: "(string \<times> nat option) list"

datatype event =
    Printed string
  | Termed string
  | TermReset
  | Logged cint string
  | Asked string
  | SetEnv string string
  | Opened string string "nat option"
  | Wrote nat string
  | Flushed nat
  | Closed nat
  | Killed int nat
  | Waited int
  | Polled "nat option"
  | FileOp string "string list"

record system =
  sys_uid :: nat
  sys_euid :: nat
  sys_pid :: nat
  sys_home :: string
  sys_path :: cstr
  sys_user :: cstr
  sys_hostname :: cstr
  sys_open :: "event list \<Rightarrow> string \<Rightarrow> string \<Rightarrow> ((string \<times> string) list \<times> input list) option"
  sys_access :: "event list \<Rightarrow> string \<Rightarrow> char \<Rightarrow> bool"
  sys_lstat :: "event list \<Rightarrow> string \<Rightarrow> bool option"
  sys_ifaddr :: "event list \<Rightarrow> string \<Rightarrow> cstr"
  sys_hostip :: "event list \<Rightarrow> string \<Rightarrow> cstr"
  sys_waitstatus :: "event list \<Rightarrow> int \<Rightarrow> cint"
  sys_prompt :: "event list \<Rightarrow> string \<Rightarrow> cstr"
  sys_random :: "event list \<Rightarrow> string"
  sys_isuser :: "string \<Rightarrow> bool"
  sys_select :: "event list \<Rightarrow> nat list \<Rightarrow> nat option \<times> bool"
  sys_accept :: "event list \<Rightarrow> ((string \<times> string) list \<times> input list) option"
  sys_glob :: "event list \<Rightarrow> string \<Rightarrow> string list"

record world =
  status :: status
  GlobalFlags :: cint
  Terminal :: "nat option"
  Active :: "nat option"
  FoundCommands :: "(string \<times> string) list option"
  Passwords :: "(string \<times> string) list option"
  AttemptCount :: cint
  streams :: "nat \<Rightarrow> stream option"
  next_stream :: nat
  trace :: "event list"
  sys :: system

type_synonym 'a io = "(world, 'a) state"

abbreviation ret :: "'a \<Rightarrow> 'a io" where "ret \<equiv> State_Monad.return"

section \<open>Primitives\<close>

text \<open>
  A process that has exited or crashed does nothing any more: every primitive tests it, and returns a
  default that ends the loops of the program.
\<close>

definition act :: "'a \<Rightarrow> (world \<Rightarrow> 'a \<times> world) \<Rightarrow> 'a io" where
  "act d f = State (\<lambda>w. if status w = Running then f w else (d, w))"

definition note_event :: "event \<Rightarrow> world \<Rightarrow> world" where
  "note_event e w = w\<lparr>trace := trace w @ [e]\<rparr>"

lemma act_run [io_simps]: "run_state (act d f) w = (if status w = Running then f w else (d, w))"
  by (simp add: act_def)

lemma note_event_fields [simp]:
  "status (note_event e w) = status w" "GlobalFlags (note_event e w) = GlobalFlags w"
  "Terminal (note_event e w) = Terminal w" "Active (note_event e w) = Active w"
  "FoundCommands (note_event e w) = FoundCommands w" "Passwords (note_event e w) = Passwords w"
  "AttemptCount (note_event e w) = AttemptCount w" "streams (note_event e w) = streams w"
  "next_stream (note_event e w) = next_stream w" "trace (note_event e w) = trace w @ [e]"
  "sys (note_event e w) = sys w"
  by (simp_all add: note_event_def)

lemma run_if [io_simps]: "run_state (if b then m else m') w = (if b then run_state m w else run_state m' w)"
  by simp

lemma run_case_option [io_simps]:
  "run_state (case x of None \<Rightarrow> m | Some a \<Rightarrow> f a) w = (case x of None \<Rightarrow> run_state m w | Some a \<Rightarrow> run_state (f a) w)"
  by (cases x) simp_all

lemma run_case_prod [io_simps]: "run_state (case p of (a, b) \<Rightarrow> f a b) w = (case p of (a, b) \<Rightarrow> run_state (f a b) w)"
  by (cases p) simp

lemma run_Let [io_simps]: "run_state (Let v f) w = run_state (f v) w"
  by simp

definition emit :: "event \<Rightarrow> unit io" where
  "emit e = act () (\<lambda>w. ((), note_event e w))"

definition ask :: "'a \<Rightarrow> (world \<Rightarrow> 'a) \<Rightarrow> 'a io" where
  "ask d f = act d (\<lambda>w. (f w, w))"

lemma emit_run [io_simps]: "run_state (emit e) w = ((), if status w = Running then note_event e w else w)"
  by (simp add: emit_def act_run)

lemma ask_run [io_simps]: "run_state (ask d f) w = (if status w = Running then f w else d, w)"
  by (simp add: ask_def act_run)

definition crash :: "unit io" where
  "crash = act () (\<lambda>w. ((), w\<lparr>status := Crashed\<rparr>))"

definition exit_process :: "nat \<Rightarrow> unit io" where
  "exit_process code = act () (\<lambda>w. ((), w\<lparr>status := Exited code\<rparr>))"

definition getflags :: "cint io" where "getflags = ask 0 GlobalFlags"

definition setflags :: "(cint \<Rightarrow> cint) \<Rightarrow> unit io" where
  "setflags f = act () (\<lambda>w. ((), w\<lparr>GlobalFlags := f (GlobalFlags w)\<rparr>))"

definition flag_set :: "cint \<Rightarrow> bool io" where
  "flag_set f = ask False (\<lambda>w. has_flag (GlobalFlags w) f)"

lemma flag_set_run [io_simps]:
  "run_state (flag_set f) w = (status w = Running \<and> has_flag (GlobalFlags w) f, w)"
  by (simp add: flag_set_def ask_run)

lemma getflags_run [io_simps]: "run_state getflags w = (if status w = Running then GlobalFlags w else 0, w)"
  by (simp add: getflags_def ask_run)

lemma setflags_run [io_simps]:
  "run_state (setflags f) w = ((), if status w = Running then w\<lparr>GlobalFlags := f (GlobalFlags w)\<rparr> else w)"
  by (simp add: setflags_def act_run)

text \<open>What a computation of the string layer returns; its undefined behaviour is a crash.\<close>

definition lift_option :: "'a \<Rightarrow> 'a option \<Rightarrow> 'a io" where
  "lift_option d x = (case x of None \<Rightarrow> do { crash; ret d } | Some a \<Rightarrow> ret a)"


text \<open>\<open>%s\<close> of a \<open>NULL\<close> pointer, as the C library prints it.\<close>

definition pct_s :: "cstr \<Rightarrow> string" where
  "pct_s s = (case s of None \<Rightarrow> ''(null)'' | Some t \<Rightarrow> t)"

definition printf :: "string \<Rightarrow> unit io" where "printf s = emit (Printed s)"

definition TerminalPrint :: "string \<Rightarrow> unit io" where "TerminalPrint s = emit (Termed s)"

definition getuid :: "nat io" where "getuid = ask 0 (\<lambda>w. sys_uid (sys w))"

definition GetCurrUserHomeDir :: "string io" where "GetCurrUserHomeDir = ask [] (\<lambda>w. sys_home (sys w))"

lemma printf_run [io_simps]: "run_state (printf s) w = ((), if status w = Running then note_event (Printed s) w else w)"
  by (simp add: printf_def emit_run)

lemma TerminalPrint_run [io_simps]:
  "run_state (TerminalPrint s) w = ((), if status w = Running then note_event (Termed s) w else w)"
  by (simp add: TerminalPrint_def emit_run)

lemma crash_run [io_simps]: "run_state crash w = ((), if status w = Running then w\<lparr>status := Crashed\<rparr> else w)"
  by (simp add: crash_def act_run)

lemma exit_run [io_simps]:
  "run_state (exit_process n) w = ((), if status w = Running then w\<lparr>status := Exited n\<rparr> else w)"
  by (simp add: exit_process_def act_run)

lemma getuid_run [io_simps]: "run_state getuid w = (if status w = Running then sys_uid (sys w) else 0, w)"
  by (simp add: getuid_def ask_run)

lemma lift_run [io_simps]:
  "run_state (lift_option d x) w = (case x of None \<Rightarrow> d | Some a \<Rightarrow> a,
     if x = None \<and> status w = Running then w\<lparr>status := Crashed\<rparr> else w)"
  by (cases x) (simp_all add: lift_option_def io_simps)

section \<open>Variable lists\<close>

text \<open>
  \<open>GetVar\<close> and \<open>SetVar\<close> on a plain list: names are compared without regard to case, a value is
  replaced in place, a new name goes to the end.
\<close>

fun var_lookup :: "(string \<times> string) list \<Rightarrow> string \<Rightarrow> cstr" where
  "var_lookup [] k = None"
| "var_lookup ((n, v) # vs) k = (if strcaseeq n k then Some v else var_lookup vs k)"

fun var_update :: "(string \<times> string) list \<Rightarrow> string \<Rightarrow> string \<Rightarrow> (string \<times> string) list" where
  "var_update [] k v = [(k, v)]"
| "var_update ((n, u) # vs) k v = (if strcaseeq n k then (n, v) # vs else (n, u) # var_update vs k v)"

definition GetVar :: "(string \<times> string) list option \<Rightarrow> string \<Rightarrow> string" where
  "GetVar Vars k = (case Vars of None \<Rightarrow> [] | Some vs \<Rightarrow> chars (var_lookup vs k))"

definition SetVar :: "(string \<times> string) list option \<Rightarrow> string \<Rightarrow> string \<Rightarrow> (string \<times> string) list option" where
  "SetVar Vars k v = map_option (\<lambda>vs. var_update vs k v) Vars"

lemma var_lookup_update:
  "var_lookup (var_update vs k v) j = (if strcaseeq k j then Some v else var_lookup vs j)"
proof (induction vs k v rule: var_update.induct)
  case (2 n u vs k v)
  then show ?case
    using strcaseeq_trans [of n k j] strcaseeq_trans [of k j n] strcaseeq_sym [of n k] strcaseeq_sym [of n j]
      strcaseeq_trans [of k n j] by auto
qed auto

section \<open>Signals\<close>

text \<open>
  \<open>SIGINT\<close> is the one signal with a handler: it asks the program to end and kills the active ssh
  client.  \<open>atoi(NULL)\<close>, for a stream without a peer, is undefined.
\<close>

definition stream_value :: "world \<Rightarrow> nat \<Rightarrow> string \<Rightarrow> cstr" where
  "stream_value w i k = (case streams w i of None \<Rightarrow> None | Some S \<Rightarrow> var_lookup (st_values S) k)"

definition SSHVpnTerminate :: "unit io" where
  "SSHVpnTerminate = act () (\<lambda>w.
     (case Active w of
        None \<Rightarrow> ((), w)
      | Some i \<Rightarrow>
          (case stream_value w i ''PeerPID'' of
             None \<Rightarrow> ((), w\<lparr>status := Crashed\<rparr>)
           | Some p \<Rightarrow>
               (let pid = sint (atoi p); w' = (if pid > 1 then note_event (Killed pid 9) w else w)
                in ((), w'\<lparr>Active := None\<rparr>)))))"

definition SIGINT :: nat where "SIGINT = 2"
definition SIGKILL :: nat where "SIGKILL = 9"
definition SIGTERM :: nat where "SIGTERM = 15"

definition SignalHandler :: "nat \<Rightarrow> unit io" where
  "SignalHandler signum =
     (if signum = SIGKILL \<or> signum = SIGTERM \<or> signum = SIGINT
      then do { setflags (\<lambda>g. g OR FLAG_EXIT); SSHVpnTerminate } else ret ())"

section \<open>Reading\<close>

text \<open>
  What the reading functions do with the buffer and the inputs of a stream: the result, the rest of
  both, and whether a signal arrived.  \<open>STREAMReadToTerminator\<close> goes on when the read times out or is
  interrupted, because \<open>STREAMReadCharsToBuffer\<close> does not report either; \<open>STREAMReadToMultiTerminator\<close> returns
  the partial text.  \<open>NULL\<close> means closed.  The theory \<open>StreamReads\<close> derives these functions from \<open>Stream.c\<close>.
\<close>

fun read_to_terminator :: "char \<Rightarrow> string \<Rightarrow> input list \<Rightarrow> cstr \<times> string \<times> input list \<times> bool" where
  "read_to_terminator t b [] =
     (if t \<in> set b then (Some (takeWhile (\<lambda>c. c \<noteq> t) b @ [t]), drop 1 (dropWhile (\<lambda>c. c \<noteq> t) b), [], False)
      else if b = [] then (None, [], [], False) else (Some b, [], [], False))"
| "read_to_terminator t b (i # is) =
     (if t \<in> set b then (Some (takeWhile (\<lambda>c. c \<noteq> t) b @ [t]), drop 1 (dropWhile (\<lambda>c. c \<noteq> t) b), i # is, False)
      else case i of
             Bytes d \<Rightarrow> read_to_terminator t (b @ d) is
           | Pause \<Rightarrow> read_to_terminator t b is
           | Interrupt \<Rightarrow> (case read_to_terminator t b is of (r, b', is', s) \<Rightarrow> (r, b', is', True)))"

text \<open>The characters of one chunk, zero bytes dropped; the result says whether a terminator was met.\<close>

fun take_to_any :: "string \<Rightarrow> string \<Rightarrow> string \<times> string \<times> bool" where
  "take_to_any ts [] = ([], [], False)"
| "take_to_any ts (c # cs) =
     (if c = CHR 0x00 then take_to_any ts cs
      else if c \<in> set ts then ([c], cs, True)
      else (case take_to_any ts cs of (p, r, m) \<Rightarrow> (c # p, r, m)))"

fun read_to_multi :: "string \<Rightarrow> string \<Rightarrow> string \<Rightarrow> input list \<Rightarrow> cstr \<times> string \<times> input list \<times> bool" where
  "read_to_multi ts acc b [] =
     (case take_to_any ts b of (p, r, m) \<Rightarrow>
        (if \<not> m \<and> acc @ p = [] then None else Some (acc @ p), r, [], False))"
| "read_to_multi ts acc b (i # is) =
     (case take_to_any ts b of (p, r, m) \<Rightarrow>
        if m then (Some (acc @ p), r, i # is, False)
        else (case i of
                Bytes d \<Rightarrow> read_to_multi ts (acc @ p) d is
              | Pause \<Rightarrow> (Some (acc @ p), [], is, False)
              | Interrupt \<Rightarrow> (Some (acc @ p), [], is, True)))"

text \<open>
  \<open>STREAMReadBytes\<close>: what is in the buffer, else the next bytes that arrive; \<^term>\<open>None\<close> stands for a
  result below 1 (closed, or the read timed out or was interrupted).
\<close>

fun read_bytes :: "nat \<Rightarrow> string \<Rightarrow> input list \<Rightarrow> cstr \<times> string \<times> input list \<times> bool" where
  "read_bytes n b [] = (if b = [] then (None, [], [], False) else (Some (take n b), drop n b, [], False))"
| "read_bytes n b (i # is) =
     (if b \<noteq> [] then (Some (take n b), drop n b, i # is, False)
      else case i of
             Bytes d \<Rightarrow> read_bytes n d is
           | Pause \<Rightarrow> (None, [], is, False)
           | Interrupt \<Rightarrow> (None, [], is, True))"

definition stream_read :: "(string \<Rightarrow> input list \<Rightarrow> cstr \<times> string \<times> input list \<times> bool) \<Rightarrow> nat option \<Rightarrow> cstr io" where
  "stream_read rd So =
     (case So of
        None \<Rightarrow> ret None
      | Some i \<Rightarrow> do {
          (r, sig) \<leftarrow> act (None, False) (\<lambda>w.
             case streams w i of
               None \<Rightarrow> ((None, False), w)
             | Some S \<Rightarrow> (case rd (st_buf S) (st_inputs S) of (r, b, is, sig) \<Rightarrow>
                 ((r, sig), w\<lparr>streams := (streams w)(i \<mapsto> S\<lparr>st_buf := b, st_inputs := is\<rparr>)\<rparr>)));
          (if sig then SignalHandler SIGINT else ret ());
          ret r })"

text \<open>\<open>STREAMReadLine\<close> tests for \<open>NULL\<close>, the other two follow the pointer.\<close>

definition STREAMReadLine :: "nat option \<Rightarrow> cstr io" where
  "STREAMReadLine = stream_read (read_to_terminator (CHR 0x0A))"

definition STREAMReadToMultiTerminator :: "string \<Rightarrow> nat option \<Rightarrow> cstr io" where
  "STREAMReadToMultiTerminator ts So =
     (if So = None then do { crash; ret None } else stream_read (read_to_multi ts []) So)"

definition STREAMReadBytes :: "nat \<Rightarrow> nat option \<Rightarrow> cstr io" where
  "STREAMReadBytes n So = (if So = None then do { crash; ret None } else stream_read (read_bytes n) So)"

lemma reads_Some:
  "STREAMReadToMultiTerminator ts (Some i) = stream_read (read_to_multi ts []) (Some i)"
  "STREAMReadBytes n (Some i) = stream_read (read_bytes n) (Some i)"
  by (simp_all add: STREAMReadToMultiTerminator_def STREAMReadBytes_def)

section \<open>Other stream operations\<close>

definition open_record :: "world \<Rightarrow> string \<Rightarrow> string \<Rightarrow> ((string \<times> string) list \<times> input list) option \<Rightarrow> nat option \<times> world" where
  "open_record w path config r =
     (case r of
        None \<Rightarrow> (None, note_event (Opened path config None) w)
      | Some (vs, is) \<Rightarrow>
          (let i = next_stream w
           in (Some i, note_event (Opened path config (Some i))
                (w\<lparr>streams := (streams w)(i \<mapsto> \<lparr>st_buf = [], st_inputs = is, st_values = vs, st_items = []\<rparr>),
                   next_stream := Suc i\<rparr>))))"

definition STREAMOpen :: "string \<Rightarrow> string \<Rightarrow> nat option io" where
  "STREAMOpen path config =
     act None (\<lambda>w. open_record w path config (sys_open (sys w) (trace w) path config))"

definition STREAMClose :: "nat option \<Rightarrow> unit io" where
  "STREAMClose So = (case So of None \<Rightarrow> ret ()
     | Some i \<Rightarrow> act () (\<lambda>w. ((), note_event (Closed i) (w\<lparr>streams := (streams w)(i := None)\<rparr>))))"

definition STREAMWriteBytes :: "nat option \<Rightarrow> string \<Rightarrow> unit io" where
  "STREAMWriteBytes So d = (case So of None \<Rightarrow> ret () | Some i \<Rightarrow> emit (Wrote i d))"

definition STREAMWriteLine :: "cstr \<Rightarrow> nat option \<Rightarrow> unit io" where
  "STREAMWriteLine d So = (if StrEnd d then ret () else STREAMWriteBytes So (chars d))"

definition STREAMFlush :: "nat option \<Rightarrow> unit io" where
  "STREAMFlush So = (case So of None \<Rightarrow> crash | Some i \<Rightarrow> emit (Flushed i))"

definition STREAMGetValue :: "nat option \<Rightarrow> string \<Rightarrow> cstr io" where
  "STREAMGetValue So k = (case So of None \<Rightarrow> ret None | Some i \<Rightarrow> ask None (\<lambda>w. stream_value w i k))"

definition label_stream :: "nat \<Rightarrow> (stream \<Rightarrow> stream) \<Rightarrow> unit io" where
  "label_stream i f = act () (\<lambda>w. ((), case streams w i of None \<Rightarrow> w
     | Some S \<Rightarrow> w\<lparr>streams := (streams w)(i \<mapsto> f S)\<rparr>))"

definition STREAMSetValue :: "nat option \<Rightarrow> string \<Rightarrow> string \<Rightarrow> unit io" where
  "STREAMSetValue So k v = (case So of None \<Rightarrow> ret ()
     | Some i \<Rightarrow> label_stream i (\<lambda>S. S\<lparr>st_values := var_update (st_values S) k v\<rparr>))"

text \<open>An item is a pointer; the program stores other streams, or \<open>NULL\<close>.\<close>

definition STREAMGetItem :: "nat option \<Rightarrow> string \<Rightarrow> nat option io" where
  "STREAMGetItem So k = (case So of None \<Rightarrow> ret None
     | Some i \<Rightarrow> ask None (\<lambda>w. case streams w i of None \<Rightarrow> None
         | Some S \<Rightarrow> (case map_of (st_items S) k of None \<Rightarrow> None | Some x \<Rightarrow> x)))"

definition STREAMSetItem :: "nat option \<Rightarrow> string \<Rightarrow> nat option \<Rightarrow> unit io" where
  "STREAMSetItem So k x = (case So of None \<Rightarrow> ret ()
     | Some i \<Rightarrow> label_stream i (\<lambda>S. S\<lparr>st_items := (k, x) # st_items S\<rparr>))"

section \<open>The read loops of the program\<close>

text \<open>
  The pattern \<open>Tempstr=READ(Tempstr, S); while (Tempstr) { BODY; Tempstr=READ(Tempstr, S); }\<close>, where the
  body says whether it left the loop.  Every successful read consumes something, so as many rounds as the
  stream has pending characters and inputs are enough; the fuel is computed from the stream.
\<close>

definition input_size :: "input \<Rightarrow> nat" where
  "input_size i = (case i of Bytes d \<Rightarrow> Suc (length d) | _ \<Rightarrow> 1)"

definition stream_size :: "string \<Rightarrow> input list \<Rightarrow> nat" where
  "stream_size b is = length b + sum_list (map input_size is)"

definition pending_of :: "world \<Rightarrow> nat option \<Rightarrow> nat" where
  "pending_of w So = (case So of None \<Rightarrow> 0 | Some i \<Rightarrow> (case streams w i of None \<Rightarrow> 0
     | Some S \<Rightarrow> stream_size (st_buf S) (st_inputs S)))"

primrec read_loop :: "nat \<Rightarrow> cstr io \<Rightarrow> (string \<Rightarrow> 's \<Rightarrow> ('s \<times> bool) io) \<Rightarrow> 's \<Rightarrow> 's io" where
  "read_loop 0 rd body s = do { crash; ret s }"
| "read_loop (Suc n) rd body s =
     do { r \<leftarrow> rd;
          case r of
            None \<Rightarrow> ret s
          | Some t \<Rightarrow> do { (s', stop) \<leftarrow> body t s; if stop then ret s' else read_loop n rd body s' } }"

definition while_read :: "nat option \<Rightarrow> cstr io \<Rightarrow> (string \<Rightarrow> 's \<Rightarrow> ('s \<times> bool) io) \<Rightarrow> 's \<Rightarrow> 's io" where
  "while_read So rd body s = do { n \<leftarrow> ask 0 (\<lambda>w. pending_of w So); read_loop (Suc n) rd body s }"

text \<open>Each read that returns something makes the stream smaller.\<close>

lemma takeWhile_drop_length:
  "t \<in> set b \<Longrightarrow> Suc (length (drop 1 (dropWhile (\<lambda>c. c \<noteq> t) b))) \<le> length b"
proof -
  assume "t \<in> set b"
  then have "dropWhile (\<lambda>c. c \<noteq> t) b \<noteq> []" by (auto simp: dropWhile_eq_Nil_conv)
  then have "0 < length (dropWhile (\<lambda>c. c \<noteq> t) b)" by simp
  moreover have "length (dropWhile (\<lambda>c. c \<noteq> t) b) \<le> length b" by (rule length_dropWhile_le)
  ultimately show ?thesis unfolding length_drop by linarith
qed

lemma read_to_terminator_size:
  "read_to_terminator t b is = (r, b', is', s) \<Longrightarrow>
   stream_size b' is' + (if r = None then 0 else 1) \<le> stream_size b is"
proof (induction t b "is" arbitrary: r b' is' s rule: read_to_terminator.induct)
  case (1 t b)
  then show ?case using takeWhile_drop_length [of t b]
    by (cases b) (auto simp: stream_size_def split: if_split_asm)
next
  case (2 t b i "is")
  show ?case
  proof (cases "t \<in> set b")
    case True
    with "2.prems" takeWhile_drop_length [of t b] show ?thesis by (auto simp: stream_size_def)
  next
    case False
    show ?thesis
    proof (cases i)
      case (Bytes d)
      with "2.IH"(1) [OF False Bytes, of r b' is' s] "2.prems" False show ?thesis
        by (auto simp: stream_size_def input_size_def)
    next
      case Pause
      with "2.IH"(2) [OF False Pause, of r b' is' s] "2.prems" False show ?thesis
        by (auto simp: stream_size_def input_size_def)
    next
      case Interrupt
      obtain x y z u where e: "read_to_terminator t b is = (x, y, z, u)" by (metis prod_cases4)
      with "2.IH"(3) [OF False Interrupt e] "2.prems" False Interrupt show ?thesis
        by (auto simp: stream_size_def input_size_def)
    qed
  qed
qed

lemma take_to_any_size:
  "take_to_any ts b = (p, r, m) \<Longrightarrow> length r + length p \<le> length b \<and> (m \<longrightarrow> p \<noteq> []) \<and> (\<not> m \<longrightarrow> r = [])"
proof (induction b arbitrary: p r m)
  case (Cons c cs)
  obtain x y z where e: "take_to_any ts cs = (x, y, z)" by (metis prod_cases3)
  with Cons.IH [OF e] Cons.prems show ?case by (auto split: if_split_asm)
qed simp

lemma read_to_multi_size:
  "read_to_multi ts acc b is = (r, b', is', s) \<Longrightarrow>
   stream_size b' is' + (if r = None then 0 else 1) \<le> length acc + stream_size b is"
proof (induction ts acc b "is" arbitrary: r b' is' s rule: read_to_multi.induct)
  case (1 ts acc b)
  obtain x y z where e: "take_to_any ts b = (x, y, z)" by (metis prod_cases3)
  with "1.prems" take_to_any_size [OF e] show ?case
    by (cases acc; cases x) (auto simp: stream_size_def split: if_split_asm)
next
  case (2 ts acc b i "is")
  obtain x y z where e: "take_to_any ts b = (x, y, z)" by (metis prod_cases3)
  note sz = take_to_any_size [OF e]
  show ?case
  proof (cases z)
    case True
    with "2.prems" e sz show ?thesis by (cases x) (auto simp: stream_size_def)
  next
    case False
    show ?thesis
    proof (cases i)
      case (Bytes d)
      with "2.IH"(1) [OF e [symmetric] refl False Bytes, of r b' is' s] "2.prems" False e sz show ?thesis
        by (auto simp: stream_size_def input_size_def)
    next
      case Pause
      with "2.prems" False e sz show ?thesis by (auto simp: stream_size_def input_size_def)
    next
      case Interrupt
      with "2.prems" False e sz show ?thesis
        by (auto simp: stream_size_def input_size_def)
    qed
  qed
qed

text \<open>The least every reader guarantees: it never makes a stream larger.\<close>

definition reader :: "(string \<Rightarrow> input list \<Rightarrow> cstr \<times> string \<times> input list \<times> bool) \<Rightarrow> bool" where
  "reader rd \<longleftrightarrow> (\<forall>b is r b' is' s. rd b is = (r, b', is', s) \<longrightarrow> stream_size b' is' \<le> stream_size b is)"

lemma read_bytes_le: "read_bytes n b is = (r, b', is', s) \<Longrightarrow> stream_size b' is' \<le> stream_size b is"
proof (induction n b "is" arbitrary: r b' is' s rule: read_bytes.induct)
  case (1 n b)
  then show ?case by (auto simp: stream_size_def split: if_split_asm)
next
  case (2 n b i "is")
  then show ?case
    by (cases i; cases "b = []") (fastforce simp: stream_size_def input_size_def split: prod.splits)+
qed

lemma readers: "reader (read_to_terminator t)" "reader (read_to_multi ts [])" "reader (read_bytes n)"
  unfolding reader_def
  using read_to_terminator_size read_to_multi_size [where acc = "[]"] read_bytes_le by fastforce+

section \<open>Frames\<close>

text \<open>\<open>keeps P m\<close>: the operation preserves the property of the world.\<close>

definition keeps :: "(world \<Rightarrow> bool) \<Rightarrow> 'a io \<Rightarrow> bool" where
  "keeps P m \<longleftrightarrow> (\<forall>w. P w \<longrightarrow> P (snd (run_state m w)))"

lemma keeps_ret [intro!]: "keeps P (ret x)"
  by (simp add: keeps_def)

lemma keeps_bind [intro!]:
  assumes "keeps P m" "\<And>x. keeps P (f x)"
  shows "keeps P (State_Monad.bind m f)"
  using assms unfolding keeps_def by (auto split: prod.split)

lemma keeps_if [intro!]: "(b \<Longrightarrow> keeps P m) \<Longrightarrow> (\<not> b \<Longrightarrow> keeps P m') \<Longrightarrow> keeps P (if b then m else m')"
  by simp

lemma keeps_case_option [intro!]:
  "keeps P m \<Longrightarrow> (\<And>x. keeps P (f x)) \<Longrightarrow> keeps P (case o1 of None \<Rightarrow> m | Some x \<Rightarrow> f x)"
  by (cases o1) simp_all

lemma keeps_case_prod [intro!]: "(\<And>x y. keeps P (f x y)) \<Longrightarrow> keeps P (case p of (x, y) \<Rightarrow> f x y)"
  by (cases p) simp

lemma keeps_Let [intro!]: "(\<And>x. keeps P (f x)) \<Longrightarrow> keeps P (let x = v in f x)"
  by simp

lemma keeps_act: "(\<And>w. P w \<Longrightarrow> status w = Running \<Longrightarrow> P (snd (f w))) \<Longrightarrow> keeps P (act d f)"
  by (simp add: keeps_def act_def)

lemma keeps_ask [intro!]: "keeps P (ask d f)"
  by (simp add: ask_def keeps_act)

lemma keeps_read_loop:
  "keeps P rd \<Longrightarrow> keeps P crash \<Longrightarrow> (\<And>t s. keeps P (body t s)) \<Longrightarrow> keeps P (read_loop n rd body s)"
  by (induction n arbitrary: s) (auto split: option.split)

lemma keeps_while_read:
  "keeps P rd \<Longrightarrow> keeps P crash \<Longrightarrow> (\<And>t s. keeps P (body t s)) \<Longrightarrow> keeps P (while_read So rd body s)"
  unfolding while_read_def by (intro keeps_bind keeps_ask keeps_read_loop)

section \<open>Monitors\<close>

text \<open>
  A property of the process that every single effect preserves is preserved by every operation of the
  program.  The locale states what has to be shown of the effects: recording an event, ending the
  process, asking it to exit, giving up \<open>sudo\<close>, reading from, opening, closing and labelling a stream, and
  everything that touches none of these.  The component theories add the operations.  A \<open>monitor\<close> also
  allows every other change of the flags that keeps \<open>FLAG_EXIT\<close>, as reading a configuration makes.
\<close>

locale effects =
  fixes inv :: "world \<Rightarrow> bool"
  assumes inv_event: "\<And>w e. inv w \<Longrightarrow> status w = Running \<Longrightarrow> inv (note_event e w)"
    and inv_stop: "\<And>w s. inv w \<Longrightarrow> status w = Running \<Longrightarrow> inv (w\<lparr>status := s\<rparr>)"
    and inv_exit: "\<And>w. inv w \<Longrightarrow> status w = Running \<Longrightarrow> inv (w\<lparr>GlobalFlags := GlobalFlags w OR FLAG_EXIT\<rparr>)"
    and inv_nosudo: "\<And>w. inv w \<Longrightarrow> status w = Running \<Longrightarrow> inv (w\<lparr>GlobalFlags := GlobalFlags w AND NOT FLAG_SUDO\<rparr>)"
    and inv_read: "\<And>w i S b is. inv w \<Longrightarrow> status w = Running \<Longrightarrow> streams w i = Some S
      \<Longrightarrow> stream_size b is \<le> stream_size (st_buf S) (st_inputs S)
      \<Longrightarrow> inv (w\<lparr>streams := (streams w)(i \<mapsto> S\<lparr>st_buf := b, st_inputs := is\<rparr>)\<rparr>)"
    and inv_open: "\<And>w S. inv w \<Longrightarrow> status w = Running
      \<Longrightarrow> inv (w\<lparr>streams := (streams w)(next_stream w \<mapsto> S), next_stream := Suc (next_stream w)\<rparr>)"
    and inv_close: "\<And>w i. inv w \<Longrightarrow> status w = Running \<Longrightarrow> inv (w\<lparr>streams := (streams w)(i := None)\<rparr>)"
    and inv_label: "\<And>w i S vs xs. inv w \<Longrightarrow> status w = Running \<Longrightarrow> streams w i = Some S
      \<Longrightarrow> inv (w\<lparr>streams := (streams w)(i \<mapsto> S\<lparr>st_values := vs, st_items := xs\<rparr>)\<rparr>)"
    and inv_frame: "\<And>w w'. inv w \<Longrightarrow> status w = Running \<Longrightarrow> status w' = status w \<Longrightarrow> GlobalFlags w' = GlobalFlags w
      \<Longrightarrow> trace w' = trace w \<Longrightarrow> sys w' = sys w \<Longrightarrow> streams w' = streams w \<Longrightarrow> next_stream w' = next_stream w \<Longrightarrow> inv w'"
begin

lemma crash_keeps [intro!]: "keeps inv crash"
  unfolding crash_def by (rule keeps_act) (simp add: inv_stop)

lemma exit_keeps [intro!]: "keeps inv (exit_process n)"
  unfolding exit_process_def by (rule keeps_act) (simp add: inv_stop)

lemma emit_keeps [intro!]: "keeps inv (emit e)"
  unfolding emit_def by (rule keeps_act) (simp add: inv_event)

lemma nosudo_keeps [intro!]: "keeps inv (setflags (\<lambda>g. g AND NOT FLAG_SUDO))"
  unfolding setflags_def by (rule keeps_act) (simp add: inv_nosudo)

lemma exitflag_keeps [intro!]: "keeps inv (setflags (\<lambda>g. g OR FLAG_EXIT))"
  unfolding setflags_def by (rule keeps_act) (simp add: inv_exit)

lemma getflags_keeps [intro!]: "keeps inv getflags"
  unfolding getflags_def by (rule keeps_ask)

lemma flag_set_keeps [intro!]: "keeps inv (flag_set f)"
  unfolding flag_set_def by (rule keeps_ask)

lemma lift_keeps [intro!]: "keeps inv (lift_option d x)"
  unfolding lift_option_def by (cases x) auto

lemma printf_keeps [intro!]: "keeps inv (printf s)"
  unfolding printf_def by (rule emit_keeps)

lemma TerminalPrint_keeps [intro!]: "keeps inv (TerminalPrint s)"
  unfolding TerminalPrint_def by (rule emit_keeps)

lemma getuid_keeps [intro!]: "keeps inv getuid"
  unfolding getuid_def by (rule keeps_ask)

lemma home_keeps [intro!]: "keeps inv GetCurrUserHomeDir"
  unfolding GetCurrUserHomeDir_def by (rule keeps_ask)

lemma SSHVpnTerminate_keeps [intro!]: "keeps inv SSHVpnTerminate"
proof -
  have "inv (snd (case Active w of None \<Rightarrow> ((), w)
      | Some i \<Rightarrow> (case stream_value w i ''PeerPID'' of None \<Rightarrow> ((), w\<lparr>status := Crashed\<rparr>)
          | Some p \<Rightarrow> (let pid = sint (atoi p); w' = (if pid > 1 then note_event (Killed pid 9) w else w)
                in ((), w'\<lparr>Active := None\<rparr>)))))" if "inv w" "status w = Running" for w
  proof -
    have "inv (w'\<lparr>Active := None\<rparr>)" if "w' = note_event e w \<or> w' = w" for w' e
    proof -
      have "inv w'" "status w' = Running"
        using that inv_event [OF \<open>inv w\<close> \<open>status w = Running\<close>] \<open>inv w\<close> \<open>status w = Running\<close>
        by (auto simp: note_event_def)
      then show ?thesis by (rule inv_frame) simp_all
    qed
    moreover have "inv (w\<lparr>status := Crashed\<rparr>)" using that by (rule inv_stop)
    ultimately show ?thesis using that by (auto simp: Let_def split: option.split)
  qed
  then show ?thesis unfolding SSHVpnTerminate_def by (rule keeps_act)
qed

lemma SignalHandler_keeps [intro!]: "keeps inv (SignalHandler n)"
  unfolding SignalHandler_def by auto

lemma stream_read_keeps:
  assumes "reader rd"
  shows "keeps inv (stream_read rd So)"
proof -
  have "inv (snd (case streams w i of None \<Rightarrow> ((None, False), w)
      | Some S \<Rightarrow> (case rd (st_buf S) (st_inputs S) of (r, b, is, sig) \<Rightarrow>
          ((r, sig), w\<lparr>streams := (streams w)(i \<mapsto> S\<lparr>st_buf := b, st_inputs := is\<rparr>)\<rparr>))))"
    if "inv w" "status w = Running" for w i
    using that inv_read [OF that] assms unfolding reader_def by (auto split: option.split prod.split)
  then show ?thesis
    unfolding stream_read_def
    by (intro keeps_case_option keeps_ret keeps_bind keeps_case_prod keeps_if SignalHandler_keeps keeps_act)
qed

lemma reads_keep [intro!]:
  "keeps inv (STREAMReadLine So)" "keeps inv (STREAMReadToMultiTerminator ts So)" "keeps inv (STREAMReadBytes n So)"
  unfolding STREAMReadLine_def STREAMReadToMultiTerminator_def STREAMReadBytes_def
  by (intro keeps_if keeps_bind keeps_ret crash_keeps stream_read_keeps readers)+

lemma open_record_inv:
  assumes "inv w" "status w = Running"
  shows "inv (snd (open_record w p c r))"
proof -
  have "inv (note_event e (w\<lparr>streams := (streams w)(next_stream w \<mapsto> S), next_stream := Suc (next_stream w)\<rparr>))" for e S
    using inv_open [OF assms, of S] by (intro inv_event) (simp_all add: assms)
  then show ?thesis using inv_event [OF assms] by (auto simp: open_record_def Let_def split: option.split)
qed

lemma STREAMOpen_keeps [intro!]: "keeps inv (STREAMOpen p c)"
  unfolding STREAMOpen_def by (rule keeps_act) (rule open_record_inv)

lemma STREAMClose_keeps [intro!]: "keeps inv (STREAMClose So)"
proof -
  have "inv (note_event e (w\<lparr>streams := (streams w)(i := None)\<rparr>))" if "inv w" "status w = Running" for w e i
    using that by (intro inv_event inv_close) simp_all
  then show ?thesis unfolding STREAMClose_def by (intro keeps_case_option keeps_ret keeps_act) auto
qed

lemma writes_keep [intro!]:
  "keeps inv (STREAMWriteBytes So d)" "keeps inv (STREAMWriteLine l So)" "keeps inv (STREAMFlush So)"
  unfolding STREAMWriteLine_def STREAMWriteBytes_def STREAMFlush_def by auto

lemma label_keeps:
  "(\<And>S. st_buf (f S) = st_buf S \<and> st_inputs (f S) = st_inputs S \<and> stream.more (f S) = stream.more S) \<Longrightarrow>
   keeps inv (label_stream i f)"
proof -
  assume f: "\<And>S. st_buf (f S) = st_buf S \<and> st_inputs (f S) = st_inputs S \<and> stream.more (f S) = stream.more S"
  have "f S = S\<lparr>st_values := st_values (f S), st_items := st_items (f S)\<rparr>" for S
    using f [of S] by (intro stream.equality) simp_all
  then show ?thesis
    unfolding label_stream_def by (intro keeps_act) (auto split: option.split intro: inv_label, metis inv_label)
qed

lemma values_keep [intro!]:
  "keeps inv (STREAMGetValue So k)" "keeps inv (STREAMSetValue So k v)" "keeps inv (STREAMGetItem So k)" "keeps inv (STREAMSetItem So k x)"
  unfolding STREAMGetValue_def STREAMSetValue_def STREAMGetItem_def STREAMSetItem_def
  by (auto intro!: label_keeps)

lemma while_read_keeps [intro!]:
  "keeps inv rd \<Longrightarrow> (\<And>t s. keeps inv (body t s)) \<Longrightarrow> keeps inv (while_read So rd body s)"
  by (intro keeps_while_read crash_keeps)

end

locale monitor = effects +
  assumes inv_flags: "\<And>w g. inv w \<Longrightarrow> status w = Running \<Longrightarrow> (bit (GlobalFlags w) 0 \<Longrightarrow> bit g 0) \<Longrightarrow> inv (w\<lparr>GlobalFlags := g\<rparr>)"
begin

lemma setflags_keeps: "(\<And>g. bit g 0 \<Longrightarrow> bit (f g) 0) \<Longrightarrow> keeps inv (setflags f)"
  unfolding setflags_def by (rule keeps_act) (simp add: inv_flags)

end

text \<open>
  The monitors.  A process that has stopped never changes; the trace only grows; a request to exit is
  never withdrawn; what a stream has left to deliver never grows; the surroundings are never replaced.  As long as no configuration is read,
  a local \<open>sudo\<close> that was given up is not used again.
\<close>

interpretation halted: monitor "\<lambda>w. w = w0 \<and> status w0 \<noteq> Running" for w0
  by unfold_locales auto

interpretation history: monitor "\<lambda>w. prefix t0 (trace w)" for t0
  by unfold_locales auto

interpretation exiting: monitor "\<lambda>w. bit (GlobalFlags w) 0"
  by unfold_locales (auto simp: bit_or_iff bit_and_iff bit_not_iff flag_simps)

interpretation surroundings: monitor "\<lambda>w. sys w = y" for y
  by unfold_locales auto

interpretation sudo_off: effects "\<lambda>w. \<not> has_flag (GlobalFlags w) FLAG_SUDO"
  by unfold_locales (auto simp: flag_simps)

definition bounded :: "nat \<Rightarrow> nat \<Rightarrow> world \<Rightarrow> bool" where
  "bounded i k w \<longleftrightarrow> i < next_stream w \<and> pending_of w (Some i) \<le> k"

interpretation stream_bound: monitor "bounded i k" for i k
  by unfold_locales (auto simp: bounded_def pending_of_def note_event_def stream_size_def split: option.splits)

section \<open>The fuel of the read loops is enough\<close>

text \<open>A stopped process leaves each read loop at once; a running one makes its stream smaller.\<close>

definition shrinks :: "nat \<Rightarrow> cstr io \<Rightarrow> bool" where
  "shrinks i rd \<longleftrightarrow> (\<forall>w t w' k. run_state rd w = (Some t, w') \<longrightarrow> bounded i k w \<longrightarrow> (\<exists>j. k = Suc j \<and> bounded i j w'))"

lemma shrinksD: "shrinks i rd \<Longrightarrow> run_state rd w = (Some t, w') \<Longrightarrow> bounded i k w \<Longrightarrow> \<exists>j. k = Suc j \<and> bounded i j w'"
  by (simp add: shrinks_def)

lemma read_loop_enough:
  assumes rd: "shrinks i rd" and body: "\<And>t s k. keeps (bounded i k) (body t s)"
  shows "bounded i k w \<Longrightarrow> k < n \<Longrightarrow> k < m \<Longrightarrow> run_state (read_loop n rd body s) w = run_state (read_loop m rd body s) w"
proof (induction k arbitrary: n m s w)
  case 0
  obtain n' m' where nm: "n = Suc n'" "m = Suc m'" using 0 by (cases n; cases m) auto
  obtain r w' where r: "run_state rd w = (r, w')" by fastforce
  have "r = None" using shrinksD [OF rd, of w _ w' 0] r 0(1) by (cases r) auto
  then show ?case by (simp add: nm r)
next
  case (Suc k)
  obtain n' m' where nm: "n = Suc n'" "m = Suc m'" using Suc.prems by (cases n; cases m) auto
  obtain r w' where r: "run_state rd w = (r, w')" by fastforce
  show ?case
  proof (cases r)
    case None
    then show ?thesis by (simp add: nm r)
  next
    case (Some t)
    then have b: "bounded i k w'" using shrinksD [OF rd, of w t w' "Suc k"] r Suc.prems(1) by auto
    obtain x w'' where x: "run_state (body t s) w' = (x, w'')" by fastforce
    obtain s' stop where x': "x = (s', stop)" by fastforce
    have "bounded i k w''" using body [of k t s] b x by (auto simp: keeps_def)
    then have "run_state (read_loop n' rd body s') w'' = run_state (read_loop m' rd body s') w''"
      using Suc.prems nm by (intro Suc.IH) simp_all
    then show ?thesis using nm r Some x x' by simp
  qed
qed

lemma stream_read_shrinks:
  assumes "\<And>b is r b' is' s. rd b is = (Some r, b', is', s) \<Longrightarrow> stream_size b' is' < stream_size b is"
  shows "shrinks i (stream_read rd (Some i))"
  unfolding shrinks_def
proof (intro allI impI)
  fix w t w' k
  assume e: "run_state (stream_read rd (Some i)) w = (Some t, w')" and b: "bounded i k w"
  have run: "status w = Running"
    using e by (auto simp: stream_read_def act_run split: if_split_asm)
  then obtain S where S: "streams w i = Some S"
    using e by (auto simp: stream_read_def act_run split: option.splits)
  obtain r buf "is" sig where rd: "rd (st_buf S) (st_inputs S) = (r, buf, is, sig)" by (metis prod_cases4)
  let ?w = "w\<lparr>streams := (streams w)(i \<mapsto> S\<lparr>st_buf := buf, st_inputs := is\<rparr>)\<rparr>"
  have w': "r = Some t" "w' = snd (run_state (if sig then SignalHandler SIGINT else ret ()) ?w)"
    using e run S rd by (auto simp: stream_read_def act_run split: prod.splits)
  have "stream_size buf is < stream_size (st_buf S) (st_inputs S)" using assms rd w'(1) by simp
  then have "pending_of ?w (Some i) < pending_of w (Some i)" by (simp add: pending_of_def S)
  then obtain j where j: "k = Suc j" "bounded i j ?w"
    using b by (cases k) (auto simp: bounded_def)
  moreover have "keeps (bounded i j) (if sig then SignalHandler SIGINT else ret ())"
    by (intro keeps_if stream_bound.SignalHandler_keeps keeps_ret)
  ultimately show "\<exists>j. k = Suc j \<and> bounded i j w'" using w'(2) by (auto simp: keeps_def)
qed

lemma reads_shrink: "shrinks i (STREAMReadLine (Some i))" "shrinks i (STREAMReadToMultiTerminator ts (Some i))"
  unfolding STREAMReadLine_def reads_Some
  using read_to_terminator_size read_to_multi_size [where acc = "[]"]
  by (intro stream_read_shrinks; fastforce)+

text \<open>The loop of the program is the loop with any fuel above what the stream has pending.\<close>

lemma while_read_fuel:
  assumes "shrinks i rd" "\<And>t s k. keeps (bounded i k) (body t s)" "i < next_stream w" "status w = Running"
    "pending_of w (Some i) < n"
  shows "run_state (while_read (Some i) rd body s) w = run_state (read_loop n rd body s) w"
  using read_loop_enough [OF assms(1,2), where k = "pending_of w (Some i)" and w = w and n = "Suc (pending_of w (Some i))"
      and m = n and s = s] assms(3-5)
  by (simp add: while_read_def ask_def act_run bounded_def del: read_loop.simps)

section \<open>The start of a process\<close>

text \<open>The static variables of the program before \<open>main\<close>.\<close>

definition initial_world :: "system \<Rightarrow> world" where
  "initial_world y = \<lparr>status = Running, GlobalFlags = 0, Terminal = None, Active = None, FoundCommands = None,
     Passwords = None, AttemptCount = 0, streams = (\<lambda>_. None), next_stream = 0, trace = [], sys = y\<rparr>"

text \<open>Surroundings in which nothing answers; the witnesses change single fields.\<close>

definition silent_system :: system where
  "silent_system = \<lparr>sys_uid = 1000, sys_euid = 1000, sys_pid = 4321, sys_home = ''/home/u'', sys_path = Some ''/bin'',
     sys_user = Some ''u'', sys_hostname = Some ''host'', sys_open = (\<lambda>_ _ _. None), sys_access = (\<lambda>_ _ _. False),
     sys_lstat = (\<lambda>_ _. None), sys_ifaddr = (\<lambda>_ _. None), sys_hostip = (\<lambda>_ _. None), sys_waitstatus = (\<lambda>_ _. 0),
     sys_prompt = (\<lambda>_ _. None), sys_random = (\<lambda>_. ''abcdefghijklmnop''), sys_isuser = (\<lambda>_. False),
     sys_select = (\<lambda>_ _. (None, False)), sys_accept = (\<lambda>_. None), sys_glob = (\<lambda>_ _. [])\<rparr>"

end
