(* ===== verification/Common.thy ===== *)
theory Common
  imports World
begin

text \<open>
  \<open>common.c\<close> (its signal handler is in the theory \<open>World\<close>), the two string helpers of
  \<open>libUseful-bundled/FileSystem.c\<close> that walk a path, and the small system calls the components share.
\<close>

section \<open>Logging\<close>

definition VPN_LOG_SYSLOG :: cint where "VPN_LOG_SYSLOG = 1"
definition VPN_LOG_ERROR :: cint where "VPN_LOG_ERROR = 2"
definition VPN_LOG_OKAY :: cint where "VPN_LOG_OKAY = 4"
definition VPN_LOG_INFO :: cint where "VPN_LOG_INFO = 8"

lemmas log_flag_defs [flag_simps] = VPN_LOG_SYSLOG_def VPN_LOG_ERROR_def VPN_LOG_OKAY_def VPN_LOG_INFO_def

text \<open>\<open>Text\<close> is the formatted message.  The syslog priorities are those of \<open>syslog.h\<close>.\<close>

definition LOG_ERR :: cint where "LOG_ERR = 3"
definition LOG_NOTICE :: cint where "LOG_NOTICE = 5"
definition LOG_INFO :: cint where "LOG_INFO = 6"
definition LOG_PID :: cint where "LOG_PID = 1"

definition LogEvent :: "cint \<Rightarrow> string \<Rightarrow> string \<Rightarrow> unit io" where
  "LogEvent LogFlags Title Text =
     (let (Prefix, Postfix) =
        (if has_flag LogFlags VPN_LOG_ERROR then (''~r'', ''~0'')
         else if has_flag LogFlags VPN_LOG_OKAY then (''~g'', ''~0'')
         else if has_flag LogFlags VPN_LOG_INFO then (''~c'', ''~0'')
         else ('''', ''''))
      in do {
        T \<leftarrow> ask None Terminal;
        (if T \<noteq> None then TerminalPrint (Prefix @ Title @ '':'' @ Postfix @ '' '' @ Text @ [CHR 0x0A]) else ret ());
        (if has_flag LogFlags VPN_LOG_SYSLOG
         then emit (Logged (LOG_PID OR (if has_flag LogFlags VPN_LOG_ERROR then LOG_ERR
                              else if has_flag LogFlags VPN_LOG_INFO then LOG_INFO else LOG_NOTICE))
                     (Title @ '': '' @ Text))
         else ret ()) })"

section \<open>Files\<close>

text \<open>\<open>STREAMReadDocument\<close> reads until the file ends; a timeout or a signal does not end it.\<close>

fun read_document :: "string \<Rightarrow> input list \<Rightarrow> cstr \<times> string \<times> input list \<times> bool" where
  "read_document b [] = (Some b, [], [], False)"
| "read_document b (i # is) =
     (case i of
        Bytes d \<Rightarrow> read_document (b @ d) is
      | Pause \<Rightarrow> read_document b is
      | Interrupt \<Rightarrow> (case read_document b is of (r, b', is', s) \<Rightarrow> (r, b', is', True)))"

lemma read_document_reader: "reader read_document"
proof -
  have "read_document b is = (r, b', is', s) \<Longrightarrow> stream_size b' is' \<le> stream_size b is" for b "is" r b' is' s
  proof (induction b "is" arbitrary: r b' is' s rule: read_document.induct)
    case (2 b i "is")
    then show ?case
      by (cases i) (fastforce simp: stream_size_def input_size_def split: prod.splits)+
  qed (auto simp: stream_size_def)
  then show ?thesis by (auto simp: reader_def)
qed

definition STREAMReadDocument :: "nat option \<Rightarrow> cstr io" where
  "STREAMReadDocument = stream_read read_document"

definition ReadFile :: "cstr \<Rightarrow> string io" where
  "ReadFile Path =
     (if \<not> StrValid Path then ret []
      else do {
        S \<leftarrow> STREAMOpen (chars Path) ''r'';
        (case S of
           None \<Rightarrow> ret []
         | Some i \<Rightarrow> do { r \<leftarrow> STREAMReadDocument (Some i); STREAMClose (Some i); ret (chars r) }) })"

definition access :: "string \<Rightarrow> char \<Rightarrow> bool io" where
  "access path mode = ask False (\<lambda>w. sys_access (sys w) (trace w) path mode)"

definition fileop :: "string \<Rightarrow> string list \<Rightarrow> unit io" where
  "fileop name args = emit (FileOp name args)"

section \<open>Finding a program\<close>

definition SlashTerminateDirectoryPath :: "string \<Rightarrow> string" where
  "SlashTerminateDirectoryPath DirPath =
     (if DirPath = [] then ''/'' else if last DirPath \<noteq> CHR ''/'' then DirPath @ ''/'' else DirPath)"

definition AppendPath :: "string \<Rightarrow> cstr \<Rightarrow> string \<Rightarrow> string" where
  "AppendPath Path SubDirectory File =
     (let Path = SlashTerminateDirectoryPath Path;
          Path = (if StrValid SubDirectory then SlashTerminateDirectoryPath (Path @ chars SubDirectory) else Path)
      in Path @ File)"

text \<open>\<open>lst p\<close> is the outcome of \<open>lstat\<close>: \<^term>\<open>None\<close> if it fails, else whether \<open>p\<close> is a symbolic link.\<close>

fun FindFile_loop :: "(string \<Rightarrow> bool option) \<Rightarrow> cstr \<Rightarrow> string \<Rightarrow> string list \<Rightarrow> cstr \<Rightarrow> string" where
  "FindFile_loop lst SubDirectory File [] Link = chars Link"
| "FindFile_loop lst SubDirectory File (d # ds) Link =
     (let CurrPath = AppendPath d SubDirectory File
      in case lst CurrPath of
           None \<Rightarrow> FindFile_loop lst SubDirectory File ds Link
         | Some islink \<Rightarrow>
             if islink
             then FindFile_loop lst SubDirectory File ds (if StrValid Link then Link else Some CurrPath)
             else CurrPath)"

definition FindFileInPathSubDirectory :: "(string \<Rightarrow> bool option) \<Rightarrow> string \<Rightarrow> cstr \<Rightarrow> cstr \<Rightarrow> string option" where
  "FindFileInPathSubDirectory lst File SubDirectory Path =
     (if strneq File ''/'' 1 then Some (FindFile_loop lst SubDirectory File [''''] None)
      else do { dirs \<leftarrow> GetTokens (Some '':'') 0 Path;
                Some (FindFile_loop lst SubDirectory File dirs None) })"

definition FindFileInPath :: "(string \<Rightarrow> bool option) \<Rightarrow> string \<Rightarrow> cstr \<Rightarrow> string option" where
  "FindFileInPath lst File Path = FindFileInPathSubDirectory lst File None Path"

text \<open>\<open>GetBasename\<close>; a slash at the very end of the path does not count.\<close>

definition GetBasename :: "cstr \<Rightarrow> string" where
  "GetBasename Path =
     (let p = chars Path
      in if length p \<le> 1 then p
         else (case strrchr (butlast p) (CHR ''/'') of
                 None \<Rightarrow> p
               | Some s \<Rightarrow> tl s @ [last p]))"

section \<open>Files that deliver their lines\<close>

text \<open>Reading lines from a file that delivers its bytes in any pieces.\<close>

fun content :: "input list \<Rightarrow> string option" where
  "content [] = Some []"
| "content (Bytes d # is) = map_option ((@) d) (content is)"
| "content _ = None"

lemma read_line_content:
  "content is = Some c \<Longrightarrow> read_to_terminator (CHR 0x0A) b is = (r, b', is', s) \<Longrightarrow>
   \<not> s \<and> (\<exists>c'. content is' = Some c' \<and>
     (case file_lines (b @ c) of [] \<Rightarrow> r = None \<and> b' @ c' = [] | l # ls \<Rightarrow> r = Some l \<and> file_lines (b' @ c') = ls))"
proof (induction "CHR 0x0A" b "is" arbitrary: c r b' is' s rule: read_to_terminator.induct)
  case (1 b)
  then show ?case
    by (auto simp: file_lines.simps [of b] file_lines.simps [of "[]"] split: if_split_asm)
next
  case (2 b i "is")
  show ?case
  proof (cases "CHR 0x0A \<in> set b")
    case True
    then obtain p q where b: "b = p @ CHR 0x0A # q" "CHR 0x0A \<notin> set p" by (meson split_list_first)
    with "2.prems"(2) have e: "r = Some (p @ [CHR 0x0A])" "b' = q" "is' = i # is" "\<not> s" by auto
    show ?thesis using e b(1) "2.prems"(1) file_lines_line [OF b(2), of "q @ c"] by simp
  next
    case False
    show ?thesis
    proof (cases i)
      case (Bytes d)
      then obtain c1 where c1: "content is = Some c1" "c = d @ c1" using "2.prems"(1) by auto
      from "2.hyps"(1) [OF False Bytes c1(1)] "2.prems"(2) False Bytes c1(2) show ?thesis by simp
    qed (use "2.prems"(1) in simp_all)
  qed
qed

lemma STREAMReadLine_content:
  assumes "streams w i = Some S" "content (st_inputs S) = Some c" "status w = Running"
  shows "\<exists>b' is' c'. run_state (STREAMReadLine (Some i)) w
       = (case file_lines (st_buf S @ c) of [] \<Rightarrow> None | l # ls \<Rightarrow> Some l,
          w\<lparr>streams := (streams w)(i \<mapsto> S\<lparr>st_buf := b', st_inputs := is'\<rparr>)\<rparr>)
     \<and> content is' = Some c' \<and> file_lines (b' @ c') = tl (file_lines (st_buf S @ c))"
proof -
  obtain r b' is' s where e: "read_to_terminator (CHR 0x0A) (st_buf S) (st_inputs S) = (r, b', is', s)"
    by (metis prod_cases4)
  from read_line_content [OF assms(2) e] obtain c' where c': "\<not> s" "content is' = Some c'"
    "case file_lines (st_buf S @ c) of [] \<Rightarrow> r = None \<and> b' @ c' = [] | l # ls \<Rightarrow> r = Some l \<and> file_lines (b' @ c') = ls"
    by blast
  then have "r = (case file_lines (st_buf S @ c) of [] \<Rightarrow> None | l # ls \<Rightarrow> Some l)"
    "file_lines (b' @ c') = tl (file_lines (st_buf S @ c))"
    by (auto split: list.splits)
  then show ?thesis using assms e c' by (auto simp: STREAMReadLine_def stream_read_def io_simps)
qed

lemma file_lines_length: "length (file_lines s) \<le> length s"
proof (induction s rule: file_lines.induct)
  case (1 s)
  show ?case
  proof (cases "s \<noteq> [] \<and> CHR 0x0A \<in> set s")
    case True
    then have "length (file_lines (drop 1 (dropWhile (\<lambda>c. c \<noteq> CHR 0x0A) s))) \<le> length (drop 1 (dropWhile (\<lambda>c. c \<noteq> CHR 0x0A) s))"
      using "1.IH" by blast
    moreover have "file_lines s = (takeWhile (\<lambda>c. c \<noteq> CHR 0x0A) s @ [CHR 0x0A])
        # file_lines (drop 1 (dropWhile (\<lambda>c. c \<noteq> CHR 0x0A) s))"
      using True by (subst file_lines.simps) simp
    moreover have "Suc (length (drop 1 (dropWhile (\<lambda>c. c \<noteq> CHR 0x0A) s))) \<le> length s"
      using True by (intro takeWhile_drop_length) simp
    ultimately show ?thesis by (simp only: list.size) 
  next
    case False
    then show ?thesis by (subst file_lines.simps) (auto simp: Suc_le_eq)
  qed
qed

lemma content_size: "content is = Some c \<Longrightarrow> length c \<le> sum_list (map input_size is)"
  by (induction "is" arbitrary: c rule: content.induct) (auto simp: input_size_def)

text \<open>A loop over the lines whose body only computes: the fold over the lines of the file.\<close>

lemma read_loop_lines:
  assumes body: "\<And>t s w'. status w' = Running \<Longrightarrow> sys w' = y \<Longrightarrow> trace w' = tr \<Longrightarrow> run_state (body t s) w' = ((step t s, False), w')"
  shows "streams w i = Some S \<Longrightarrow> content (st_inputs S) = Some c \<Longrightarrow> status w = Running \<Longrightarrow> sys w = y \<Longrightarrow> trace w = tr \<Longrightarrow>
   ls = file_lines (st_buf S @ c) \<Longrightarrow> length ls < n \<Longrightarrow>
   \<exists>S'. run_state (read_loop n (STREAMReadLine (Some i)) body s) w
     = (fold step ls s, w\<lparr>streams := (streams w)(i \<mapsto> S')\<rparr>)"
proof (induction ls arbitrary: w S c n s)
  case Nil
  then obtain n' where n: "n = Suc n'" by (cases n) auto
  from STREAMReadLine_content [OF Nil(1-3)] Nil obtain b' is' where
    "run_state (STREAMReadLine (Some i)) w = (None, w\<lparr>streams := (streams w)(i \<mapsto> S\<lparr>st_buf := b', st_inputs := is'\<rparr>)\<rparr>)"
    by auto
  then show ?case by (intro exI [of _ "S\<lparr>st_buf := b', st_inputs := is'\<rparr>"]) (simp add: n fun_upd_def)
next
  case (Cons l ls)
  from Cons.prems(7) obtain n' where n: "n = Suc n'" "length ls < n'" by (cases n) simp_all
  from STREAMReadLine_content [OF Cons.prems(1-3)] Cons.prems(6) obtain b' is' c' where
    r: "run_state (STREAMReadLine (Some i)) w = (Some l, w\<lparr>streams := (streams w)(i \<mapsto> S\<lparr>st_buf := b', st_inputs := is'\<rparr>)\<rparr>)"
    and c': "content is' = Some c'" "ls = file_lines (b' @ c')"
    by (auto split: list.splits)
  let ?w = "w\<lparr>streams := (streams w)(i \<mapsto> S\<lparr>st_buf := b', st_inputs := is'\<rparr>)\<rparr>"
  have "\<exists>S'. run_state (read_loop n' (STREAMReadLine (Some i)) body (step l s)) ?w
      = (fold step ls (step l s), ?w\<lparr>streams := (streams ?w)(i \<mapsto> S')\<rparr>)"
    by (rule Cons.IH [of ?w "S\<lparr>st_buf := b', st_inputs := is'\<rparr>" c']) (use Cons.prems n c' in simp_all)
  then obtain S' where "run_state (read_loop n' (STREAMReadLine (Some i)) body (step l s)) ?w
      = (fold step ls (step l s), w\<lparr>streams := (streams w)(i \<mapsto> S')\<rparr>)" by auto
  moreover have "run_state (body l s) ?w = ((step l s, False), ?w)"
    using Cons.prems by (intro body) simp_all
  ultimately show ?case using r by (intro exI [of _ S']) (simp add: n fun_upd_def)
qed

lemma while_lines:
  assumes "\<And>t s w'. status w' = Running \<Longrightarrow> sys w' = sys w \<Longrightarrow> trace w' = trace w \<Longrightarrow> run_state (body t s) w' = ((step t s, False), w')"
    and "streams w i = Some S" "content (st_inputs S) = Some c" "status w = Running"
  shows "\<exists>S'. run_state (while_read (Some i) (STREAMReadLine (Some i)) body s) w
     = (fold step (file_lines (st_buf S @ c)) s, w\<lparr>streams := (streams w)(i \<mapsto> S')\<rparr>)"
proof -
  have "length (file_lines (st_buf S @ c)) \<le> pending_of w (Some i)"
    using file_lines_length [of "st_buf S @ c"] content_size [OF assms(3)] assms(2) by (simp add: pending_of_def stream_size_def)
  then have "length (file_lines (st_buf S @ c)) < Suc (pending_of w (Some i))" by simp
  from read_loop_lines [where body = body and step = step and y = "sys w" and tr = "trace w", OF assms(1) assms(2,3,4) refl refl refl this]
  obtain S' where "run_state (read_loop (Suc (pending_of w (Some i))) (STREAMReadLine (Some i)) body s) w
      = (fold step (file_lines (st_buf S @ c)) s, w\<lparr>streams := (streams w)(i \<mapsto> S')\<rparr>)" by blast
  moreover have "run_state (while_read (Some i) (STREAMReadLine (Some i)) body s) w
      = run_state (read_loop (Suc (pending_of w (Some i))) (STREAMReadLine (Some i)) body s) w"
    using assms(4) by (simp add: while_read_def ask_run del: read_loop.simps)
  ultimately show ?thesis by auto
qed

section \<open>Monitored\<close>

context effects
begin

lemma act_frame_keeps:
  "(\<And>w. streams (snd (f w)) = streams w \<and> next_stream (snd (f w)) = next_stream w \<and> status (snd (f w)) = status w
     \<and> GlobalFlags (snd (f w)) = GlobalFlags w \<and> trace (snd (f w)) = trace w \<and> sys (snd (f w)) = sys w)
   \<Longrightarrow> keeps inv (act d f)"
  by (rule keeps_act) (erule (1) inv_frame; simp)

lemma LogEvent_keeps [intro!]: "keeps inv (LogEvent fl t m)"
  unfolding LogEvent_def by (auto split: prod.split)

lemma ReadFile_keeps [intro!]: "keeps inv (ReadFile p)"
  unfolding ReadFile_def STREAMReadDocument_def by (intro keeps_if keeps_ret keeps_bind keeps_case_option
      STREAMOpen_keeps STREAMClose_keeps stream_read_keeps read_document_reader)

lemma access_keeps [intro!]: "keeps inv (access p c)"
  unfolding access_def by (rule keeps_ask)

lemma fileop_keeps [intro!]: "keeps inv (fileop n xs)"
  unfolding fileop_def by (rule emit_keeps)

end

section \<open>A step for every token\<close>

text \<open>
  \<open>ptr=GetToken(Str, Sep, &Token, Flags); while (ptr) { ...; ptr=GetToken(ptr, Sep, &Token, Flags); }\<close>
  with a body that has effects: what the body did for the earlier tokens stays done when a later token
  is undefined.
\<close>

function for_tokens :: "cstr \<Rightarrow> cint \<Rightarrow> cstr \<Rightarrow> (string \<Rightarrow> unit io) \<Rightarrow> unit io" where
  "for_tokens Sep Fl ptr body =
     (case GetToken ptr Sep Fl of
        None \<Rightarrow> crash
      | Some (None, t) \<Rightarrow> ret ()
      | Some (Some p, t) \<Rightarrow> do { body t; for_tokens Sep Fl (Some p) body })"
  by pat_completeness auto
termination
proof (relation "measure (\<lambda>(_, _, s, _). StrLen s)", goal_cases)
  case (2 Sep Fl ptr body a x t p u)
  then have g: "GetToken ptr Sep Fl = Some (Some p, t)" by simp
  then obtain s where "ptr = Some s" by (cases ptr) auto
  then show ?case using GetToken_progress [of s Sep Fl p t] g by (simp add: StrLen_def)
qed simp

declare for_tokens.simps [simp del]

text \<open>The same with a body that threads a value and may leave the loop.\<close>

function for_tokens_until :: "cstr \<Rightarrow> cint \<Rightarrow> cstr \<Rightarrow> (string \<Rightarrow> 's \<Rightarrow> ('s \<times> bool) io) \<Rightarrow> 's \<Rightarrow> 's io" where
  "for_tokens_until Sep Fl ptr body s =
     (case GetToken ptr Sep Fl of
        None \<Rightarrow> do { crash; ret s }
      | Some (None, t) \<Rightarrow> ret s
      | Some (Some p, t) \<Rightarrow> do { (s', stop) \<leftarrow> body t s; if stop then ret s' else for_tokens_until Sep Fl (Some p) body s' })"
  by pat_completeness auto
termination
proof (relation "measure (\<lambda>(_, _, s, _, _). StrLen s)", goal_cases)
  case (2 Sep Fl ptr body s x q t p s' stop)
  then have g: "GetToken ptr Sep Fl = Some (Some p, t)" by simp
  then obtain s where "ptr = Some s" by (cases ptr) auto
  then show ?case using GetToken_progress [of s Sep Fl p t] g by (simp add: StrLen_def)
qed simp

declare for_tokens_until.simps [simp del]

primrec each :: "('a \<Rightarrow> unit io) \<Rightarrow> 'a list \<Rightarrow> unit io" where
  "each f [] = ret ()"
| "each f (x # xs) = do { f x; each f xs }"

lemma for_tokens_each: "GetTokens Sep Fl ptr = Some ts \<Longrightarrow> for_tokens Sep Fl ptr body = each body ts"
proof (induction Sep Fl ptr arbitrary: ts rule: GetTokens.induct)
  case (1 Sep Fl ptr)
  show ?case
  proof (cases "GetToken ptr Sep Fl")
    case None
    with "1.prems" show ?thesis by (simp add: GetTokens.simps [of Sep Fl ptr])
  next
    case (Some r)
    obtain q t where r: "r = (q, t)" by fastforce
    show ?thesis
    proof (cases q)
      case None
      with "1.prems" Some r show ?thesis
        by (simp add: GetTokens.simps [of Sep Fl ptr] for_tokens.simps [of Sep Fl ptr])
    next
      case q: (Some p)
      then obtain ts' where ts: "ts = t # ts'" "GetTokens Sep Fl (Some p) = Some ts'"
        using "1.prems" Some r by (auto simp: GetTokens.simps [of Sep Fl ptr])
      from "1.IH" [OF Some r [symmetric] q ts(2)] show ?thesis
        using Some r q ts(1) by (simp add: for_tokens.simps [of Sep Fl ptr])
    qed
  qed
qed

context effects
begin

lemma for_tokens_keeps [intro!]: "(\<And>t. keeps inv (body t)) \<Longrightarrow> keeps inv (for_tokens Sep Fl ptr body)"
proof (induction Sep Fl ptr body rule: for_tokens.induct)
  case (1 Sep Fl ptr body)
  show ?case
  proof (cases "GetToken ptr Sep Fl")
    case None
    then show ?thesis by (auto simp: for_tokens.simps [of Sep Fl ptr])
  next
    case (Some r)
    obtain q t where r: "r = (q, t)" by fastforce
    show ?thesis
    proof (cases q)
      case None
      with Some r show ?thesis by (auto simp: for_tokens.simps [of Sep Fl ptr])
    next
      case q: (Some p)
      with "1.IH" [OF Some r [symmetric] q "1.prems"] "1.prems" Some r show ?thesis
        by (auto simp: for_tokens.simps [of Sep Fl ptr])
    qed
  qed
qed

lemma for_tokens_until_keeps [intro!]:
  "(\<And>t s. keeps inv (body t s)) \<Longrightarrow> keeps inv (for_tokens_until Sep Fl ptr body s)"
proof (induction Sep Fl ptr body s rule: for_tokens_until.induct)
  case (1 Sep Fl ptr body s)
  show ?case
  proof (cases "GetToken ptr Sep Fl")
    case None
    then show ?thesis by (auto simp: for_tokens_until.simps [of Sep Fl ptr])
  next
    case (Some r)
    obtain q t where r: "r = (q, t)" by fastforce
    show ?thesis
    proof (cases q)
      case None
      with Some r show ?thesis by (auto simp: for_tokens_until.simps [of Sep Fl ptr])
    next
      case q: (Some p)
      have "keeps inv (for_tokens_until Sep Fl (Some p) body s')" for s'
        using "1.IH" [OF Some r [symmetric] q _ "1.prems", of False s'] by simp
      then show ?thesis using "1.prems" Some r q by (auto simp: for_tokens_until.simps [of Sep Fl ptr])
    qed
  qed
qed

lemma each_keeps [intro!]: "(\<And>t. keeps inv (body t)) \<Longrightarrow> keeps inv (each body xs)"
  by (induction xs) auto

end

section \<open>Opening a file that is there\<close>

definition opened :: "world \<Rightarrow> string \<Rightarrow> string \<Rightarrow> (string \<times> string) list \<Rightarrow> input list \<Rightarrow> world" where
  "opened w path mode vs is = note_event (Opened path mode (Some (next_stream w)))
     (w\<lparr>streams := (streams w)(next_stream w \<mapsto> \<lparr>st_buf = [], st_inputs = is, st_values = vs, st_items = []\<rparr>),
        next_stream := Suc (next_stream w)\<rparr>)"

lemma STREAMOpen_opened:
  "status w = Running \<Longrightarrow> sys_open (sys w) (trace w) path mode = Some (vs, is) \<Longrightarrow>
   run_state (STREAMOpen path mode) w = (Some (next_stream w), opened w path mode vs is)"
  by (simp add: STREAMOpen_def act_run open_record_def Let_def opened_def)

lemma STREAMOpen_fails:
  "status w = Running \<Longrightarrow> sys_open (sys w) (trace w) path mode = None \<Longrightarrow>
   run_state (STREAMOpen path mode) w = (None, note_event (Opened path mode None) w)"
  by (simp add: STREAMOpen_def act_run open_record_def)

lemma opened_fields [simp]:
  "status (opened w p m vs is) = status w" "sys (opened w p m vs is) = sys w"
  "trace (opened w p m vs is) = trace w @ [Opened p m (Some (next_stream w))]"
  "streams (opened w p m vs is) (next_stream w) = Some \<lparr>st_buf = [], st_inputs = is, st_values = vs, st_items = []\<rparr>"
  "GlobalFlags (opened w p m vs is) = GlobalFlags w" "next_stream (opened w p m vs is) = Suc (next_stream w)"
  by (simp_all add: opened_def)

lemma STREAMClose_run [io_simps]:
  "run_state (STREAMClose (Some i)) w
   = ((), if status w = Running then note_event (Closed i) (w\<lparr>streams := (streams w)(i := None)\<rparr>) else w)"
  by (simp add: STREAMClose_def act_run)

text \<open>The world in which a file was read and closed again; only the trace and the stream counter move on.\<close>

definition visited :: "world \<Rightarrow> string \<Rightarrow> string \<Rightarrow> world" where
  "visited w path mode = w\<lparr>streams := (streams w)(next_stream w := None), next_stream := Suc (next_stream w),
     trace := trace w @ [Opened path mode (Some (next_stream w)), Closed (next_stream w)]\<rparr>"

lemma visited_fields [simp]:
  "status (visited w p m) = status w" "sys (visited w p m) = sys w" "GlobalFlags (visited w p m) = GlobalFlags w"
  "trace (visited w p m) = trace w @ [Opened p m (Some (next_stream w)), Closed (next_stream w)]"
  "next_stream (visited w p m) = Suc (next_stream w)" "FoundCommands (visited w p m) = FoundCommands w"
  by (simp_all add: visited_def)

lemma opened_closed:
  "note_event (Closed (next_stream w)) ((opened w p m vs is)\<lparr>streams := (streams (opened w p m vs is))(next_stream w := None)\<rparr>)
   = visited w p m"
  by (simp add: opened_def visited_def note_event_def)

lemma read_file_lines:
  assumes "status w = Running" "sys_open (sys w) (trace w) path ''r'' = Some (vs, is)" "content is = Some c"
    and "\<And>t s w'. status w' = Running \<Longrightarrow> sys w' = sys w \<Longrightarrow> trace w' = trace w @ [Opened path ''r'' (Some (next_stream w))] \<Longrightarrow>
        run_state (body t s) w' = ((step t s, False), w')"
  shows "run_state (do { S \<leftarrow> STREAMOpen path ''r'';
            (case S of None \<Rightarrow> ret s
             | Some i \<Rightarrow> do { x \<leftarrow> while_read (Some i) (STREAMReadLine (Some i)) body s; STREAMClose (Some i); ret x }) }) w
     = (fold step (file_lines c) s, visited w path ''r'')"
proof -
  let ?w = "opened w path ''r'' vs is"
  obtain S' where "run_state (while_read (Some (next_stream w)) (STREAMReadLine (Some (next_stream w))) body s) ?w
      = (fold step (file_lines c) s, ?w\<lparr>streams := (streams ?w)(next_stream w \<mapsto> S')\<rparr>)"
    using while_lines [of ?w body step "next_stream w" _ c s] assms by auto
  then show ?thesis
    using assms(1,2) by (simp add: STREAMOpen_opened STREAMClose_run opened_closed)
qed

text \<open>The same after the first line, a header, was skipped.\<close>

lemma read_file_tail:
  assumes "status w = Running" "sys_open (sys w) (trace w) path ''r'' = Some (vs, is)" "content is = Some c"
    and "\<And>t s w'. status w' = Running \<Longrightarrow> sys w' = sys w \<Longrightarrow> trace w' = trace w @ [Opened path ''r'' (Some (next_stream w))] \<Longrightarrow>
        run_state (body t s) w' = ((step t s, False), w')"
  shows "run_state (do { S \<leftarrow> STREAMOpen path ''r'';
            (case S of None \<Rightarrow> ret s
             | Some i \<Rightarrow> do { STREAMReadLine (Some i);
                 x \<leftarrow> while_read (Some i) (STREAMReadLine (Some i)) body s; STREAMClose (Some i); ret x }) }) w
     = (fold step (tl (file_lines c)) s, visited w path ''r'')"
proof -
  let ?w = "opened w path ''r'' vs is" and ?i = "next_stream w"
  let ?S = "\<lparr>st_buf = [], st_inputs = is, st_values = vs, st_items = []\<rparr>"
  have "streams ?w ?i = Some ?S" "content (st_inputs ?S) = Some c" "status ?w = Running" using assms by simp_all
  from STREAMReadLine_content [OF this] obtain b' is' c' where
    r: "run_state (STREAMReadLine (Some ?i)) ?w = (case file_lines (st_buf ?S @ c) of [] \<Rightarrow> None | l # ls \<Rightarrow> Some l,
          ?w\<lparr>streams := (streams ?w)(?i \<mapsto> ?S\<lparr>st_buf := b', st_inputs := is'\<rparr>)\<rparr>)"
    and c': "content is' = Some c'" "file_lines (b' @ c') = tl (file_lines (st_buf ?S @ c))"
    by blast
  let ?v = "?w\<lparr>streams := (streams ?w)(?i \<mapsto> ?S\<lparr>st_buf := b', st_inputs := is'\<rparr>)\<rparr>"
  obtain S' where "run_state (while_read (Some ?i) (STREAMReadLine (Some ?i)) body s) ?v
      = (fold step (tl (file_lines c)) s, ?v\<lparr>streams := (streams ?v)(?i \<mapsto> S')\<rparr>)"
    using while_lines [of ?v body step ?i "?S\<lparr>st_buf := b', st_inputs := is'\<rparr>" c' s] assms(1,4) c' by auto
  then show ?thesis
    using assms(1,2) r by (simp add: STREAMOpen_opened STREAMClose_run opened_closed)
qed

text \<open>What was sent to a stream.\<close>

definition written :: "nat \<Rightarrow> event list \<Rightarrow> string" where
  "written i evs = concat (map (\<lambda>e. case e of Wrote j d \<Rightarrow> if j = i then d else [] | _ \<Rightarrow> []) evs)"

lemma written_simps [simp]:
  "written i [] = []" "written i (Wrote j d # es) = (if j = i then d else []) @ written i es"
  "written i (es @ fs) = written i es @ written i fs"
  by (simp_all add: written_def)

lemma written_other [simp]: "(\<And>d. e \<noteq> Wrote i d) \<Longrightarrow> written i (e # es) = written i es"
  by (cases e) (auto simp: written_def)

end
