(* ===== verification/RunCommand.thy ===== *)
theory RunCommand
  imports Common
begin

text \<open>
  \<open>run_command.c\<close>: finding programs, running them as root through \<open>sudo\<close> or \<open>su\<close>, talking to the
  password prompts, and collecting the exit status.
\<close>

definition CMD_ASROOT :: cint where "CMD_ASROOT = 1"
definition CMD_SU :: cint where "CMD_SU = 2"
definition CMD_SUDO :: cint where "CMD_SUDO = 4"
definition CMD_SSH :: cint where "CMD_SSH = 8"
definition CMD_NOSYNC :: cint where "CMD_NOSYNC = 16"
definition CMD_NO_STDERR :: cint where "CMD_NO_STDERR = 32"
definition CMD_KILL :: cint where "CMD_KILL = 4096"
definition CMD_VERBOSE :: cint where "CMD_VERBOSE = 65536"

lemmas cmd_flag_defs [flag_simps] =
  CMD_ASROOT_def CMD_SU_def CMD_SUDO_def CMD_SSH_def CMD_NOSYNC_def CMD_NO_STDERR_def CMD_KILL_def CMD_VERBOSE_def

lemma CMD_SUDO_FLAG_SUDO: "CMD_SUDO = FLAG_SUDO"
  by (simp add: CMD_SUDO_def FLAG_SUDO_def)

definition RUN_CMD_BEGIN :: cint where "RUN_CMD_BEGIN = 0"
definition RUN_CMD_OKAY :: cint where "RUN_CMD_OKAY = 1"
definition RUN_CMD_UNKNOWN :: cint where "RUN_CMD_UNKNOWN = 2"
definition RUN_CMD_AUTH_FAIL :: cint where "RUN_CMD_AUTH_FAIL = 3"
definition RUN_CMD_FAIL :: cint where "RUN_CMD_FAIL = 4"
definition RUN_CMD_ABORT :: cint where "RUN_CMD_ABORT = 5"

lemmas run_cmd_defs =
  RUN_CMD_BEGIN_def RUN_CMD_OKAY_def RUN_CMD_UNKNOWN_def RUN_CMD_AUTH_FAIL_def RUN_CMD_FAIL_def RUN_CMD_ABORT_def

section \<open>The table of programs\<close>

primrec FindCommands_loop :: "string list \<Rightarrow> string \<Rightarrow> unit io" where
  "FindCommands_loop [] SearchPath = ret ()"
| "FindCommands_loop (Item # Items) SearchPath =
     do {
       Path \<leftarrow> ask (Some []) (\<lambda>w. FindFileInPath (sys_lstat (sys w) (trace w)) Item (Some SearchPath));
       p \<leftarrow> lift_option [] Path;
       (if p \<noteq> [] then act () (\<lambda>w. ((), w\<lparr>FoundCommands := SetVar (FoundCommands w) Item p\<rparr>)) else ret ());
       FindCommands_loop Items SearchPath
     }"

definition FindCommands :: "string \<Rightarrow> unit io" where
  "FindCommands Commands =
     do {
       path \<leftarrow> ask None (\<lambda>w. sys_path (sys w));
       act () (\<lambda>w. ((), if FoundCommands w = None then w\<lparr>FoundCommands := Some []\<rparr> else w));
       Items \<leftarrow> lift_option [] (GetTokens (Some '','') 0 (Some Commands));
       FindCommands_loop Items (chars (CatStr (CopyStr None path) (Some '':/sbin:/usr/sbin:/usr/local/sbin'')))
     }"

definition GetCommandPath :: "string \<Rightarrow> string io" where
  "GetCommandPath Command = ask [] (\<lambda>w. if FoundCommands w = None then [] else GetVar (FoundCommands w) Command)"

section \<open>Building the command line\<close>

definition RunCmdFormat :: "cstr \<Rightarrow> string \<Rightarrow> cstr \<Rightarrow> cint \<Rightarrow> cstr io" where
  "RunCmdFormat RetStr Cmd Args Fl =
     (let Prefix = (if has_flag Fl CMD_SSH then '''' else ''cmd:'')
      in if has_flag Fl CMD_SUDO then do {
           p \<leftarrow> GetCommandPath ''sudo'';
           ret (if p \<noteq> [] then MCopyStr RetStr [Some Prefix, Some ''sudo -S /bin/sh -c 'echo vpn-mgr-cmd-run;'',
                               Some Cmd, Some '' '', Args, Some '''; echo vpn-mgr-sudo-done'']
                else RetStr) }
         else if has_flag Fl CMD_SU then do {
           p \<leftarrow> GetCommandPath ''su'';
           ret (if p \<noteq> [] then MCopyStr RetStr [Some Prefix, Some ''su '', Some '''', Some '' -c 'echo vpn-mgr-cmd-run; '',
                               Some Cmd, Some '' '', Args, Some '''; echo vpn-mgr-su-done'']
                else RetStr) }
         else ret (MCopyStr RetStr [Some Prefix, Some Cmd, Some '' '', Args]))"

text \<open>\<open>NULL\<close> if the program is not known.\<close>

definition RunCmdSetup :: "cstr \<Rightarrow> cint \<Rightarrow> cstr io" where
  "RunCmdSetup Cmd Fl =
     do {
       (p, Token) \<leftarrow> lift_option (None, []) (GetToken Cmd (Some [CHR 0x5C, CHR ''S'']) 0);
       path \<leftarrow> (if strneq Token ''/'' 1 then ret Token else GetCommandPath Token);
       (if path = [] then ret None else RunCmdFormat (Some []) path p Fl)
     }"

section \<open>Passwords\<close>

definition TerminalReadPrompt :: "string \<Rightarrow> cstr io" where
  "TerminalReadPrompt p = act None (\<lambda>w. (sys_prompt (sys w) (trace w) p, note_event (Asked p) w))"

definition newline :: string where "newline = [CHR 0x0A]"

definition RunCommandPasswordTransact :: "string \<Rightarrow> string \<Rightarrow> nat option \<Rightarrow> cint io" where
  "RunCommandPasswordTransact PasswordDomain PasswordProgram S =
     (let PasswordType = PasswordDomain @ '' '' @ PasswordProgram
      in do {
        known \<leftarrow> ask [] (\<lambda>w. GetVar (Passwords w) PasswordType);
        (Pass, RetVal) \<leftarrow>
          (if known = [] then do {
             printf newline;
             Pass \<leftarrow> TerminalReadPrompt (''~ePassword for ~y'' @ PasswordDomain @ ''~0 ~e'' @ PasswordProgram @ '':~0 '');
             printf newline;
             (if StrValid Pass
              then do {
                act () (\<lambda>w. ((), w\<lparr>Passwords :=
                  SetVar (case Passwords w of None \<Rightarrow> Some [] | Some vs \<Rightarrow> Some vs) PasswordType (chars Pass)\<rparr>));
                ret (Pass, RUN_CMD_OKAY) }
              else ret (Pass, RUN_CMD_ABORT)) }
           else ret (Some known, RUN_CMD_OKAY));
        act () (\<lambda>w. ((), w\<lparr>AttemptCount := AttemptCount w + 1\<rparr>));
        dbg \<leftarrow> flag_set FLAG_DEBUG;
        (if dbg then printf (''SEND PASSWORD: ['' @ pct_s Pass @ '']'' @ newline) else ret ());
        STREAMWriteLine Pass S;
        STREAMWriteLine (Some newline) S;
        STREAMFlush S;
        ret RetVal })"

section \<open>Watching a command start\<close>

text \<open>
  One round of the loop: what became of \<open>result\<close>, and whether the loop ends.  An \<open>sudo\<close> prompt ends in a
  colon, which is one of the terminators the loop reads up to.
\<close>

definition ReadLoop_check :: "nat option \<Rightarrow> string \<Rightarrow> string \<Rightarrow> string \<Rightarrow> string \<Rightarrow> cint \<Rightarrow> (cint \<times> bool) io" where
  "ReadLoop_check S PasswordDomain PasswordProgram Tempstr CheckStr result =
     (if strneq CheckStr ''[sudo] password for'' 19 then
        do { r \<leftarrow> RunCommandPasswordTransact PasswordDomain PasswordProgram S; ret (r, False) }
      else if strneq CheckStr ''Password:'' 9 then
        do { r \<leftarrow> RunCommandPasswordTransact PasswordDomain PasswordProgram S; ret (r, False) }
      else if strneq CheckStr ''Sorry'' 5 then ret (RUN_CMD_AUTH_FAIL, True)
      else if CheckStr = ''Authentication failure'' then ret (RUN_CMD_AUTH_FAIL, True)
      else if CheckStr = ''vpn-mgr-cmd-run'' then ret (RUN_CMD_OKAY, True)
      else if CheckStr = ''vpn-mgr-sudo-done'' then ret (result, True)
      else if CheckStr = ''vpn-mgr-su-done'' then ret (result, True)
      else do { (if CheckStr \<noteq> [] then printf (''   '' @ Tempstr) else ret ()); ret (result, False) })"

definition ReadLoop_body :: "nat option \<Rightarrow> string \<Rightarrow> string \<Rightarrow> string \<Rightarrow> cint \<Rightarrow> (cint \<times> bool) io" where
  "ReadLoop_body S PasswordDomain PasswordProgram Tempstr result =
     do {
       (result, stop) \<leftarrow>
         (if Tempstr \<noteq> [] then do {
            let CheckStr = StripTrailingWhitespace (StripLeadingWhitespace Tempstr);
            dbg \<leftarrow> flag_set FLAG_DEBUG;
            (if dbg then printf (''Command Output: '' @ CheckStr @ newline) else ret ());
            (result, stop) \<leftarrow> ReadLoop_check S PasswordDomain PasswordProgram Tempstr CheckStr result;
            ret (result, stop \<or> result \<noteq> RUN_CMD_BEGIN \<and> result \<noteq> RUN_CMD_OKAY) }
          else ret (result, False));
       quit \<leftarrow> flag_set FLAG_EXIT;
       ret (result, stop \<or> quit)
     }"

definition RunCommandReadLoop :: "nat option \<Rightarrow> string \<Rightarrow> string \<Rightarrow> cint io" where
  "RunCommandReadLoop S PasswordDomain PasswordProgram =
     while_read S (STREAMReadToMultiTerminator [CHR '':'', CHR 0x0D, CHR 0x0A] S)
       (ReadLoop_body S PasswordDomain PasswordProgram) RUN_CMD_BEGIN"

section \<open>Ending a command\<close>

definition WEXITSTATUS :: "cint \<Rightarrow> cint" where
  "WEXITSTATUS st = drop_bit 8 st AND 255"

definition waitpid :: "int \<Rightarrow> cint io" where
  "waitpid pid = act 0 (\<lambda>w. (sys_waitstatus (sys w) (trace w) pid, note_event (Waited pid) w))"

definition RunCommandCleanUp :: "nat option \<Rightarrow> cint \<Rightarrow> cint io" where
  "RunCommandCleanUp S Fl =
     do {
       ptr \<leftarrow> STREAMGetValue S ''PeerPID'';
       st \<leftarrow> (if StrValid ptr then do {
           let pid = sint (atoi (chars ptr));
           (if pid > -1 \<and> has_flag Fl CMD_KILL then emit (Killed (0 - pid) SIGTERM) else ret ());
           st \<leftarrow> waitpid pid;
           STREAMSetValue S ''ExitStatus'' (fmt_d (WEXITSTATUS st));
           ret st }
         else ret 0);
       ret (if st = 0 then RUN_CMD_OKAY else RUN_CMD_FAIL)
     }"

section \<open>Running a command\<close>

definition RunCommandOpenTry :: "cstr \<Rightarrow> cint \<Rightarrow> nat option io" where
  "RunCommandOpenTry Cmd Fl0 =
     do {
       u \<leftarrow> getuid;
       let Fl = (if u = 0 then Fl0 AND NOT (CMD_SUDO OR CMD_SU) else Fl0);
       FullCmd \<leftarrow> RunCmdSetup Cmd Fl;
       (if StrValid FullCmd then do {
          g \<leftarrow> getflags;
          (if has_flag Fl CMD_VERBOSE \<or> has_flag g (FLAG_VERBOSE OR FLAG_DEBUG)
           then TerminalPrint (''~yRUN CMD:~0 ['' @ chars FullCmd @ '']'' @ newline) else ret ());
          let config = (if \<not> has_flag Fl CMD_NO_STDERR then ''rw pty setsid +stderr'' else ''rw pty setsid'');
          S \<leftarrow> STREAMOpen (chars FullCmd) config;
          (if S \<noteq> None then
             (if has_flag Fl (CMD_SUDO OR CMD_SU) then do {
                result \<leftarrow> RunCommandReadLoop S ''Local'' ''su/sudo'';
                (if result = RUN_CMD_AUTH_FAIL then do {
                   TerminalPrint (''~r~eERROR: Authentication Failure~0'' @ newline);
                   STREAMClose S;
                   ret None }
                 else if result = RUN_CMD_ABORT then do {
                   TerminalPrint (''~r~eERROR: User Aborted command. Exiting...~0'' @ newline);
                   STREAMClose S;
                   emit TermReset;
                   exit_process 1;
                   ret None }
                 else ret S) }
              else ret S)
           else do { TerminalPrint (''~r~eERROR: Failed to run command: ['' @ chars FullCmd @ '']~0'' @ newline); ret None }) }
        else do {
          (p, Token) \<leftarrow> lift_option (None, []) (GetToken Cmd (Some '' '') 0);
          TerminalPrint (''~r~eERROR: cmd '' @ [CHR 0x27] @ Token @ [CHR 0x27] @ '' unknown~0'' @ newline);
          ret None })
     }"

text \<open>The flags that a command to be run as root gets from the global flags.\<close>

definition RootFlags :: "cint \<Rightarrow> nat \<Rightarrow> cint \<Rightarrow> cint" where
  "RootFlags CmdFlags u g =
     (if has_flag CmdFlags CMD_ASROOT \<and> u \<noteq> 0
      then CmdFlags OR (if has_flag g FLAG_SU then CMD_SU else 0) OR (if has_flag g FLAG_SUDO then CMD_SUDO else 0)
      else CmdFlags)"

definition RunCommandOpen :: "cstr \<Rightarrow> cint \<Rightarrow> nat option io" where
  "RunCommandOpen Cmd CmdFlags =
     do {
       u \<leftarrow> getuid;
       g \<leftarrow> getflags;
       let Fl = RootFlags CmdFlags u g;
       emit (SetEnv ''LC_ALL'' ''C'');
       emit (SetEnv ''LANG'' ''C'');
       S \<leftarrow> (if has_flag Fl CMD_SUDO then RunCommandOpenTry Cmd Fl else ret None);
       (case S of
          Some i \<Rightarrow> ret (Some i)
        | None \<Rightarrow>
            (if has_flag Fl CMD_SUDO then do {
               TerminalPrint (''~y~e'sudo' invocation failed, attempting 'su'~0'' @ newline);
               setflags (\<lambda>g. g AND NOT CMD_SUDO);
               RunCommandOpenTry Cmd (Fl AND NOT CMD_SUDO) }
             else RunCommandOpenTry Cmd Fl))
     }"

definition RunCommand_body :: "string \<Rightarrow> unit \<Rightarrow> (unit \<times> bool) io" where
  "RunCommand_body Tempstr s =
     do {
       v \<leftarrow> flag_set FLAG_VERBOSE;
       (if v \<and> \<not> strneq Tempstr ''vpn-mgr-'' 8 then printf Tempstr else ret ());
       quit \<leftarrow> flag_set FLAG_EXIT;
       ret ((), quit)
     }"

definition RunCommand :: "cstr \<Rightarrow> cint \<Rightarrow> cint io" where
  "RunCommand Cmd Fl =
     do {
       S \<leftarrow> RunCommandOpen Cmd Fl;
       (case S of
          Some i \<Rightarrow> do {
            while_read (Some i) (STREAMReadLine (Some i)) RunCommand_body ();
            result \<leftarrow> RunCommandCleanUp (Some i) Fl;
            STREAMClose (Some i);
            ret result }
        | None \<Rightarrow> do { emit TermReset; exit_process 1; ret (- 1) })
     }"

section \<open>Monitored\<close>

context effects
begin

lemma FindCommands_keeps [intro!]: "keeps inv (FindCommands c)"
proof -
  have "keeps inv (FindCommands_loop xs p)" for xs p
    by (induction xs) (auto intro!: act_frame_keeps)
  then show ?thesis unfolding FindCommands_def by (auto intro!: act_frame_keeps)
qed

lemma GetCommandPath_keeps [intro!]: "keeps inv (GetCommandPath c)"
  unfolding GetCommandPath_def by (rule keeps_ask)

lemma RunCmdFormat_keeps [intro!]: "keeps inv (RunCmdFormat r c a f)"
  unfolding RunCmdFormat_def by auto

lemma RunCmdSetup_keeps [intro!]: "keeps inv (RunCmdSetup c f)"
  unfolding RunCmdSetup_def by auto

lemma TerminalReadPrompt_keeps [intro!]: "keeps inv (TerminalReadPrompt p)"
  unfolding TerminalReadPrompt_def by (rule keeps_act) (simp add: inv_event)

lemma PasswordTransact_keeps [intro!]: "keeps inv (RunCommandPasswordTransact d p S)"
  unfolding RunCommandPasswordTransact_def Let_def by (auto intro!: act_frame_keeps)

lemma ReadLoop_body_keeps [intro!]: "keeps inv (ReadLoop_body S d p t r)"
  unfolding ReadLoop_body_def ReadLoop_check_def Let_def by (intro keeps_bind keeps_if keeps_ret keeps_case_prod
      flag_set_keeps printf_keeps PasswordTransact_keeps)

lemma ReadLoop_keeps [intro!]: "keeps inv (RunCommandReadLoop S d p)"
  unfolding RunCommandReadLoop_def by auto

lemma waitpid_keeps [intro!]: "keeps inv (waitpid p)"
  unfolding waitpid_def by (rule keeps_act) (simp add: inv_event)

lemma CleanUp_keeps [intro!]: "keeps inv (RunCommandCleanUp S f)"
  unfolding RunCommandCleanUp_def Let_def by auto

lemma OpenTry_keeps [intro!]: "keeps inv (RunCommandOpenTry c f)"
  unfolding RunCommandOpenTry_def Let_def by (intro keeps_bind keeps_if keeps_ret keeps_case_prod getuid_keeps RunCmdSetup_keeps
      getflags_keeps TerminalPrint_keeps STREAMOpen_keeps ReadLoop_keeps STREAMClose_keeps emit_keeps exit_keeps lift_keeps)

lemma RunCommandOpen_keeps [intro!]: "keeps inv (RunCommandOpen c f)"
  unfolding RunCommandOpen_def Let_def
  by (intro keeps_bind keeps_if keeps_ret keeps_case_option getuid_keeps getflags_keeps emit_keeps OpenTry_keeps
      TerminalPrint_keeps nosudo_keeps [folded CMD_SUDO_FLAG_SUDO])

lemma RunCommand_keeps [intro!]: "keeps inv (RunCommand c f)"
  unfolding RunCommand_def RunCommand_body_def by auto

end

section \<open>Steps\<close>

lemma GetCommandPath_run [io_simps]:
  "run_state (GetCommandPath c) w = (if status w = Running \<and> FoundCommands w \<noteq> None then GetVar (FoundCommands w) c else [], w)"
  by (auto simp: GetCommandPath_def ask_run)

lemma RunCmdFormat_plain:
  "\<not> has_flag Fl CMD_SUDO \<Longrightarrow> \<not> has_flag Fl CMD_SU \<Longrightarrow>
   RunCmdFormat r path a Fl = ret (MCopyStr r [Some (if has_flag Fl CMD_SSH then '''' else ''cmd:''), Some path, Some '' '', a])"
  by (simp add: RunCmdFormat_def)

lemma write_runs [io_simps]:
  "run_state (STREAMWriteBytes So d) w = ((), if status w = Running
     then (case So of None \<Rightarrow> w | Some i \<Rightarrow> note_event (Wrote i d) w) else w)"
  "run_state (STREAMWriteLine l So) w = ((), if status w = Running \<and> StrValid l
     then (case So of None \<Rightarrow> w | Some i \<Rightarrow> note_event (Wrote i (chars l)) w) else w)"
  "run_state (STREAMFlush So) w = ((), if status w = Running
     then (case So of None \<Rightarrow> w\<lparr>status := Crashed\<rparr> | Some i \<Rightarrow> note_event (Flushed i) w) else w)"
  by (cases So; simp add: STREAMWriteBytes_def STREAMWriteLine_def STREAMFlush_def io_simps)+

lemma TerminalReadPrompt_run [io_simps]:
  "run_state (TerminalReadPrompt p) w = (if status w = Running
     then (sys_prompt (sys w) (trace w) p, note_event (Asked p) w) else (None, w))"
  by (simp add: TerminalReadPrompt_def act_run)

lemma GetVar_SetVar: "GetVar (SetVar (Some vs) k v) j = (if strcaseeq k j then v else GetVar (Some vs) j)"
  by (simp add: GetVar_def SetVar_def var_lookup_update)

lemma PasswordTransact_remembers:
  assumes "run_state (RunCommandPasswordTransact d p S) w = (RUN_CMD_OKAY, w1)" "status w1 = Running"
  shows "GetVar (Passwords w1) (d @ '' '' @ p) \<noteq> []"
proof (cases "GetVar (Passwords w) (d @ '' '' @ p) = [] \<and> status w = Running")
  case False
  with assms show ?thesis
    by (cases "status w = Running"; cases S)
      (auto simp: RunCommandPasswordTransact_def io_simps newline_def run_cmd_defs split: if_split_asm)
next
  case True
  show ?thesis
  proof (cases "Passwords w")
    case None
    with True assms show ?thesis
      by (cases S) (auto simp: RunCommandPasswordTransact_def io_simps newline_def run_cmd_defs GetVar_SetVar
          StrValid_chars split: if_split_asm)
  next
    case (Some vs)
    with True assms show ?thesis
      by (cases S) (auto simp: RunCommandPasswordTransact_def io_simps newline_def run_cmd_defs GetVar_SetVar
          StrValid_chars split: if_split_asm)
  qed
qed

lemma PasswordTransact_known:
  assumes "GetVar (Passwords w) (d @ '' '' @ p) \<noteq> []" "status w = Running"
  shows "fst (run_state (RunCommandPasswordTransact d p S) w) = RUN_CMD_OKAY"
    "\<exists>evs. trace (snd (run_state (RunCommandPasswordTransact d p S) w)) = trace w @ evs \<and> (\<forall>e \<in> set evs. \<forall>q. e \<noteq> Asked q)"
  using assms by (cases S; auto simp: RunCommandPasswordTransact_def io_simps newline_def)+

text \<open>As root the command is found and run as it is.\<close>

lemma and_not_self: "(g AND NOT f) AND f = (0::cint)"
  by (rule bit_eqI) (auto simp: bit_and_iff bit_not_iff)

lemma no_root_flags: "\<not> has_flag (Fl AND NOT (CMD_SUDO OR CMD_SU)) CMD_SUDO" "\<not> has_flag (Fl AND NOT (CMD_SUDO OR CMD_SU)) CMD_SU"
  "\<not> has_flag (Fl AND NOT (CMD_SUDO OR CMD_SU)) (CMD_SUDO OR CMD_SU)"
  unfolding has_flag_def and_not_self by (simp_all add: has_flag_def [symmetric]) (simp_all add: cmd_flag_defs flag_simps)

lemma no_root_ssh: "has_flag (Fl AND NOT (CMD_SUDO OR CMD_SU)) CMD_SSH \<longleftrightarrow> has_flag Fl CMD_SSH"
  by (simp add: cmd_flag_defs flag_simps)

lemma RunCmdSetup_plain:
  assumes "\<not> has_flag Fl CMD_SUDO" "\<not> has_flag Fl CMD_SU" "GetToken Cmd (Some [CHR 0x5C, CHR ''S'']) 0 = Some (a, Token)"
    "status w = Running"
  shows "run_state (RunCmdSetup Cmd Fl) w =
     ((let path = (if strneq Token ''/'' 1 then Token else GetVar (FoundCommands w) Token)
       in if path = [] then None
          else MCopyStr (Some []) [Some (if has_flag Fl CMD_SSH then '''' else ''cmd:''), Some path, Some '' '', a]), w)"
  using assms by (auto simp: RunCmdSetup_def io_simps RunCmdFormat_plain Let_def GetVar_def)

lemma RunCmdSetup_crash:
  assumes "GetToken Cmd (Some [CHR 0x5C, CHR ''S'']) 0 = None" "status w = Running"
  shows "run_state (RunCmdSetup Cmd Fl) w = (None, w\<lparr>status := Crashed\<rparr>)"
  using assms by (simp add: RunCmdSetup_def io_simps strneq_def)


section \<open>What the output of a starting command means\<close>

text \<open>The check string of one line of output, and what a line decides.\<close>

definition check_string :: "string \<Rightarrow> string" where
  "check_string l = StripTrailingWhitespace (StripLeadingWhitespace l)"

definition verdict :: "string \<Rightarrow> cint option" where
  "verdict c = (if strneq c ''Sorry'' 5 then Some RUN_CMD_AUTH_FAIL
     else if c = ''Authentication failure'' then Some RUN_CMD_AUTH_FAIL
     else if c = ''vpn-mgr-cmd-run'' then Some RUN_CMD_OKAY
     else if c = ''vpn-mgr-sudo-done'' \<or> c = ''vpn-mgr-su-done'' then Some RUN_CMD_BEGIN
     else None)"

fun classify :: "string list \<Rightarrow> cint" where
  "classify [] = RUN_CMD_BEGIN"
| "classify (l # ls) = (case verdict (check_string (l @ newline)) of Some v \<Rightarrow> v | None \<Rightarrow> classify ls)"

definition output_line :: "string \<Rightarrow> bool" where
  "output_line l \<longleftrightarrow> (\<forall>c \<in> set l. c \<noteq> CHR '':'' \<and> c \<noteq> CHR 0x0D \<and> c \<noteq> CHR 0x0A \<and> c \<noteq> CHR 0x00)
     \<and> \<not> strneq (check_string (l @ newline)) ''[sudo] password for'' 19"

lemma take_to_any_line:
  "\<forall>c \<in> set l. c \<noteq> CHR '':'' \<and> c \<noteq> CHR 0x0D \<and> c \<noteq> CHR 0x0A \<and> c \<noteq> CHR 0x00 \<Longrightarrow>
   take_to_any [CHR '':'', CHR 0x0D, CHR 0x0A] (l @ newline) = (l @ newline, [], True)"
  by (induction l) (auto simp: newline_def)

lemma read_line_chunk:
  assumes "streams w i = Some S" "st_buf S = []" "st_inputs S = Bytes (l @ newline) # is" "output_line l" "status w = Running"
  shows "run_state (STREAMReadToMultiTerminator [CHR '':'', CHR 0x0D, CHR 0x0A] (Some i)) w
       = (Some (l @ newline), w\<lparr>streams := (streams w)(i \<mapsto> S\<lparr>st_buf := [], st_inputs := is\<rparr>)\<rparr>)"
proof -
  have "read_to_multi [CHR '':'', CHR 0x0D, CHR 0x0A] [] (l @ newline) is = (Some (l @ newline), [], is, False)"
    using take_to_any_line [of l] assms(4) by (cases "is") (simp_all add: output_line_def)
  then show ?thesis
    using assms by (simp add: reads_Some stream_read_def io_simps)
qed

lemma check_string_last_colon:
  assumes "\<forall>c \<in> set l. c \<noteq> CHR '':''"
  shows "\<not> strneq (check_string (l @ newline)) ''Password:'' 9"
proof
  assume "strneq (check_string (l @ newline)) ''Password:'' 9"
  then have "take 9 (check_string (l @ newline)) = ''Password:''" by (simp add: strneq_def)
  then have "CHR '':'' \<in> set (check_string (l @ newline))" by (metis in_set_takeD list.set_intros(1) list.set_intros(2))
  moreover have "set (check_string (l @ newline)) \<subseteq> set (l @ newline)"
    unfolding check_string_def StripTrailingWhitespace_def StripLeadingWhitespace_def
    by (metis set_dropWhileD set_rev subsetI)
  ultimately show False using assms by (auto simp: newline_def)
qed

lemma body_line:
  assumes "output_line l" "status w = Running" "\<not> has_flag (GlobalFlags w) FLAG_EXIT"
  shows "\<exists>w'. run_state (ReadLoop_body S d p (l @ newline) RUN_CMD_BEGIN) w
     = ((case verdict (check_string (l @ newline)) of Some v \<Rightarrow> (v, True) | None \<Rightarrow> (RUN_CMD_BEGIN, False)), w')
     \<and> streams w' = streams w \<and> status w' = Running \<and> GlobalFlags w' = GlobalFlags w"
proof -
  have p: "\<not> strneq (check_string (l @ newline)) ''Password:'' 9"
    using assms(1) by (intro check_string_last_colon) (simp add: output_line_def)
  have s: "\<not> strneq (check_string (l @ newline)) ''[sudo] password for'' 19"
    using assms(1) by (simp add: output_line_def)
  have n: "l @ newline \<noteq> []" by (simp add: newline_def)
  define c where "c = check_string (l @ newline)"
  have c': "StripTrailingWhitespace (StripLeadingWhitespace (l @ newline)) = c" by (simp add: c_def check_string_def)
  show ?thesis
    using p s n assms(2,3) unfolding ReadLoop_body_def c_def [symmetric]
    by (simp add: io_simps c' ReadLoop_check_def verdict_def run_cmd_defs)
qed

lemma read_loop_classify:
  "streams w i = Some S \<Longrightarrow> st_buf S = [] \<Longrightarrow> st_inputs S = map (\<lambda>l. Bytes (l @ newline)) ls \<Longrightarrow>
   \<forall>l \<in> set ls. output_line l \<Longrightarrow> status w = Running \<Longrightarrow> \<not> has_flag (GlobalFlags w) FLAG_EXIT \<Longrightarrow> length ls < n \<Longrightarrow>
   fst (run_state (read_loop n (STREAMReadToMultiTerminator [CHR '':'', CHR 0x0D, CHR 0x0A] (Some i))
     (ReadLoop_body (Some i) d p) RUN_CMD_BEGIN) w) = classify ls"
proof (induction ls arbitrary: w S n)
  case Nil
  then obtain n' where "n = Suc n'" by (cases n) auto
  with Nil show ?case by (simp add: reads_Some stream_read_def io_simps)
next
  case (Cons l ls)
  then obtain n' where n: "n = Suc n'" "length ls < n'" by (cases n) auto
  let ?w = "w\<lparr>streams := (streams w)(i \<mapsto> S\<lparr>st_buf := [], st_inputs := map (\<lambda>l. Bytes (l @ newline)) ls\<rparr>)\<rparr>"
  have r: "run_state (STREAMReadToMultiTerminator [CHR '':'', CHR 0x0D, CHR 0x0A] (Some i)) w = (Some (l @ newline), ?w)"
    using Cons.prems by (intro read_line_chunk) auto
  have "output_line l" "status ?w = Running" "\<not> has_flag (GlobalFlags ?w) FLAG_EXIT" using Cons.prems by auto
  from body_line [OF this, of "Some i" d p] obtain w' where b:
    "run_state (ReadLoop_body (Some i) d p (l @ newline) RUN_CMD_BEGIN) ?w
       = ((case verdict (check_string (l @ newline)) of Some v \<Rightarrow> (v, True) | None \<Rightarrow> (RUN_CMD_BEGIN, False)), w')"
    "streams w' = streams ?w" "status w' = Running" "GlobalFlags w' = GlobalFlags ?w" by blast
  show ?case
  proof (cases "verdict (check_string (l @ newline))")
    case (Some v)
    with b show ?thesis by (simp add: n r)
  next
    case None
    have "fst (run_state (read_loop n' (STREAMReadToMultiTerminator [CHR '':'', CHR 0x0D, CHR 0x0A] (Some i))
        (ReadLoop_body (Some i) d p) RUN_CMD_BEGIN) w') = classify ls"
      using b n Cons.prems by (intro Cons.IH [of w' "S\<lparr>st_buf := [], st_inputs := map (\<lambda>l. Bytes (l @ newline)) ls\<rparr>"]) auto
    with None b show ?thesis by (simp add: n r)
  qed
qed

section \<open>Properties\<close>

text \<open>
C4. Root needs no help: for user id 0 a command is started as it is, never through \<open>sudo\<close> or \<open>su\<close>,
whatever flags are set. The only thing opened is the program found for the first word of the command,
with the rest of the command as its arguments.
\<close>

theorem RunCommandOpenTry_root:
  assumes "run_state (RunCommandOpenTry Cmd Fl) w = (S, w')" "status w = Running" "sys_uid (sys w) = 0"
    and "Opened p config r \<in> set (trace w')" "Opened p config r \<notin> set (trace w)"
  shows "\<exists>args Token path. GetToken Cmd (Some [CHR 0x5C, CHR ''S'']) 0 = Some (args, Token)
     \<and> path = (if strneq Token ''/'' 1 then Token else GetVar (FoundCommands w) Token) \<and> path \<noteq> []
     \<and> Some p = MCopyStr None [Some (if has_flag Fl CMD_SSH then '''' else ''cmd:''), Some path, Some '' '', args]"
proof (cases "GetToken Cmd (Some [CHR 0x5C, CHR ''S'']) 0")
  case None
  with assms show ?thesis
    by (simp add: RunCommandOpenTry_def io_simps RunCmdSetup_crash split: prod.splits option.splits) auto
next
  case (Some x)
  then obtain a Token where g: "GetToken Cmd (Some [CHR 0x5C, CHR ''S'']) 0 = Some (a, Token)" by (cases x) auto
  note st = RunCmdSetup_plain [OF no_root_flags(1,2) g assms(2)]
  define path where "path = (if strneq Token ''/'' 1 then Token else GetVar (FoundCommands w) Token)"
  show ?thesis
  proof (cases "path = []")
    case True
    with assms g st show ?thesis
      by (simp add: RunCommandOpenTry_def io_simps path_def Let_def split: prod.splits if_split_asm) auto
  next
    case False
    define Full where "Full = chars (MCopyStr None [Some (if has_flag Fl CMD_SSH then '''' else ''cmd:''), Some path, Some '' '', a])"
    have Full: "Full \<noteq> []" using False by (cases a) (simp_all add: Full_def MCopyStr_eq)
    have s: "run_state (RunCmdSetup Cmd (Fl AND NOT (CMD_SUDO OR CMD_SU))) w = (Some Full, w)"
      by (simp only: st path_def [symmetric] Let_def if_not_P [OF False] no_root_ssh Full_def MCopyStr_eq chars_simps)
    have "p = Full"
      using assms s Full
      by (auto simp: RunCommandOpenTry_def io_simps no_root_flags(3) [simplified] STREAMOpen_def open_record_def Let_def
          split: if_split_asm option.split_asm)
    then show ?thesis using g False by (auto simp: path_def Full_def MCopyStr_eq)
  qed
qed

theorem RunCommandOpenTry_root_witness:
  "\<exists>args Token path. GetToken (Some ''ip link'') (Some [CHR 0x5C, CHR ''S'']) 0 = Some (args, Token)
     \<and> path = ''/sbin/ip'' \<and> path \<noteq> [] \<and> Some ''cmd:/sbin/ip link'' = MCopyStr None [Some ''cmd:'', Some path, Some '' '', args]"
proof -
  let ?w = "(initial_world (silent_system\<lparr>sys_uid := 0, sys_open := \<lambda>_ _ _. Some ([], [])\<rparr>))
      \<lparr>FoundCommands := Some [(''ip'', ''/sbin/ip''), (''sudo'', ''/bin/sudo'')]\<rparr>"
  let ?r = "run_state (RunCommandOpenTry (Some ''ip link'') CMD_SUDO) ?w"
  have "Opened ''cmd:/sbin/ip link'' ''rw pty setsid +stderr'' (Some 0) \<in> set (trace (snd ?r))"
    by code_simp
  moreover have "trace ?w = []" "sys_uid (sys ?w) = 0" "status ?w = Running"
    by (simp_all add: initial_world_def silent_system_def)
  moreover have "GetToken (Some ''ip link'') (Some [CHR 0x5C, CHR ''S'']) 0 = Some (Some ''link'', ''ip'')"
    by code_simp
  moreover have "GetVar (FoundCommands ?w) ''ip'' = ''/sbin/ip''" "\<not> strneq ''ip'' ''/'' 1" "\<not> has_flag CMD_SUDO CMD_SSH" by code_simp+
  ultimately show ?thesis
    using RunCommandOpenTry_root [of "Some ''ip link''" CMD_SUDO ?w "fst ?r" "snd ?r"
        "''cmd:/sbin/ip link''" "''rw pty setsid +stderr''" "Some 0"]
    by simp
qed



text \<open>
\<open>RunCommand\<close> comes back only from a command that was started: if it returns to a running program,
the result is the outcome of the command (success or failure); if the command cannot be started the
process has exited.
\<close>

theorem RunCommand_returns_outcome:
  assumes "run_state (RunCommand Cmd Fl) w = (r, w')" "status w' = Running"
  shows "r = RUN_CMD_OKAY \<or> r = RUN_CMD_FAIL"
proof -
  obtain So w1 where o: "run_state (RunCommandOpen Cmd Fl) w = (So, w1)" by fastforce
  show ?thesis
  proof (cases So)
    case None
    with assms o show ?thesis by (auto simp: RunCommand_def io_simps split: if_split_asm)
  next
    case (Some i)
    obtain w2 where l: "run_state (while_read (Some i) (STREAMReadLine (Some i)) RunCommand_body ()) w1 = ((), w2)"
      by (metis old.unit.exhaust surj_pair)
    obtain x w3 where c: "run_state (RunCommandCleanUp (Some i) Fl) w2 = (x, w3)" by fastforce
    have "x = RUN_CMD_OKAY \<or> x = RUN_CMD_FAIL"
      using c by (auto simp: RunCommandCleanUp_def split: prod.splits if_split_asm)
    moreover have "r = x" using assms(1) o Some l c by (auto simp: RunCommand_def io_simps split: prod.splits)
    ultimately show ?thesis by simp
  qed
qed



section \<open>Witnesses\<close>


text \<open>Surroundings where \<open>sudo\<close> refuses and everything else starts.\<close>

definition refusing_sudo :: world where
  "refusing_sudo = (initial_world (silent_system\<lparr>sys_open := \<lambda>_ p _. if strneq p ''cmd:sudo'' 8
       then Some ([], [Bytes (''Sorry, try again.'' @ newline)]) else Some ([], [])\<rparr>))
     \<lparr>GlobalFlags := FLAG_SU OR FLAG_SUDO,
      FoundCommands := Some [(''ip'', ''/sbin/ip''), (''sudo'', ''/bin/sudo''), (''su'', ''/bin/su'')]\<rparr>"


theorem RunCommand_returns_outcome_witness:
  "fst (run_state (RunCommand (Some ''ip link'') CMD_ASROOT) refusing_sudo) \<in> {RUN_CMD_OKAY, RUN_CMD_FAIL}"
proof -
  have "status (snd (run_state (RunCommand (Some ''ip link'') CMD_ASROOT) refusing_sudo)) = Running"
    by code_simp
  then show ?thesis
    using RunCommand_returns_outcome [of "Some ''ip link''" CMD_ASROOT refusing_sudo] by (metis insertI1 insertI2 prod.collapse)
qed


end
