(* ===== verification/ConfigFiles.thy ===== *)
theory ConfigFiles
  imports VpnConfig RunCommand
begin

text \<open>
  The files of \<open>vpn_config.c\<close> and \<open>vpn_ctx.c\<close>: reading and writing a configuration, adding, listing and
  deleting one.  Making directories, copying, changing modes and removing a tree are recorded as
  operations on files.
\<close>

definition config_path :: "string \<Rightarrow> cstr \<Rightarrow> string" where
  "config_path home name =
     chars (MCopyStr None [Some home, Some ''/.config/vpn_mgr/'', name, Some ''/'', name, Some ''.conf''])"

section \<open>Reading\<close>

definition ReadConfig_body :: "string \<Rightarrow> string \<Rightarrow> TVpn \<Rightarrow> (TVpn \<times> bool) io" where
  "ReadConfig_body home Tempstr Vpn =
     do {
       r \<leftarrow> act (Some Vpn) (\<lambda>w.
         case ReadConfigLine home (Some (StripTrailingWhitespace Tempstr)) (Vpn, GlobalFlags w) of
           None \<Rightarrow> (None, w)
         | Some (Vpn', g) \<Rightarrow> (Some Vpn', w\<lparr>GlobalFlags := g\<rparr>));
       Vpn' \<leftarrow> lift_option Vpn r;
       ret (Vpn', False)
     }"

definition ReadConfig :: "TVpn \<Rightarrow> TVpn io" where
  "ReadConfig Vpn =
     do {
       home \<leftarrow> GetCurrUserHomeDir;
       S \<leftarrow> STREAMOpen (config_path home (Name Vpn)) ''r'';
       (case S of
          None \<Rightarrow> ret Vpn
        | Some i \<Rightarrow> do {
            Vpn' \<leftarrow> while_read (Some i) (STREAMReadLine (Some i)) (ReadConfig_body home) Vpn;
            STREAMClose (Some i);
            ret Vpn' })
     }"

section \<open>Writing\<close>

primrec WriteLines :: "string list \<Rightarrow> nat option \<Rightarrow> unit io" where
  "WriteLines [] S = ret ()"
| "WriteLines (t # ts) S = do { STREAMWriteLine (Some t) S; WriteLines ts S }"

definition WriteConfig :: "TVpn \<Rightarrow> unit io" where
  "WriteConfig Vpn =
     do {
       home \<leftarrow> GetCurrUserHomeDir;
       let path = chars (MCopyStr None [Some (home @ ''/''), Some ''/.config/vpn_mgr/'', Name Vpn, Some ''/'', Name Vpn, Some ''.conf'']);
       fileop ''MakeDirPath 0700'' [path];
       S \<leftarrow> STREAMOpen path ''w'';
       (case S of
          None \<Rightarrow> ret ()
        | Some i \<Rightarrow> do {
            g \<leftarrow> getflags;
            WriteLines (WriteConfigTexts home Vpn g) (Some i);
            STREAMClose (Some i) })
     }"

section \<open>Adding, listing, deleting\<close>

definition PathValid :: "cstr \<Rightarrow> bool io" where
  "PathValid Path =
     (if \<not> StrValid Path then ret False
      else do {
        f \<leftarrow> access (chars Path) CHR ''F'';
        (if \<not> f then do { printf (''ERROR: File ['' @ chars Path @ ''] does not exist'' @ newline); ret False }
         else do {
           r \<leftarrow> access (chars Path) CHR ''R'';
           (if \<not> r then do { printf (''ERROR: File ['' @ chars Path @ ''] is not readable'' @ newline); ret False }
            else ret True) }) })"

text \<open>One of the three key files: the field keeps its value unless the file is valid.\<close>

definition AddConfig_file :: "string \<Rightarrow> cstr \<Rightarrow> string \<Rightarrow> cstr \<Rightarrow> cstr io" where
  "AddConfig_file Dir name ext field =
     do {
       v \<leftarrow> PathValid field;
       (if v then do {
          let Tempstr = chars (MCopyStr None [Some Dir, name, Some ext]);
          fileop ''FileCopy'' [chars field, Tempstr];
          fileop ''chmod 0600'' [Tempstr];
          ret (CopyStr field (Some Tempstr)) }
        else ret field)
     }"

definition config_dir :: "string \<Rightarrow> cstr \<Rightarrow> string" where
  "config_dir home name = chars (MCopyStr None [Some home, Some ''/.config/vpn_mgr/'', name, Some ''/''])"

definition AddConfig :: "TVpn \<Rightarrow> TVpn io" where
  "AddConfig Vpn =
     do {
       home \<leftarrow> GetCurrUserHomeDir;
       let Dir = config_dir home (Name Vpn);
       fileop ''MakeDirPath 0700'' [Dir];
       crt \<leftarrow> AddConfig_file Dir (Name Vpn) ''.crt'' (ClientCert Vpn);
       key \<leftarrow> AddConfig_file Dir (Name Vpn) ''.key'' (ClientKey Vpn);
       srv \<leftarrow> AddConfig_file Dir (Name Vpn) ''.server'' (VerifyCert Vpn);
       let Vpn' = Vpn\<lparr>ClientCert := crt, ClientKey := key, VerifyCert := srv\<rparr>;
       WriteConfig Vpn';
       ret Vpn'
     }"

primrec ListConfigs_loop :: "string list \<Rightarrow> unit io" where
  "ListConfigs_loop [] = ret ()"
| "ListConfigs_loop (p # ps) =
     do {
       let name = StrRTruncChar (GetBasename (Some p)) CHR ''.'';
       (case VpnCtxCreate '''' (Some name) (Some '''') of
          None \<Rightarrow> crash
        | Some Vpn \<Rightarrow> do {
            Vpn' \<leftarrow> ReadConfig Vpn;
            printf (pct_s (Name Vpn') @ '' '' @ pct_s (Server Vpn') @ newline) });
       ListConfigs_loop ps
     }"

definition ListConfigs :: "unit io" where
  "ListConfigs =
     do {
       home \<leftarrow> GetCurrUserHomeDir;
       paths \<leftarrow> ask [] (\<lambda>w. sys_glob (sys w) (trace w) (home @ ''/.config/vpn_mgr/*/*.conf''));
       ListConfigs_loop paths
     }"

definition DeleteConfig :: "TVpn \<Rightarrow> unit io" where
  "DeleteConfig Vpn =
     do {
       home \<leftarrow> GetCurrUserHomeDir;
       fileop ''FileSystemRmDir'' [config_dir home (Name Vpn)]
     }"

section \<open>The other reader\<close>

text \<open>
  \<open>VpnCtxLoadConfig\<close> fills a context of its own, which the caller never sees, and always returns
  \<open>FALSE\<close>.
\<close>

definition LoadConfigLine :: "string \<Rightarrow> TVpn \<Rightarrow> TVpn option" where
  "LoadConfigLine Tempstr Vpn =
     do {
       (p, Key) \<leftarrow> GetToken (Some (StripTrailingWhitespace (StripLeadingWhitespace Tempstr))) (Some ''='') 0;
       let is = strcaseeq Key;
       let Vpn = (if is ''name'' then Vpn\<lparr>Name := CopyStr (Name Vpn) p\<rparr> else Vpn);
       let Vpn = (if is ''server'' then Vpn\<lparr>Server := CopyStr (Server Vpn) p\<rparr> else Vpn);
       let Vpn = (if is ''upfile'' then Vpn\<lparr>UpFile := CopyStr (UpFile Vpn) p\<rparr> else Vpn);
       let Vpn = (if is ''downfile'' then Vpn\<lparr>DownFile := CopyStr (DownFile Vpn) p\<rparr> else Vpn);
       let Vpn = (if is ''servercert'' then Vpn\<lparr>VerifyCert := CopyStr (VerifyCert Vpn) p\<rparr> else Vpn);
       let Vpn = (if is ''clientcert'' then Vpn\<lparr>ClientCert := CopyStr (ClientCert Vpn) p\<rparr> else Vpn);
       let Vpn = (if is ''clientkey'' then Vpn\<lparr>ClientKey := CopyStr (ClientKey Vpn) p\<rparr> else Vpn);
       Some Vpn
     }"

definition VpnCtxLoadConfig :: "TVpn \<Rightarrow> string \<Rightarrow> (TVpn \<times> bool) io" where
  "VpnCtxLoadConfig Vpn Path =
     do {
       S \<leftarrow> STREAMOpen Path ''r'';
       (case S of
          None \<Rightarrow> ret ()
        | Some i \<Rightarrow> do {
            while_read (Some i) (STREAMReadLine (Some i))
              (\<lambda>t V. do { V' \<leftarrow> lift_option V (LoadConfigLine t V); ret (V', False) })
              (the (VpnCtxCreate '''' (Some '''') (Some '''')));
            STREAMClose (Some i) });
       ret (Vpn, False)
     }"

section \<open>Monitored\<close>

lemma SuFlags_exit: "bit g 0 \<Longrightarrow> bit (SuFlags v FLAG_REMOTE_SU FLAG_REMOTE_SUDO g) 0"
  "bit g 0 \<Longrightarrow> bit (SuFlags v FLAG_LOCAL_SU FLAG_LOCAL_SUDO g) 0"
  by (simp_all add: SuFlags_def Let_def flag_simps)

lemma ConfigPair_exit: "bit (snd st) 0 \<Longrightarrow> bit (snd (ConfigPair home k v st)) 0"
  by (simp add: ConfigPair_def Let_def SuFlags_exit)

lemma ReadConfigLine_exit: "ReadConfigLine home l st = Some (V, g) \<Longrightarrow> bit (snd st) 0 \<Longrightarrow> bit g 0"
proof (induction home l st rule: ReadConfigLine.induct)
  case (1 home line st)
  show ?case
  proof (cases "GetNameValuePair line (Some '' '') (Some ''='')")
    case None
    with "1.prems" show ?thesis by (simp add: ReadConfigLine.simps [of home line])
  next
    case (Some x)
    obtain p key v where x: "x = (p, key, v)" by (metis prod_cases3)
    show ?thesis
    proof (cases p)
      case None
      with Some x "1.prems" show ?thesis by (simp add: ReadConfigLine.simps [of home line])
    next
      case p: (Some q)
      with Some x "1.prems"(1) have r: "ReadConfigLine home (Some q) (ConfigPair home key v st) = Some (V, g)"
        by (subst (asm) ReadConfigLine.simps [of home line]) simp
      show ?thesis
        using "1.IH" [OF Some x [symmetric] p refl r] "1.prems"(2) by (simp add: ConfigPair_exit)
    qed
  qed
qed

context effects
begin

lemma WriteConfig_keeps [intro!]: "keeps inv (WriteConfig V)"
proof -
  have "keeps inv (WriteLines ts S)" for ts S
    by (induction ts) auto
  then show ?thesis unfolding WriteConfig_def Let_def by auto
qed

lemma AddConfig_keeps [intro!]: "keeps inv (AddConfig V)"
  unfolding AddConfig_def AddConfig_file_def PathValid_def Let_def by auto

lemma DeleteConfig_keeps [intro!]: "keeps inv (DeleteConfig V)"
  unfolding DeleteConfig_def by auto

lemma VpnCtxLoadConfig_keeps [intro!]: "keeps inv (VpnCtxLoadConfig V p)"
  unfolding VpnCtxLoadConfig_def by auto

end

context monitor
begin

lemma ReadConfig_keeps [intro!]: "keeps inv (ReadConfig V)"
proof -
  have "keeps inv (ReadConfig_body h t V)" for h t V
    unfolding ReadConfig_body_def
    by (intro keeps_bind keeps_act keeps_ret lift_keeps)
      (auto split: option.split intro!: inv_flags dest: ReadConfigLine_exit)
  then show ?thesis unfolding ReadConfig_def by auto
qed

lemma ListConfigs_keeps [intro!]: "keeps inv ListConfigs"
proof -
  have "keeps inv (ListConfigs_loop ps)" for ps
    by (induction ps) (auto simp: Let_def split: option.split)
  then show ?thesis unfolding ListConfigs_def by auto
qed

end

section \<open>Steps\<close>

lemma GetCurrUserHomeDir_run [io_simps]:
  "run_state GetCurrUserHomeDir w = (if status w = Running then sys_home (sys w) else [], w)"
  by (simp add: GetCurrUserHomeDir_def ask_run)

lemma fileop_run [io_simps]: "run_state (fileop n xs) w = ((), if status w = Running then note_event (FileOp n xs) w else w)"
  by (simp add: fileop_def emit_run)

lemma ReadConfig_body_run:
  "status w = Running \<Longrightarrow> ReadConfigLine home (Some (StripTrailingWhitespace l)) (V, GlobalFlags w) = Some (V1, g1) \<Longrightarrow>
   run_state (ReadConfig_body home l V) w = ((V1, False), w\<lparr>GlobalFlags := g1\<rparr>)"
  by (simp add: ReadConfig_body_def io_simps)

lemma ReadConfig_loop:
  "streams w i = Some S \<Longrightarrow> content (st_inputs S) = Some c \<Longrightarrow> status w = Running \<Longrightarrow>
   ls = file_lines (st_buf S @ c) \<Longrightarrow> length ls < n \<Longrightarrow> ReadConfigLines home ls (V, GlobalFlags w) = Some (V', g') \<Longrightarrow>
   \<exists>w'. run_state (read_loop n (STREAMReadLine (Some i)) (ReadConfig_body home) V) w = (V', w')
      \<and> GlobalFlags w' = g' \<and> status w' = Running"
proof (induction ls arbitrary: w S c n V)
  case Nil
  then obtain n' where n: "n = Suc n'" by (cases n) auto
  from STREAMReadLine_content [OF Nil(1-3)] Nil show ?case by (auto simp: n)
next
  case (Cons l ls)
  from Cons.prems(5) obtain n' where n: "n = Suc n'" "length ls < n'" by (cases n) simp_all
  obtain V1 g1 where l: "ReadConfigLine home (Some (StripTrailingWhitespace l)) (V, GlobalFlags w) = Some (V1, g1)"
    and ls: "ReadConfigLines home ls (V1, g1) = Some (V', g')"
    using Cons.prems(6) by (auto simp: bind_eq_Some_conv)
  from STREAMReadLine_content [OF Cons.prems(1-3)] Cons.prems(4) obtain b' is' c' where
    r: "run_state (STREAMReadLine (Some i)) w = (Some l, w\<lparr>streams := (streams w)(i \<mapsto> S\<lparr>st_buf := b', st_inputs := is'\<rparr>)\<rparr>)"
    and c': "content is' = Some c'" "ls = file_lines (b' @ c')"
    by (auto split: list.splits)
  let ?w = "w\<lparr>streams := (streams w)(i \<mapsto> S\<lparr>st_buf := b', st_inputs := is'\<rparr>), GlobalFlags := g1\<rparr>"
  have "\<exists>w'. run_state (read_loop n' (STREAMReadLine (Some i)) (ReadConfig_body home) V1) ?w = (V', w')
      \<and> GlobalFlags w' = g' \<and> status w' = Running"
    by (rule Cons.IH [of ?w "S\<lparr>st_buf := b', st_inputs := is'\<rparr>" c']) (use Cons.prems n ls c' in simp_all)
  moreover have "run_state (ReadConfig_body home l V) (w\<lparr>streams := (streams w)(i \<mapsto> S\<lparr>st_buf := b', st_inputs := is'\<rparr>)\<rparr>)
     = ((V1, False), ?w)"
    using Cons.prems(3) l by (simp add: ReadConfig_body_run)
  ultimately show ?case using Cons.prems(3) r by (simp add: n io_simps)
qed

lemma ReadConfig_reads:
  assumes "status w = Running" "sys_open (sys w) (trace w) (config_path (sys_home (sys w)) (Name V)) ''r'' = Some (vs, is)"
    and "content is = Some text" "ReadConfigText (sys_home (sys w)) text (V, GlobalFlags w) = Some (V', g')"
  shows "\<exists>w'. run_state (ReadConfig V) w = (V', w') \<and> GlobalFlags w' = g' \<and> status w' = Running"
proof -
  let ?p = "config_path (sys_home (sys w)) (Name V)" and ?i = "next_stream w"
  let ?S = "\<lparr>st_buf = [], st_inputs = is, st_values = vs, st_items = []\<rparr>"
  let ?w = "note_event (Opened ?p ''r'' (Some ?i)) (w\<lparr>streams := (streams w)(?i \<mapsto> ?S), next_stream := Suc ?i\<rparr>)"
  have o: "run_state (STREAMOpen ?p ''r'') w = (Some ?i, ?w)"
    using assms(1,2) by (simp add: STREAMOpen_def io_simps open_record_def Let_def)
  have "length (file_lines text) \<le> pending_of ?w (Some ?i)"
    using file_lines_length [of "text"] content_size [OF assms(3)] by (simp add: pending_of_def stream_size_def)
  then have "\<exists>w'. run_state (read_loop (Suc (pending_of ?w (Some ?i))) (STREAMReadLine (Some ?i)) (ReadConfig_body (sys_home (sys w))) V) ?w
      = (V', w') \<and> GlobalFlags w' = g' \<and> status w' = Running"
    using assms by (intro ReadConfig_loop [where S = ?S and c = "text" and ls = "file_lines text"]) (simp_all add: ReadConfigText_def)
  then show ?thesis
    using assms(1) o by (auto simp: ReadConfig_def while_read_def io_simps STREAMClose_def simp del: read_loop.simps)
qed

lemma WriteLines_written:
  "status w = Running \<Longrightarrow> \<exists>evs. run_state (WriteLines ts (Some i)) w = ((), w\<lparr>trace := trace w @ evs\<rparr>) \<and> written i evs = concat ts"
proof (induction ts arbitrary: w)
  case Nil
  then show ?case by (intro exI [of _ "[]"]) (simp add: written_def io_simps)
next
  case (Cons t ts)
  let ?w = "if t \<noteq> [] then note_event (Wrote i t) w else w"
  have "status ?w = Running" using Cons.prems by simp
  from Cons.IH [OF this] obtain evs where
    "run_state (WriteLines ts (Some i)) ?w = ((), ?w\<lparr>trace := trace ?w @ evs\<rparr>)" "written i evs = concat ts" by blast
  then show ?case using Cons.prems
    by (intro exI [of _ "(if t \<noteq> [] then [Wrote i t] else []) @ evs"]) (auto simp: io_simps note_event_def written_def)
qed

lemma WriteConfig_written:
  assumes "status w = Running" "run_state (WriteConfig V) w = ((), w')"
    and "sys_open (sys w) (trace w @ [FileOp ''MakeDirPath 0700'' [path]]) path ''w'' \<noteq> None"
    and "path = chars (MCopyStr None [Some (sys_home (sys w) @ ''/''), Some ''/.config/vpn_mgr/'', Name V, Some ''/'', Name V, Some ''.conf''])"
  shows "\<exists>evs. trace w' = trace w @ evs \<and> written (next_stream w) evs = WriteConfigText (sys_home (sys w)) V (GlobalFlags w)"
proof -
  obtain vs "is" where o: "sys_open (sys w) (trace w @ [FileOp ''MakeDirPath 0700'' [path]]) path ''w'' = Some (vs, is)"
    using assms(3) by auto
  let ?i = "next_stream w"
  let ?w = "note_event (Opened path ''w'' (Some ?i)) ((note_event (FileOp ''MakeDirPath 0700'' [path]) w)
     \<lparr>streams := (streams w)(?i \<mapsto> \<lparr>st_buf = [], st_inputs = is, st_values = vs, st_items = []\<rparr>), next_stream := Suc ?i\<rparr>)"
  have "status ?w = Running" using assms(1) by simp
  from WriteLines_written [OF this, of "WriteConfigTexts (sys_home (sys w)) V (GlobalFlags w)" ?i] obtain evs where
    l: "run_state (WriteLines (WriteConfigTexts (sys_home (sys w)) V (GlobalFlags w)) (Some ?i)) ?w = ((), ?w\<lparr>trace := trace ?w @ evs\<rparr>)"
    "written ?i evs = concat (WriteConfigTexts (sys_home (sys w)) V (GlobalFlags w))" by blast
  have "w' = note_event (Closed ?i) (?w\<lparr>trace := trace ?w @ evs, streams := (streams ?w)(?i := None)\<rparr>)"
    using assms(1,2) l(1) o
    by (simp add: WriteConfig_def assms(4) [symmetric] io_simps STREAMOpen_def open_record_def Let_def STREAMClose_def)
  then show ?thesis using l(2)
    by (intro exI [of _ "[FileOp ''MakeDirPath 0700'' [path], Opened path ''w'' (Some ?i)] @ evs @ [Closed ?i]"])
      (simp add: written_def WriteConfigText_def)
qed

lemma config_path_double_slash:
  "chars (MCopyStr None [Some (home @ ''/''), Some ''/.config/vpn_mgr/'', Some n, Some ''/'', Some n, Some ''.conf''])
   = home @ ''//.config/vpn_mgr/'' @ n @ ''/'' @ n @ ''.conf''"
  "config_path home (Some n) = home @ ''/.config/vpn_mgr/'' @ n @ ''/'' @ n @ ''.conf''"
  by (simp_all add: MCopyStr_eq config_path_def)

lemma DeleteConfig_run:
  "status w = Running \<Longrightarrow> Name V = Some n \<Longrightarrow>
   run_state (DeleteConfig V) w
   = ((), note_event (FileOp ''FileSystemRmDir'' [sys_home (sys w) @ ''/.config/vpn_mgr/'' @ n @ ''/'']) w)"
  by (simp add: DeleteConfig_def config_dir_def io_simps MCopyStr_eq)

section \<open>Correctness\<close>


definition office :: TVpn where
  "office = TVpn_zero\<lparr>Name := Some ''work'', Server := Some ''ppp.ssh:gw'', UserName := Some ''bob''\<rparr>"

definition saving_world :: world where
  "saving_world = initial_world (silent_system\<lparr>sys_open := \<lambda>_ _ _. Some ([], [])\<rparr>)"

definition saved_text :: string where
  "saved_text = ''Server=ppp.ssh:gw'' @ newline @ ''UserName=bob'' @ newline @ ''LocalSU=none'' @ newline
     @ ''RemoteSU=none'' @ newline"

definition loading_world :: world where
  "loading_world = initial_world (silent_system\<lparr>sys_open := \<lambda>_ _ _.
     Some ([], [Bytes (take 9 saved_text), Bytes (drop 9 saved_text)])\<rparr>)"


end
