(* ===== verification/Route.thy ===== *)
theory Route
  imports RunCommand PlainTokens
begin

text \<open>
  \<open>route.c\<close>: the routing table of the kernel, read from \<open>/proc/net/route\<close>, and the \<open>route\<close> commands the
  program runs.
\<close>

section \<open>Addresses\<close>

text \<open>\<open>e\<close> is the offset of the end of the piece at \<open>ptr\<close>, that is \<open>ptr + 2 - Addr\<close>.\<close>

fun RouteParseHex_loop :: "string \<Rightarrow> nat \<Rightarrow> string \<Rightarrow> string" where
  "RouteParseHex_loop Addr e RetStr =
     (if e < 2 then RetStr
      else (let val = word_of_int (strtol 16 (take 2 (drop (e - 2) Addr)));
                RetStr' = (if RetStr \<noteq> [] then RetStr @ ''.'' else RetStr)
            in RouteParseHex_loop Addr (e - 2) (RetStr' @ fmt_d val)))"

declare RouteParseHex_loop.simps [simp del]

definition RouteParseHexAddress :: "cstr \<Rightarrow> string" where
  "RouteParseHexAddress Addr = RouteParseHex_loop (chars Addr) (StrLen Addr) []"

section \<open>The default route\<close>

definition RouteGetDefault_body :: "string \<Rightarrow> string \<Rightarrow> (string \<times> bool) io" where
  "RouteGetDefault_body Tempstr RetStr =
     do {
       (p, dev) \<leftarrow> lift_option (None, []) (GetToken (Some Tempstr) (Some backslash_S) 0);
       (p, Token) \<leftarrow> lift_option (None, []) (GetToken p (Some backslash_S) 0);
       (if RouteParseHexAddress (Some Token) = ''0.0.0.0'' then do {
          (p, Token) \<leftarrow> lift_option (None, []) (GetToken p (Some backslash_S) 0);
          ret (RouteParseHexAddress (Some Token), False) }
        else ret (RetStr, False))
     }"

definition RouteGetDefault :: "string io" where
  "RouteGetDefault =
     do {
       S \<leftarrow> STREAMOpen ''/proc/net/route'' ''r'';
       (case S of
          None \<Rightarrow> ret []
        | Some i \<Rightarrow> do {
            STREAMReadLine (Some i);
            RetStr \<leftarrow> while_read (Some i) (STREAMReadLine (Some i)) RouteGetDefault_body [];
            STREAMClose (Some i);
            ret RetStr })
     }"

definition RouteGetDefaultDev_body :: "string \<Rightarrow> string \<Rightarrow> (string \<times> bool) io" where
  "RouteGetDefaultDev_body Tempstr RetStr =
     do {
       (p, dev) \<leftarrow> lift_option (None, []) (GetToken (Some Tempstr) (Some backslash_S) 0);
       (p, Token) \<leftarrow> lift_option (None, []) (GetToken p (Some backslash_S) 0);
       ret (if Token = ''00000000'' then dev else RetStr, False)
     }"

definition RouteGetDefaultDev :: "string io" where
  "RouteGetDefaultDev =
     do {
       S \<leftarrow> STREAMOpen ''/proc/net/route'' ''r'';
       (case S of
          None \<Rightarrow> ret []
        | Some i \<Rightarrow> do {
            STREAMReadLine (Some i);
            RetStr \<leftarrow> while_read (Some i) (STREAMReadLine (Some i)) RouteGetDefaultDev_body [];
            STREAMClose (Some i);
            ret RetStr })
     }"

section \<open>Setting routes\<close>

definition RouteSetupVpnServer :: "cstr \<Rightarrow> unit io" where
  "RouteSetupVpnServer DestAddress =
     do {
       Router \<leftarrow> RouteGetDefault;
       TerminalPrint (''~mROUTE:~0 Add route for vpn server ['' @ pct_s DestAddress @ ''] via gateway ['' @ Router @ '']'' @ newline);
       RunCommand (MCopyStr None [Some ''route add -host '', DestAddress, Some '' gw '', Some Router]) CMD_ASROOT;
       ret ()
     }"

definition RouteCommand :: "string \<Rightarrow> cstr \<Rightarrow> cstr" where
  "RouteCommand Address dev =
     (if Address = ''default'' \<or> Address = ''all'' then MCopyStr None [Some ''route add default '', dev]
      else if strchr Address CHR ''/'' \<noteq> None then MCopyStr None [Some ''route add -net '', Some Address, Some '' '', dev]
      else MCopyStr None [Some ''route add -host '', Some Address, Some '' '', dev])"

definition RouteSetup_body :: "cstr \<Rightarrow> string \<Rightarrow> unit io" where
  "RouteSetup_body dev Token =
     do {
       let Address = StripTrailingWhitespace (StripLeadingWhitespace Token);
       TerminalPrint (''~mROUTE:~0 Add route for ['' @ Address @ ''] via the VPN'' @ newline);
       RunCommand (RouteCommand Address dev) CMD_ASROOT;
       ret ()
     }"

definition RouteSetup :: "cstr \<Rightarrow> cstr \<Rightarrow> unit io" where
  "RouteSetup DestAddressList dev = for_tokens (Some '','') GETTOKEN_QUOTES DestAddressList (RouteSetup_body dev)"

definition DefaultDevGetMTU :: "string io" where
  "DefaultDevGetMTU =
     do {
       DefaultDev \<leftarrow> RouteGetDefaultDev;
       ReadFile (MCopyStr None [Some ''/sys/class/net/'', Some DefaultDev, Some ''/mtu''])
     }"

context effects
begin

lemma RouteGetDefault_keeps [intro!]: "keeps inv RouteGetDefault"
  unfolding RouteGetDefault_def RouteGetDefault_body_def by auto

lemma RouteGetDefaultDev_keeps [intro!]: "keeps inv RouteGetDefaultDev"
  unfolding RouteGetDefaultDev_def RouteGetDefaultDev_body_def by auto

lemma RouteSetupVpnServer_keeps [intro!]: "keeps inv (RouteSetupVpnServer a)"
  unfolding RouteSetupVpnServer_def by auto

lemma RouteSetup_keeps [intro!]: "keeps inv (RouteSetup a d)"
  unfolding RouteSetup_def RouteSetup_body_def Let_def by auto

lemma DefaultDevGetMTU_keeps [intro!]: "keeps inv DefaultDevGetMTU"
  unfolding DefaultDevGetMTU_def by auto

end

section \<open>What the table says\<close>

text \<open>The first, second and third column of a line.\<close>

definition column1 :: "string \<Rightarrow> string" where "column1 l = snd (token (Some l) backslash_S)"
definition column2 :: "string \<Rightarrow> string" where
  "column2 l = snd (token (fst (token (Some l) backslash_S)) backslash_S)"
definition column3 :: "string \<Rightarrow> string" where
  "column3 l = snd (token (fst (token (fst (token (Some l) backslash_S)) backslash_S)) backslash_S)"

lemma RouteGetDefaultDev_body_run:
  "run_state (RouteGetDefaultDev_body l s) w = ((if column2 l = ''00000000'' then column1 l else s, False), w)"
  by (simp add: RouteGetDefaultDev_body_def GetToken_token column1_def column2_def io_simps split: prod.split)

lemma RouteGetDefault_body_run:
  "run_state (RouteGetDefault_body l s) w =
   ((if RouteParseHexAddress (Some (column2 l)) = ''0.0.0.0'' then RouteParseHexAddress (Some (column3 l)) else s, False), w)"
  by (simp add: RouteGetDefault_body_def GetToken_token column2_def column3_def io_simps split: prod.split)

definition last_match :: "(string \<Rightarrow> bool) \<Rightarrow> (string \<Rightarrow> string) \<Rightarrow> string list \<Rightarrow> string" where
  "last_match p f ls = (case rev (filter p ls) of [] \<Rightarrow> [] | l # _ \<Rightarrow> f l)"

lemma fold_last_match:
  "fold (\<lambda>l s. if p l then f l else s) ls s = (if \<exists>l \<in> set ls. p l then last_match p f ls else s)"
  by (induction ls rule: rev_induct) (auto simp: last_match_def)

lemma fold_last_match_Nil: "fold (\<lambda>l s. if p l then f l else s) ls [] = last_match p f ls"
proof (cases "\<exists>l \<in> set ls. p l")
  case False
  then have "filter p ls = []" by (simp add: filter_empty_conv)
  then show ?thesis using False by (simp add: fold_last_match last_match_def)
qed (simp add: fold_last_match)

lemma RouteGetDefaultDev_run:
  assumes "status w = Running" "sys_open (sys w) (trace w) ''/proc/net/route'' ''r'' = Some (vs, is)" "content is = Some c"
  shows "run_state RouteGetDefaultDev w
    = (last_match (\<lambda>l. column2 l = ''00000000'') column1 (tl (file_lines c)), visited w ''/proc/net/route'' ''r'')"
  unfolding RouteGetDefaultDev_def
  by (subst read_file_tail [OF assms, where step = "\<lambda>l s. if column2 l = ''00000000'' then column1 l else s"])
    (simp_all add: RouteGetDefaultDev_body_run fold_last_match_Nil)

lemma RouteGetDefault_run:
  assumes "status w = Running" "sys_open (sys w) (trace w) ''/proc/net/route'' ''r'' = Some (vs, is)" "content is = Some c"
  shows "run_state RouteGetDefault w
    = (last_match (\<lambda>l. RouteParseHexAddress (Some (column2 l)) = ''0.0.0.0'') (\<lambda>l. RouteParseHexAddress (Some (column3 l)))
         (tl (file_lines c)), visited w ''/proc/net/route'' ''r'')"
  unfolding RouteGetDefault_def
  by (subst read_file_tail [OF assms, where step = "\<lambda>l s. if RouteParseHexAddress (Some (column2 l)) = ''0.0.0.0''
        then RouteParseHexAddress (Some (column3 l)) else s"])
    (simp_all add: RouteGetDefault_body_run fold_last_match_Nil)

section \<open>Addresses as the kernel prints them\<close>

definition hex_digit :: "nat \<Rightarrow> char" where "hex_digit n = ''0123456789ABCDEF'' ! n"

definition hex_byte :: "nat \<Rightarrow> string" where "hex_byte b = [hex_digit (b div 16), hex_digit (b mod 16)]"

primrec dotted :: "nat list \<Rightarrow> string" where
  "dotted [] = []"
| "dotted (b # bs) = fmt_int (int b) @ (if bs = [] then [] else ''.'' @ dotted bs)"

lemma hex_digit_simps:
  assumes "d < 16"
  shows "digit_val (hex_digit d) = int d" "\<not> isspace (hex_digit d)" "hex_digit d \<noteq> CHR ''-''" "hex_digit d \<noteq> CHR ''+''"
proof -
  have "list_all (\<lambda>d. digit_val (hex_digit d) = int d \<and> \<not> isspace (hex_digit d) \<and> hex_digit d \<noteq> CHR ''-''
      \<and> hex_digit d \<noteq> CHR ''+'') [0..<16]"
    by code_simp
  then show "digit_val (hex_digit d) = int d" "\<not> isspace (hex_digit d)" "hex_digit d \<noteq> CHR ''-''" "hex_digit d \<noteq> CHR ''+''"
    using assms by (simp_all add: list_all_iff)
qed

lemma strtol_hex_byte: "b < 256 \<Longrightarrow> strtol 16 (hex_byte b) = int b"
proof -
  assume b: "b < 256"
  then have d: "b div 16 < 16" "b mod 16 < 16" by auto
  have "scan_int 16 (hex_byte b) = (False, int (b div 16) * 16 + int (b mod 16), [])"
    by (simp add: scan_int_def hex_byte_def hex_digit_simps [OF d(1)] hex_digit_simps [OF d(2)] scan_sign_def scan_0x_def d Let_def)
  moreover have "int (b div 16) * 16 + int (b mod 16) = int b"
    by presburger
  ultimately show ?thesis using b by (simp add: strtol_def)
qed

lemma fmt_d_byte: "b < 256 \<Longrightarrow> fmt_d (word_of_nat b) = fmt_int (int b)"
proof -
  assume "b < 256"
  then have "sint (word_of_nat b :: cint) = int b" by (simp add: signed_of_nat signed_take_bit_int_eq_self)
  then show ?thesis by (simp add: fmt_d_def)
qed

lemma hex_piece: "k < length bs \<Longrightarrow> take 2 (drop (2 * k) (concat (map hex_byte bs))) = hex_byte (bs ! k)"
proof (induction bs arbitrary: k)
  case (Cons b bs)
  then show ?case by (cases k) (auto simp: hex_byte_def)
qed simp

lemma fmt_int_nonempty [simp]: "fmt_int n \<noteq> []"
  by (simp add: fmt_int_def)

lemma RouteParseHex_loop_bytes:
  "k \<le> length bs \<Longrightarrow> \<forall>b \<in> set bs. b < 256 \<Longrightarrow>
   RouteParseHex_loop (concat (map hex_byte bs)) (2 * k) R
   = (if k = 0 then R else (if R = [] then [] else R @ ''.'') @ dotted (rev (take k bs)))"
proof (induction k arbitrary: R)
  case 0
  then show ?case by (simp add: RouteParseHex_loop.simps)
next
  case (Suc k)
  let ?A = "concat (map hex_byte bs)" and ?b = "fmt_int (int (bs ! k))"
  have b: "bs ! k < 256" using Suc.prems by simp
  have "RouteParseHex_loop ?A (2 * Suc k) R = RouteParseHex_loop ?A (2 * k) ((if R \<noteq> [] then R @ ''.'' else R) @ ?b)"
    using Suc.prems by (subst RouteParseHex_loop.simps) (simp add: hex_piece strtol_hex_byte [OF b] fmt_d_byte [OF b])
  also have "\<dots> = (if k = 0 then (if R \<noteq> [] then R @ ''.'' else R) @ ?b
      else ((if R \<noteq> [] then R @ ''.'' else R) @ ?b @ ''.'') @ dotted (rev (take k bs)))"
    using Suc by simp
  also have "\<dots> = (if R = [] then [] else R @ ''.'') @ dotted (rev (take (Suc k) bs))"
    using Suc.prems by (auto simp: take_Suc_conv_app_nth)
  finally show ?case by simp
qed

section \<open>Correctness\<close>

text \<open>
\<open>RouteParseHexAddress\<close> turns the hexadecimal bytes of an address, as the kernel prints them with the
lowest byte first, into dotted decimals in the order people write them, for any number of bytes.
\<close>

theorem RouteParseHexAddress_dotted:
  assumes "\<forall>b \<in> set bs. b < 256"
  shows "RouteParseHexAddress (Some (concat (map hex_byte bs))) = dotted (rev bs)"
proof -
  have "length (concat (map hex_byte bs)) = 2 * length bs"
    by (induction bs) (simp_all add: hex_byte_def)
  then show ?thesis
    using RouteParseHex_loop_bytes [of "length bs" bs "[]"] assms by (simp add: RouteParseHexAddress_def StrLen_def)
qed

theorem RouteParseHexAddress_dotted_witness:
  "RouteParseHexAddress (Some (concat (map hex_byte [1, 2, 168, 192]))) = dotted [192, 168, 2, 1]"
  using RouteParseHexAddress_dotted [of "[1, 2, 168, 192]"] by simp

text \<open>
C18. The default device is the first column of the last route, after the header line, whose destination
is \<open>00000000\<close>, and the default gateway the third column of the last one whose destination reads
\<open>0.0.0.0\<close>, as dotted decimals; both are empty if there is no such route, and reading them leaves no stream
open.
\<close>

theorem RouteGetDefault_last_route:
  assumes "status w = Running" "sys_open (sys w) (trace w) ''/proc/net/route'' ''r'' = Some (vs, is)" "content is = Some c"
  shows "run_state RouteGetDefaultDev w
      = (last_match (\<lambda>l. column2 l = ''00000000'') column1 (tl (file_lines c)), visited w ''/proc/net/route'' ''r'')
    \<and> run_state RouteGetDefault w
      = (last_match (\<lambda>l. RouteParseHexAddress (Some (column2 l)) = ''0.0.0.0'')
           (\<lambda>l. RouteParseHexAddress (Some (column3 l))) (tl (file_lines c)), visited w ''/proc/net/route'' ''r'')"
  using RouteGetDefaultDev_run [OF assms] RouteGetDefault_run [OF assms] by simp

definition tab :: string where "tab = [CHR 0x09]"

definition route_table :: string where
  "route_table = ''Iface'' @ tab @ ''Destination'' @ tab @ ''Gateway'' @ newline
     @ ''eth0'' @ tab @ ''00000000'' @ tab @ ''0102A8C0'' @ tab @ ''0003'' @ newline
     @ ''eth0'' @ tab @ ''0002A8C0'' @ tab @ ''00000000'' @ tab @ ''0001'' @ newline"

definition routed_world :: world where
  "routed_world = initial_world (silent_system\<lparr>sys_open := \<lambda>_ _ _. Some ([], [Bytes (take 7 route_table), Bytes (drop 7 route_table)])\<rparr>)"

theorem RouteGetDefault_last_route_witness:
  "run_state RouteGetDefaultDev routed_world = (''eth0'', visited routed_world ''/proc/net/route'' ''r'')
   \<and> run_state RouteGetDefault routed_world = (''192.168.2.1'', visited routed_world ''/proc/net/route'' ''r'')"
proof -
  have w: "status routed_world = Running"
    "sys_open (sys routed_world) (trace routed_world) ''/proc/net/route'' ''r''
      = Some ([], [Bytes (take 7 route_table), Bytes (drop 7 route_table)])"
    "content [Bytes (take 7 route_table), Bytes (drop 7 route_table)] = Some route_table"
    by (simp_all add: routed_world_def initial_world_def)
  have "last_match (\<lambda>l. column2 l = ''00000000'') column1 (tl (file_lines route_table)) = ''eth0''"
    "last_match (\<lambda>l. RouteParseHexAddress (Some (column2 l)) = ''0.0.0.0'')
       (\<lambda>l. RouteParseHexAddress (Some (column3 l))) (tl (file_lines route_table)) = ''192.168.2.1''"
    by code_simp+
  with RouteGetDefault_last_route [OF w] show ?thesis by simp
qed

end
