(* ===== verification/Resolv.thy ===== *)
theory Resolv
  imports RunCommand
begin

text \<open>\<open>resolv.c\<close>: replacing \<open>/etc/resolv.conf\<close> and putting it back.  The two functions have no return value.\<close>

definition ResolvPath :: "nat \<Rightarrow> string" where
  "ResolvPath pid = ''/tmp/vpn_mgr-'' @ fmt_int (int pid) @ ''.resolv.conf''"

definition ResolvChange :: "cstr \<Rightarrow> unit io" where
  "ResolvChange Nameservers =
     do {
       pid \<leftarrow> ask 0 (\<lambda>w. sys_pid (sys w));
       let Path = ResolvPath pid;
       S \<leftarrow> STREAMOpen Path ''w'';
       (case S of
          None \<Rightarrow> ret ()
        | Some i \<Rightarrow> do {
            for_tokens (Some '','') 0 Nameservers
              (\<lambda>Token. STREAMWriteLine (MCopyStr None [Some ''nameserver '', Some Token, Some newline]) (Some i));
            STREAMClose (Some i) });
       RunCommand (Some ''mv /etc/resolv.conf /etc/vpn_mgr.resolv.save'') CMD_ASROOT;
       RunCommand (MCopyStr None [Some ''mv -f '', Some Path, Some '' /etc/resolv.conf'']) CMD_ASROOT;
       ret ()
     }"

definition ResolvRestore :: "unit io" where
  "ResolvRestore =
     do {
       RunCommand (Some ''mv /etc/vpn_mgr.resolv.save /etc/resolv.conf'') CMD_ASROOT;
       ret ()
     }"

context effects
begin

lemma ResolvChange_keeps [intro!]: "keeps inv (ResolvChange n)"
  unfolding ResolvChange_def Let_def by auto

lemma ResolvRestore_keeps [intro!]: "keeps inv ResolvRestore"
  unfolding ResolvRestore_def by auto

end

end
