(* ===== verification/Net.thy ===== *)
theory Net
  imports Route Resolv
begin

text \<open>
  \<open>net.c\<close>: the network devices, as \<open>/proc/net/dev\<close> lists them, and their configuration.  The list of named
  items that \<open>NetLoadDevices\<close> builds is a list of pairs; the tag of an item with an empty name is \<open>NULL\<close>.
\<close>

definition GetInterfaceIP :: "string \<Rightarrow> cstr io" where
  "GetInterfaceIP Iface = ask None (\<lambda>w. sys_ifaddr (sys w) (trace w) Iface)"

section \<open>The devices\<close>

definition NetLoadDevices_body :: "string \<Rightarrow> (string \<times> string) list \<Rightarrow> ((string \<times> string) list \<times> bool) io" where
  "NetLoadDevices_body Tempstr Devs =
     do {
       let Tempstr = StripTrailingWhitespace (StripLeadingWhitespace Tempstr);
       (p, Iface) \<leftarrow> lift_option (None, []) (GetToken (Some Tempstr) (Some '':'') 0);
       ip \<leftarrow> GetInterfaceIP Iface;
       ret (Devs @ [(Iface, chars (CopyStr None ip))], False)
     }"

definition NetLoadDevices :: "(string \<times> string) list io" where
  "NetLoadDevices =
     do {
       S \<leftarrow> STREAMOpen ''/proc/net/dev'' ''r'';
       (case S of
          None \<Rightarrow> ret []
        | Some i \<Rightarrow> do {
            Devs \<leftarrow> while_read (Some i) (STREAMReadLine (Some i)) NetLoadDevices_body [];
            STREAMClose (Some i);
            ret Devs })
     }"

text \<open>\<open>ListFindNamedItem\<close> compares without regard to case, and an empty name with a \<open>NULL\<close> tag as equal.\<close>

definition ListHasItem :: "(string \<times> string) list \<Rightarrow> cstr \<Rightarrow> bool" where
  "ListHasItem Devs Iface = list_ex (\<lambda>(t, _). CompareStrNoCase_eq (if t = [] then None else Some t) Iface) Devs"

definition NetDevExists :: "cstr \<Rightarrow> bool io" where
  "NetDevExists Iface = do { Devs \<leftarrow> NetLoadDevices; ret (ListHasItem Devs Iface) }"

primrec NetDevFindNext_loop :: "string \<Rightarrow> nat list \<Rightarrow> string io" where
  "NetDevFindNext_loop Prefix [] = ret []"
| "NetDevFindNext_loop Prefix (i # is) =
     do {
       let RetStr = Prefix @ fmt_int (int i);
       e \<leftarrow> NetDevExists (Some RetStr);
       (if \<not> e then ret RetStr else NetDevFindNext_loop Prefix is)
     }"

definition NetDevFindNext :: "string \<Rightarrow> string io" where
  "NetDevFindNext Prefix = NetDevFindNext_loop Prefix [0..<999]"

definition NetGetDefaultIP :: "string io" where
  "NetGetDefaultIP = do { d \<leftarrow> RouteGetDefaultDev; ip \<leftarrow> GetInterfaceIP d; ret (chars (CopyStr (Some []) ip)) }"

text \<open>
  \<^term>\<open>None\<close> is the \<open>strncmp\<close> of a \<open>NULL\<close> tag or the \<open>strcmp\<close> with a \<open>NULL\<close> address.
\<close>

fun NetDevFindForIP_loop :: "string \<Rightarrow> cstr \<Rightarrow> (string \<times> string) list \<Rightarrow> string option" where
  "NetDevFindForIP_loop Prefix IP [] = Some []"
| "NetDevFindForIP_loop Prefix IP ((t, ip) # Devs) =
     (if t = [] then None
      else if strneq t Prefix (length Prefix)
      then (case IP of
              None \<Rightarrow> None
            | Some a \<Rightarrow> if ip = a then Some t else NetDevFindForIP_loop Prefix IP Devs)
      else NetDevFindForIP_loop Prefix IP Devs)"

definition NetDevFindForIP :: "string \<Rightarrow> cstr \<Rightarrow> string io" where
  "NetDevFindForIP Prefix IP = do { Devs \<leftarrow> NetLoadDevices; lift_option [] (NetDevFindForIP_loop Prefix IP Devs) }"

definition DevsIPExists :: "(string \<times> string) list \<Rightarrow> string \<Rightarrow> bool" where
  "DevsIPExists Devs IP = list_ex (\<lambda>(_, ip). ip = IP) Devs"

primrec NetDevFindNextIP_loop :: "(string \<times> string) list \<Rightarrow> string \<Rightarrow> nat list \<Rightarrow> string" where
  "NetDevFindNextIP_loop Devs Prefix [] = []"
| "NetDevFindNextIP_loop Devs Prefix (c # cs) =
     (let Tempstr = Prefix @ ''.'' @ fmt_int (int c)
      in if \<not> DevsIPExists Devs Tempstr then Tempstr else NetDevFindNextIP_loop Devs Prefix cs)"

definition NetDevFindNextIP :: "string \<Rightarrow> string io" where
  "NetDevFindNextIP Prefix = do { Devs \<leftarrow> NetLoadDevices; ret (NetDevFindNextIP_loop Devs Prefix [2..<255]) }"

section \<open>Configuration\<close>

definition NetSetup :: "TVpn \<Rightarrow> cstr \<Rightarrow> unit io" where
  "NetSetup Vpn dev =
     do {
       (if StrValid (LocalAddress Vpn) then do {
          TerminalPrint (''~mNET:~0 set IP address of local end of connection to ['' @ pct_s (LocalAddress Vpn) @ '']'' @ newline);
          let Tempstr = MCopyStr None [Some ''ifconfig '', dev, Some '' '', LocalAddress Vpn];
          let Tempstr = (if StrValid (RemoteAddress Vpn) then MCatStr Tempstr [Some '' pointopoint '', RemoteAddress Vpn] else Tempstr);
          RunCommand Tempstr CMD_ASROOT;
          ret () }
        else ret ());
       (if Action Vpn = ACT_CONNECT \<and> StrValid (AllowedIPs Vpn) then RouteSetup (AllowedIPs Vpn) dev else ret ());
       g \<leftarrow> getflags;
       (if \<not> has_flag g FLAG_NODNS \<and> StrValid (DNS Vpn) then ResolvChange (DNS Vpn) else ret ())
     }"

definition NetShutdown :: "cstr \<Rightarrow> unit io" where
  "NetShutdown dev =
     do {
       TerminalPrint (''~mNET:~0 Shutdown local device '' @ pct_s dev @ newline);
       RunCommand (MCopyStr None [Some ''ifconfig '', dev, Some '' down'']) CMD_ASROOT;
       TerminalPrint (''~mNET:~0 Remove local device '' @ pct_s dev @ newline);
       RunCommand (MCopyStr None [Some ''ip link delete dev '', dev]) CMD_ASROOT;
       ret ()
     }"

context effects
begin

lemma GetInterfaceIP_keeps [intro!]: "keeps inv (GetInterfaceIP i)"
  unfolding GetInterfaceIP_def by (rule keeps_ask)

lemma NetLoadDevices_keeps [intro!]: "keeps inv NetLoadDevices"
  unfolding NetLoadDevices_def NetLoadDevices_body_def Let_def by auto

lemma NetDevExists_keeps [intro!]: "keeps inv (NetDevExists i)"
  unfolding NetDevExists_def by auto

lemma NetDevFindNext_keeps [intro!]: "keeps inv (NetDevFindNext p)"
proof -
  have "keeps inv (NetDevFindNext_loop p is)" for "is"
    by (induction "is") (auto simp: Let_def)
  then show ?thesis unfolding NetDevFindNext_def .
qed

lemma NetGetDefaultIP_keeps [intro!]: "keeps inv NetGetDefaultIP"
  unfolding NetGetDefaultIP_def by auto

lemma NetDevFindForIP_keeps [intro!]: "keeps inv (NetDevFindForIP p ip)"
  unfolding NetDevFindForIP_def by auto

lemma NetDevFindNextIP_keeps [intro!]: "keeps inv (NetDevFindNextIP p)"
  unfolding NetDevFindNextIP_def by auto

lemma NetSetup_keeps [intro!]: "keeps inv (NetSetup v d)"
  unfolding NetSetup_def Let_def by auto

lemma NetShutdown_keeps [intro!]: "keeps inv (NetShutdown d)"
  unfolding NetShutdown_def by auto

end

section \<open>The devices of the kernel's table\<close>

text \<open>The specification: a device is what stands before the colon of its line.\<close>

definition device_of :: "string \<Rightarrow> string" where
  "device_of l = snd (token (Some (StripTrailingWhitespace (StripLeadingWhitespace l))) '':'')"

definition devices :: "(string \<Rightarrow> cstr) \<Rightarrow> string \<Rightarrow> (string \<times> string) list" where
  "devices addr c = map (\<lambda>l. (device_of l, chars (addr (device_of l)))) (file_lines c)"

lemma fold_append: "fold (\<lambda>l ds. ds @ [f l]) ls ds = ds @ map f ls"
  by (induction ls arbitrary: ds) simp_all

lemma NetLoadDevices_body_run:
  "status w = Running \<Longrightarrow> run_state (NetLoadDevices_body l ds) w
   = ((ds @ [(device_of l, chars (sys_ifaddr (sys w) (trace w) (device_of l)))], False), w)"
  by (simp add: NetLoadDevices_body_def GetInterfaceIP_def GetToken_token device_of_def io_simps split: prod.split)

lemma NetLoadDevices_run:
  assumes "status w = Running" "sys_open (sys w) (trace w) ''/proc/net/dev'' ''r'' = Some (vs, is)" "content is = Some c"
  shows "run_state NetLoadDevices w
    = (devices (sys_ifaddr (sys w) (trace w @ [Opened ''/proc/net/dev'' ''r'' (Some (next_stream w))])) c,
       visited w ''/proc/net/dev'' ''r'')"
  unfolding NetLoadDevices_def
  by (subst read_file_lines [OF assms, where step = "\<lambda>l ds. ds @ [(device_of l, chars (sys_ifaddr (sys w)
        (trace w @ [Opened ''/proc/net/dev'' ''r'' (Some (next_stream w))]) (device_of l)))]"])
    (simp_all add: NetLoadDevices_body_run fold_append devices_def)

lemma ListHasItem_devices: "ListHasItem (devices addr c) (Some n) \<longleftrightarrow> (\<exists>l \<in> set (file_lines c). strcaseeq (device_of l) n)"
proof -
  have "chars (if t = [] then None else Some t) = t" for t by simp
  then show ?thesis by (simp add: ListHasItem_def devices_def list_ex_iff CompareStrNoCase_eq_chars)
qed

definition device_listed :: "string \<Rightarrow> string \<Rightarrow> bool" where
  "device_listed c n \<longleftrightarrow> list_ex (\<lambda>l. strcaseeq (device_of l) n) (file_lines c)"

text \<open>The kernel keeps delivering the same table.\<close>

definition stable_file :: "system \<Rightarrow> string \<Rightarrow> string \<Rightarrow> bool" where
  "stable_file y path c \<longleftrightarrow> (\<forall>evs. \<exists>vs is. sys_open y evs path ''r'' = Some (vs, is) \<and> content is = Some c)"

lemma NetDevExists_run:
  assumes "status w = Running" "stable_file (sys w) ''/proc/net/dev'' c"
  shows "run_state (NetDevExists (Some n)) w = (device_listed c n, visited w ''/proc/net/dev'' ''r'')"
proof -
  obtain vs "is" where "sys_open (sys w) (trace w) ''/proc/net/dev'' ''r'' = Some (vs, is)" "content is = Some c"
    using assms(2) unfolding stable_file_def by blast
  from NetLoadDevices_run [OF assms(1) this] show ?thesis
    by (simp add: NetDevExists_def ListHasItem_devices device_listed_def list_ex_iff)
qed

lemma NetDevFindNext_loop_run:
  assumes "status w = Running" "stable_file (sys w) ''/proc/net/dev'' c"
  shows "fst (run_state (NetDevFindNext_loop p is) w)
    = (case find (\<lambda>i. \<not> device_listed c (p @ fmt_int (int i))) is of None \<Rightarrow> [] | Some i \<Rightarrow> p @ fmt_int (int i))"
  using assms
proof (induction "is" arbitrary: w)
  case (Cons i "is")
  then show ?case using Cons.IH [of "visited w ''/proc/net/dev'' ''r''"]
    by (simp add: NetDevExists_run io_simps)
qed simp

lemma find_upt: "find P [m..<n] = (if \<exists>i. m \<le> i \<and> i < n \<and> P i then Some (LEAST i. m \<le> i \<and> P i) else None)"
proof (cases "\<exists>i. m \<le> i \<and> i < n \<and> P i")
  case True
  then obtain i where i: "m \<le> i" "i < n" "P i" by blast
  let ?l = "LEAST i. m \<le> i \<and> P i"
  have l: "m \<le> ?l" "P ?l" "?l \<le> i" using LeastI [of "\<lambda>i. m \<le> i \<and> P i" i] Least_le [of "\<lambda>i. m \<le> i \<and> P i" i] i by simp_all
  have "find P [m..<n] = Some ?l"
    unfolding find_Some_iff
  proof (intro exI [of _ "?l - m"] conjI allI impI)
    fix j assume "j < ?l - m"
    then have "m + j < ?l" by linarith
    then have "\<not> P (m + j)" using not_less_Least [of "m + j" "\<lambda>i. m \<le> i \<and> P i"] by simp
    then show "\<not> P ([m..<n] ! j)" using \<open>j < ?l - m\<close> l i by simp
  qed (use l i in simp_all)
  then show ?thesis using True by simp
next
  case False
  then show ?thesis by (auto simp: find_None_iff)
qed

section \<open>Correctness\<close>

text \<open>
C20. \<open>NetDevFindNext\<close> returns the prefix with the least number below 999 that no device has, and the empty
string if all are taken, provided \<open>/proc/net/dev\<close> does not change meanwhile.
\<close>

theorem NetDevFindNext_least:
  assumes "status w = Running" "stable_file (sys w) ''/proc/net/dev'' c"
  shows "fst (run_state (NetDevFindNext p) w)
    = (if \<exists>i. i < 999 \<and> \<not> device_listed c (p @ fmt_int (int i))
       then p @ fmt_int (int (LEAST i. \<not> device_listed c (p @ fmt_int (int i)))) else [])"
  using NetDevFindNext_loop_run [OF assms, of p "[0..<999]"] by (simp add: NetDevFindNext_def find_upt)

definition proc_net_dev :: string where
  "proc_net_dev = ''Inter-| Receive'' @ newline @ ''  lo: 10 1'' @ newline @ '' tun0: 20 2'' @ newline @ ''tun1: 20 2'' @ newline"

definition device_world :: world where
  "device_world = initial_world (silent_system\<lparr>sys_open := \<lambda>_ _ _. Some ([], [Bytes proc_net_dev]),
     sys_ifaddr := \<lambda>_ d. if d = ''tun0'' then Some ''10.0.0.2'' else None\<rparr>)"

lemma device_world_stable: "status device_world = Running" "stable_file (sys device_world) ''/proc/net/dev'' proc_net_dev"
  by (simp_all add: device_world_def initial_world_def stable_file_def)

theorem NetDevFindNext_least_witness: "fst (run_state (NetDevFindNext ''tun'') device_world) = ''tun2''"
proof -
  have d: "device_listed proc_net_dev (''tun'' @ fmt_int (int 0))" "device_listed proc_net_dev (''tun'' @ fmt_int (int 1))"
    "\<not> device_listed proc_net_dev (''tun'' @ fmt_int (int 2))"
    by code_simp+
  have "(LEAST i. \<not> device_listed proc_net_dev (''tun'' @ fmt_int (int i))) = 2"
  proof (rule Least_equality)
    fix y assume "\<not> device_listed proc_net_dev (''tun'' @ fmt_int (int y))"
    then have "y \<noteq> 0" "y \<noteq> 1" using d(1,2) by metis+
    then show "2 \<le> y" by linarith
  qed (rule d(3))
  moreover have "\<exists>i. i < 999 \<and> \<not> device_listed proc_net_dev (''tun'' @ fmt_int (int i))"
    using d(3) by (intro exI [of _ 2]) simp
  moreover have "fmt_int (int 2) = ''2''" by code_simp
  ultimately show ?thesis using NetDevFindNext_least [OF device_world_stable, of "''tun''"] by simp
qed

text \<open>
C21. \<open>NetDevFindNextIP\<close> returns the address with the least last part from 2 to 254 that no device has, and the
empty string if every one is taken.
\<close>

theorem NetDevFindNextIP_least:
  assumes "status w = Running" "sys_open (sys w) (trace w) ''/proc/net/dev'' ''r'' = Some (vs, is)" "content is = Some c"
    and "devs = devices (sys_ifaddr (sys w) (trace w @ [Opened ''/proc/net/dev'' ''r'' (Some (next_stream w))])) c"
    and "free = (\<lambda>i. p @ ''.'' @ fmt_int (int i) \<notin> snd ` set devs)"
  shows "fst (run_state (NetDevFindNextIP p) w)
    = (if \<exists>i. 2 \<le> i \<and> i < 255 \<and> free i then p @ ''.'' @ fmt_int (int (LEAST i. 2 \<le> i \<and> free i)) else [])"
proof -
  have "NetDevFindNextIP_loop devs p is = (case find free is of None \<Rightarrow> [] | Some i \<Rightarrow> p @ ''.'' @ fmt_int (int i))" for "is"
    by (induction "is") (auto simp: assms(5) DevsIPExists_def list_ex_iff image_iff Let_def case_prod_unfold)
  then have "NetDevFindNextIP_loop devs p [2..<255] = (case if \<exists>i. 2 \<le> i \<and> i < 255 \<and> free i
      then Some (LEAST i. 2 \<le> i \<and> free i) else None of None \<Rightarrow> [] | Some i \<Rightarrow> p @ ''.'' @ fmt_int (int i))"
    by (simp only: find_upt)
  then show ?thesis
    using NetLoadDevices_run [OF assms(1-3)]
    by (simp only: NetDevFindNextIP_def assms(4) [symmetric]) (auto simp del: upt_rec_numeral)
qed

theorem NetDevFindNextIP_least_witness: "fst (run_state (NetDevFindNextIP ''10.0.0'') device_world) = ''10.0.0.3''"
proof -
  let ?devs = "devices (sys_ifaddr (sys device_world) (trace device_world @ [Opened ''/proc/net/dev'' ''r'' (Some (next_stream device_world))])) proc_net_dev"
  let ?free = "\<lambda>i. ''10.0.0'' @ ''.'' @ fmt_int (int i) \<notin> snd ` set ?devs"
  have o: "status device_world = Running"
    "sys_open (sys device_world) (trace device_world) ''/proc/net/dev'' ''r'' = Some ([], [Bytes proc_net_dev])"
    "content [Bytes proc_net_dev] = Some proc_net_dev"
    by (simp_all add: device_world_def initial_world_def)
  have "?devs = [(''Inter-| Receive'', []), (''lo'', []), (''tun0'', ''10.0.0.2''), (''tun1'', [])]" by code_simp
  moreover have "fmt_int (int 2) = ''2''" "fmt_int (int 3) = ''3''" by code_simp+
  ultimately have f: "\<not> ?free 2" "?free 3" by auto
  have "(LEAST i. 2 \<le> i \<and> ?free i) = 3"
  proof (rule Least_equality)
    fix y assume "2 \<le> y \<and> ?free y"
    then have "2 \<le> y" "y \<noteq> 2" using f(1) by metis+
    then show "3 \<le> y" by linarith
  qed (use f(2) in simp)
  moreover have "\<exists>i. 2 \<le> i \<and> i < 255 \<and> ?free i" using f(2) by (intro exI [of _ 3]) simp
  ultimately have "fst (run_state (NetDevFindNextIP ''10.0.0'') device_world) = ''10.0.0'' @ ''.'' @ fmt_int (int 3)"
    using NetDevFindNextIP_least [OF o refl refl, of "''10.0.0''"] by simp
  then show ?thesis using \<open>fmt_int (int 3) = ''3''\<close> by simp
qed

end
