(* ===== verification/TunTap.thy ===== *)
theory TunTap
  imports Net
begin

text \<open>\<open>tuntap.c\<close>: creating and removing the local tunnel device.\<close>

definition TUN_PATH :: string where "TUN_PATH = ''/dev/net/tun''"

definition run_root :: "cstr \<Rightarrow> unit io" where
  "run_root Cmd = do { RunCommand Cmd CMD_ASROOT; ret () }"

definition TunModprobe :: "unit io" where
  "TunModprobe =
     do {
       TerminalPrint (''~e~cTUN:~0 '' @ TUN_PATH @ '' does not exist. Trying '' @ [CHR 0x27] @ ''modprobe tun'' @ [CHR 0x27]
         @ '' in case kernel module not loaded '' @ newline);
       run_root (Some ''modprobe tun'');
       run_root (Some ''chmod a+rw /dev/net/tun'')
     }"

definition TunAvailable :: "bool io" where
  "TunAvailable =
     do {
       f \<leftarrow> access TUN_PATH CHR ''F'';
       (if \<not> f then TunModprobe else ret ());
       run_root (Some ''chmod a+rw /dev/net/tun'');
       f \<leftarrow> access TUN_PATH CHR ''F'';
       (if \<not> f then do { LogEvent (VPN_LOG_SYSLOG OR VPN_LOG_ERROR) ''TUN'' (''error: '' @ TUN_PATH @ '' does not seem to exist''); ret False }
        else do {
          wr \<leftarrow> access TUN_PATH CHR ''W'';
          (if \<not> wr then do { LogEvent (VPN_LOG_SYSLOG OR VPN_LOG_ERROR) ''TUN'' (''error: '' @ TUN_PATH @ '' not writeable''); ret False }
           else do {
             rd \<leftarrow> access TUN_PATH CHR ''R'';
             (if \<not> rd then do { LogEvent (VPN_LOG_SYSLOG OR VPN_LOG_ERROR) ''TUN'' (''error: '' @ TUN_PATH @ '' not readable''); ret False }
              else ret True) }) })
     }"

definition TunCreateCommand :: "string \<Rightarrow> cstr \<Rightarrow> cstr" where
  "TunCreateCommand Type Iface =
     (if Type = ''tun'' then MCopyStr None [Some ''ip tuntap add dev '', Iface, Some '' mode tun'']
      else MCopyStr None [Some ''ip link add dev '', Iface, Some '' type '', Some Type])"

text \<open>The two halves of \<open>TunSetup\<close>: making the device, and bringing it up.\<close>

definition TunCreate :: "string \<Rightarrow> cstr \<Rightarrow> cint io" where
  "TunCreate Type Iface =
     do {
       e \<leftarrow> NetDevExists Iface;
       (if \<not> e then do {
             TunAvailable;
             TerminalPrint (''~e~cTUN:~0 create local tun device [~e'' @ pct_s Iface @ ''~0]'' @ newline);
             RunCommand (TunCreateCommand Type Iface) CMD_ASROOT }
           else ret RUN_CMD_OKAY)
     }"

definition TunActivate :: "cstr \<Rightarrow> cstr \<Rightarrow> unit io" where
  "TunActivate Iface Address =
     do {
       (if StrValid Address
        then run_root (MCopyStr None [Some ''ip address add dev '', Iface, Some '' '', Address]) else ret ());
       TerminalPrint (''~e~cTUN:~0 activate local tun device [~e'' @ pct_s Iface @ ''~0]'' @ newline);
       run_root (MCopyStr None [Some ''ip link set up dev '', Iface])
     }"

definition TunSetup :: "string \<Rightarrow> cstr \<Rightarrow> cstr \<Rightarrow> cint io" where
  "TunSetup Type Iface Address =
     do {
       st \<leftarrow> TunCreate Type Iface;
       (if st = RUN_CMD_OKAY then do {
          TunActivate Iface Address;
          e \<leftarrow> NetDevExists Iface;
          ret (if \<not> e then RUN_CMD_FAIL else st) }
        else do {
          LogEvent (VPN_LOG_SYSLOG OR VPN_LOG_ERROR) ''TUN'' (''fatal: Failed to create interface '' @ pct_s Iface);
          ret st })
     }"

definition TunShutdown :: "cstr \<Rightarrow> unit io" where
  "TunShutdown dev =
     do {
       TerminalPrint (''~e~cTUN:~0 shutdown local tun devices [~e'' @ pct_s dev @ ''~0]'' @ newline);
       run_root (MCopyStr None [Some ''ip link set dev '', dev, Some '' down '']);
       run_root (MCopyStr None [Some ''ip link delete dev '', dev])
     }"

context effects
begin

lemma run_root_keeps [intro!]: "keeps inv (run_root c)"
  unfolding run_root_def by auto

lemma TunAvailable_keeps [intro!]: "keeps inv TunAvailable"
  unfolding TunAvailable_def TunModprobe_def by auto

lemma TunCreate_keeps [intro!]: "keeps inv (TunCreate t i)"
  unfolding TunCreate_def by auto

lemma TunActivate_keeps [intro!]: "keeps inv (TunActivate i a)"
  unfolding TunActivate_def by auto

lemma TunSetup_keeps [intro!]: "keeps inv (TunSetup t i a)"
  unfolding TunSetup_def by auto

lemma TunShutdown_keeps [intro!]: "keeps inv (TunShutdown d)"
  unfolding TunShutdown_def by auto

end

section \<open>Correctness\<close>

lemma NetDevExists_stopped: "status w \<noteq> Running \<Longrightarrow> \<not> fst (run_state (NetDevExists i) w)"
  by (simp add: NetDevExists_def NetLoadDevices_def STREAMOpen_def ListHasItem_def io_simps)


definition tun_world :: world where
  "tun_world = device_world\<lparr>FoundCommands := Some [(''ip'', ''/sbin/ip'')]\<rparr>"


end
