(* ===== verification/UpDown.thy ===== *)
theory UpDown
  imports Net
begin

text \<open>\<open>updown.c\<close>: what happens when a link comes up or goes down.\<close>

text \<open>The text \<open>"' '"\<close> between two arguments of a script.\<close>

definition arg_sep :: string where "arg_sep = [CHR 0x27, CHR '' '', CHR 0x27]"

definition UpDownRunFiles_body :: "TVpn \<Rightarrow> cstr \<Rightarrow> string \<Rightarrow> unit io" where
  "UpDownRunFiles_body Vpn dev Token =
     do {
       x \<leftarrow> access Token CHR ''X'';
       (if x then do {
          RunCommand (MCopyStr None [Some Token, Some [CHR '' '', CHR 0x27], dev, Some arg_sep, Server Vpn, Some arg_sep,
              LocalAddress Vpn, Some arg_sep, RemoteAddress Vpn, Some arg_sep, Name Vpn, Some [CHR 0x27]]) CMD_ASROOT;
          ret () }
        else ret ())
     }"

definition UpDownRunFiles :: "TVpn \<Rightarrow> cstr \<Rightarrow> cstr \<Rightarrow> unit io" where
  "UpDownRunFiles Vpn Files dev = for_tokens (Some '':'') 0 Files (UpDownRunFiles_body Vpn dev)"

definition VpnUp :: "TVpn \<Rightarrow> cstr \<Rightarrow> unit io" where
  "VpnUp Vpn dev =
     do {
       NetSetup Vpn dev;
       (if StrValid (UpFile Vpn) then UpDownRunFiles Vpn (UpFile Vpn) dev else ret ());
       LogEvent (VPN_LOG_SYSLOG OR VPN_LOG_OKAY) ''VPN UP'' (pct_s (Server Vpn) @ '' Dev='' @ pct_s dev)
     }"

definition VpnDown :: "TVpn \<Rightarrow> cstr \<Rightarrow> unit io" where
  "VpnDown Vpn dev =
     do {
       NetShutdown dev;
       (if StrValid (DownFile Vpn) then UpDownRunFiles Vpn (DownFile Vpn) dev else ret ());
       LogEvent (VPN_LOG_SYSLOG OR VPN_LOG_INFO) ''VPN DOWN'' (pct_s (Server Vpn) @ '' Dev='' @ pct_s dev)
     }"

context effects
begin

lemma UpDownRunFiles_keeps [intro!]: "keeps inv (UpDownRunFiles v f d)"
  unfolding UpDownRunFiles_def UpDownRunFiles_body_def by auto

lemma VpnUp_keeps [intro!]: "keeps inv (VpnUp v d)"
  unfolding VpnUp_def by auto

lemma VpnDown_keeps [intro!]: "keeps inv (VpnDown v d)"
  unfolding VpnDown_def by auto

end

end
