(* ===== verification/URL.thy ===== *)
theory URL
  imports PlainTokens
begin

text \<open>
  \<open>libUseful-bundled/URL.c\<close>: taking a server URL to pieces.  A pointer that the caller passes as \<open>NULL\<close> is a
  component of the result that the caller ignores; \<open>Args\<close> is passed by no caller of the program, so \<open>Path\<close>
  keeps everything after the host.  \<^term>\<open>None\<close> is undefined behaviour.
\<close>

record url =
  url_proto :: string
  url_host :: string
  url_port :: string
  url_user :: string
  url_password :: string
  url_path :: cstr

text \<open>The pointers as the callers initialise them.\<close>

definition url_zero :: url where
  "url_zero = \<lparr>url_proto = [], url_host = [], url_port = [], url_user = [], url_password = [], url_path = None\<rparr>"

definition ParseHostDetailsExtractAuth :: "string \<Rightarrow> (cstr \<times> string \<times> string) option" where
  "ParseHostDetailsExtractAuth Data =
     (if strrchr Data CHR 0x40 \<noteq> None then do {
        (p, Token) \<leftarrow> GetToken (Some Data) (Some [CHR 0x40]) GETTOKEN_QUOTES;
        (t, User) \<leftarrow> GetToken (Some Token) (Some '':'') 0;
        Some (p, User, if StrValid t then chars t else []) }
      else Some (Some Data, [], []))"

text \<open>The host, in brackets if it is an IPv6 address, and the port.\<close>

definition ParseHostPort :: "string \<Rightarrow> (string \<times> string) option" where
  "ParseHostPort ptr =
     (if take 1 ptr = ''['' then do {
        (q, Token) \<leftarrow> GetToken (Some ptr) (Some '']'') GETTOKEN_APPEND_SEP;
        r \<leftarrow> q;
        Some (Token, if take 1 r = '':'' then drop 1 r else r) }
      else do {
        (q, Token) \<leftarrow> GetToken (Some ptr) (Some '':'') 0;
        Some (Token, chars q) })"

definition ParseHostDetails :: "string \<Rightarrow> (string \<times> string \<times> string \<times> string) option" where
  "ParseHostDetails Data =
     do {
       (p, User, Password) \<leftarrow> ParseHostDetailsExtractAuth Data;
       ptr \<leftarrow> p;
       (Host, Port) \<leftarrow> ParseHostPort ptr;
       Some (Host, Port, User, Password)
     }"

definition FLAG_GUESS_PORT :: cint where "FLAG_GUESS_PORT = 1"

text \<open>The protocol and the rest; \<open>tProto\<close> is kept even when it turns out to be a host name.\<close>

definition DecodeURL_proto :: "string \<Rightarrow> cstr \<times> string \<times> string" where
  "DecodeURL_proto URL =
     (case strchr URL CHR '':'' of
        None \<Rightarrow> (None, [], URL)
      | Some s \<Rightarrow>
          (let tProto = map tolower (take (length URL - length s) URL)
           in if strchr tProto CHR ''.'' \<noteq> None then (Some tProto, [], URL)
              else (Some tProto, tProto, dropWhile (\<lambda>c. c = CHR ''/'') (drop 1 s))))"

definition guess_port :: "string \<Rightarrow> string" where
  "guess_port tProto =
     (if tProto = ''http'' then ''80'' else if tProto = ''https'' then ''443'' else if tProto = ''ssh'' then ''22''
      else if tProto = ''ftp'' then ''21'' else if tProto = ''telnet'' then ''23'' else if tProto = ''smtp'' then ''25''
      else if tProto = ''mailto'' then ''25'' else [])"

definition DecodeURL :: "string \<Rightarrow> cint \<Rightarrow> url option" where
  "DecodeURL URL Fl =
     (case DecodeURL_proto URL of (tProto, Proto, ptr) \<Rightarrow> do {
       (p, Token) \<leftarrow> GetToken (Some ptr) (Some ''/|?'') GETTOKEN_MULTI_SEP;
       (Host, Port, User, Password) \<leftarrow> ParseHostDetails Token;
       let Path = (if StrValid p then MCopyStr None [Some ''/'', p] else None);
       let Port = (if has_flag Fl FLAG_GUESS_PORT \<and> Port = [] \<and> StrValid tProto then guess_port (chars tProto) else Port);
       Some \<lparr>url_proto = Proto, url_host = Host, url_port = Port, url_user = User, url_password = Password, url_path = Path\<rparr> })"

text \<open>\<open>strchr\<close> of a \<open>NULL\<close> URL is undefined.\<close>

definition UnpackURL :: "cstr \<Rightarrow> url option" where
  "UnpackURL URL = do { u \<leftarrow> URL; DecodeURL u 0 }"

definition ParseURL :: "cstr \<Rightarrow> url option" where
  "ParseURL URL = do { u \<leftarrow> URL; DecodeURL u FLAG_GUESS_PORT }"

section \<open>The usual server URL\<close>

text \<open>A word of a URL: no white space, quote, backslash or character with a meaning of its own.\<close>

definition url_word :: "string \<Rightarrow> bool" where
  "url_word s \<longleftrightarrow> s \<noteq> [] \<and> plain s \<and> set s \<inter> set ''/?:[@'' = {}"

lemma strrchr_none: "strrchr s c = None \<longleftrightarrow> c \<notin> set s"
  by (induction s) (auto split: option.splits)

lemma url_separators: "BuildMultiSeparators ''/|?'' = map (\<lambda>d. [d]) ''/?''"
  by code_simp

text \<open>How a user writes a server URL.\<close>

definition format_url :: "url \<Rightarrow> string" where
  "format_url u = url_proto u @ '':'' @ (if url_user u = [] then [] else url_user u @ [CHR 0x40])
     @ url_host u @ (if url_port u = [] then [] else '':'' @ url_port u)"

definition plain_url :: "url \<Rightarrow> bool" where
  "plain_url u \<longleftrightarrow> url_word (url_proto u) \<and> map tolower (url_proto u) = url_proto u \<and> CHR ''.'' \<notin> set (url_proto u)
     \<and> url_word (url_host u) \<and> (url_port u = [] \<or> url_word (url_port u)) \<and> (url_user u = [] \<or> url_word (url_user u))
     \<and> url_password u = [] \<and> url_path u = None"

lemma url_wordD:
  assumes "url_word s"
  shows "s \<noteq> []" "plain s" "CHR ''/'' \<notin> set s" "CHR ''?'' \<notin> set s" "CHR '':'' \<notin> set s" "CHR ''['' \<notin> set s" "CHR 0x40 \<notin> set s"
  using assms by (auto simp: url_word_def)

abbreviation with_port :: "string \<Rightarrow> string \<Rightarrow> string" where
  "with_port h q \<equiv> h @ (if q = [] then [] else '':'' @ q)"

lemma ParseHostPort_word:
  assumes "url_word h"
  shows "ParseHostPort (with_port h q) = Some (h, q)"
proof -
  obtain c cs where h: "h = c # cs" "c \<noteq> CHR ''[''" using url_wordD(1,6) [OF assms(1)] by (cases h) auto
  have "GetToken (Some (with_port h q)) (Some '':'') 0 = Some (Some q, h)"
    using url_wordD(1,5) [OF assms(1)] GetToken_char_None [of "CHR '':''" h] GetToken_char_Some [of "CHR '':''" h q] by auto
  moreover have "take 1 (with_port h q) \<noteq> ''[''" using h by simp
  ultimately show ?thesis by (simp only: ParseHostPort_def if_False bind.bind_lunit prod.case chars_simps simp_thms)
qed

lemma with_port_no_at: "url_word h \<Longrightarrow> q = [] \<or> url_word q \<Longrightarrow> strrchr (with_port h q) CHR 0x40 = None"
  using url_wordD(7) by (auto simp: strrchr_none)

lemma ParseHostDetails_host:
  "url_word h \<Longrightarrow> q = [] \<or> url_word q \<Longrightarrow> ParseHostDetails (with_port h q) = Some (h, q, [], [])"
  by (simp only: ParseHostDetails_def ParseHostDetailsExtractAuth_def with_port_no_at ParseHostPort_word simp_thms if_False
      bind.bind_lunit prod.case)

lemma ParseHostDetails_user:
  assumes "url_word u" "url_word h" "q = [] \<or> url_word q"
  shows "ParseHostDetails (u @ CHR 0x40 # with_port h q) = Some (h, q, u, [])"
proof -
  have "strrchr (u @ CHR 0x40 # with_port h q) CHR 0x40 \<noteq> None" by (simp add: strrchr_none)
  moreover have "GetToken (Some (u @ CHR 0x40 # with_port h q)) (Some [CHR 0x40]) GETTOKEN_QUOTES = Some (Some (with_port h q), u)"
    using url_wordD(1,2,7) [OF assms(1)] by (intro GetToken_plain_first) auto
  moreover have "GetToken (Some u) (Some '':'') 0 = Some (Some [], u)"
    using url_wordD(1,5) [OF assms(1)] by (intro GetToken_char_None) auto
  ultimately show ?thesis
    by (simp add: ParseHostDetails_def ParseHostDetailsExtractAuth_def ParseHostPort_word [OF assms(2)])
qed

section \<open>Correctness\<close>

text \<open>
C24. The server URLs that the documentation shows, \<open>proto:host\<close>, \<open>proto:host:port\<close>, \<open>proto:user@host\<close> and
\<open>proto:user@host:port\<close>, are taken to pieces without loss: what \<open>UnpackURL\<close> finds is what was written.
\<close>

theorem UnpackURL_format:
  assumes "plain_url u"
  shows "UnpackURL (Some (format_url u)) = Some u"
proof -
  let ?p = "url_proto u"
  let ?t = "with_port (url_host u) (url_port u)"
  let ?r = "(if url_user u = [] then [] else url_user u @ [CHR 0x40]) @ ?t"
  have w: "url_word ?p" "url_word (url_host u)" "url_port u = [] \<or> url_word (url_port u)" "url_user u = [] \<or> url_word (url_user u)"
    using assms by (simp_all add: plain_url_def)
  have sep: "plain_char CHR '':''" "plain_char CHR 0x40" by (simp_all add: plain_char_def isspace_def)
  have chars: "set ?r \<subseteq> set (url_user u) \<union> set (url_host u) \<union> set (url_port u) \<union> {CHR '':'', CHR 0x40}" by auto
  have user: "plain (url_user u)" "CHR ''/'' \<notin> set (url_user u)" "CHR ''?'' \<notin> set (url_user u)"
    and port: "plain (url_port u)" "CHR ''/'' \<notin> set (url_port u)" "CHR ''?'' \<notin> set (url_port u)"
    using w(3,4) url_wordD(2-4) by (metis empty_iff empty_set)+
  have r: "plain ?r" "CHR ''/'' \<notin> set ?r" "CHR ''?'' \<notin> set ?r"
    using chars user port url_wordD(2-4) [OF w(2)] sep by blast+
  have "?r \<noteq> []" using url_wordD(1) [OF w(2)] by simp
  note r = r this
  have "strchr (?p @ '':'' @ ?r) CHR '':'' = Some ('':'' @ ?r)"
    using strchr_append_notin [of "CHR '':''" ?p] url_wordD(5) [OF w(1)] by simp
  moreover have "dropWhile (\<lambda>c. c = CHR ''/'') ?r = ?r"
    using r(2,4) by (cases ?r) auto
  ultimately have proto: "DecodeURL_proto (format_url u) = (Some ?p, ?p, ?r)"
    using assms by (simp add: DecodeURL_proto_def format_url_def plain_url_def strchr_None_iff Let_def)
  have tok: "GetToken (Some ?r) (Some ''/|?'') GETTOKEN_MULTI_SEP = Some (Some [], ?r)"
    using r by (intro GetToken_plain_multi [OF _ _ url_separators]) auto
  have "ParseHostDetails ?r = Some (url_host u, url_port u, url_user u, [])"
    using ParseHostDetails_host [OF w(2,3)] ParseHostDetails_user [of "url_user u" "url_host u" "url_port u"] w by auto
  then show ?thesis
    using assms tok by (simp add: UnpackURL_def DecodeURL_def proto plain_url_def has_flag_def)
qed

theorem UnpackURL_format_witness:
  "UnpackURL (Some ''pppssh:bob@gw.example.com:2222'') = Some \<lparr>url_proto = ''pppssh'', url_host = ''gw.example.com'',
     url_port = ''2222'', url_user = ''bob'', url_password = [], url_path = None\<rparr>"
proof -
  let ?u = "\<lparr>url_proto = ''pppssh'', url_host = ''gw.example.com'', url_port = ''2222'', url_user = ''bob'',
     url_password = [], url_path = None\<rparr>"
  have "plain_url ?u" "format_url ?u = ''pppssh:bob@gw.example.com:2222''" by code_simp+
  with UnpackURL_format [of ?u] show ?thesis by simp
qed

end
