(* ===== verification/Ssh.thy ===== *)
theory Ssh
  imports TunTap UpDown URL
begin

text \<open>
  \<open>ssh.c\<close>: the remote shell that the program drives over an ssh client, and the vpn that ssh itself
  provides.  \<open>SSHVpnTerminate\<close>, which the signal handler calls, is in the theory \<open>World\<close>, with the pointer
  \<open>Active\<close>.  The dump of the raw buffer at the end of \<open>SSHVpnSync\<close> is left out.
\<close>

section \<open>Finding a program on the other side\<close>

definition SSHHostParseLS :: "string \<Rightarrow> string \<Rightarrow> cstr \<Rightarrow> string option" where
  "SSHHostParseLS RetStr Cmd LSLine =
     (if \<not> StrValid LSLine then Some RetStr
      else if take 1 (chars LSLine) = ''-'' then do {
        (p, Token) \<leftarrow> skip_tokens 9 LSLine [];
        Some (if Cmd = GetBasename (Some Token) then Token else RetStr) }
      else Some RetStr)"

definition SSHHostFindCommand_body :: "nat option \<Rightarrow> string \<Rightarrow> string \<Rightarrow> string \<Rightarrow> (string \<times> bool) io" where
  "SSHHostFindCommand_body S Cmd Token RetStr =
     do {
       STREAMWriteLine (MCopyStr None [Some ''ls -l -1 '', Some Token, Some ''/'', Some Cmd, Some newline]) S;
       STREAMFlush S;
       Tempstr \<leftarrow> STREAMReadLine S;
       RetStr \<leftarrow> lift_option RetStr (SSHHostParseLS RetStr Cmd (map_option StripTrailingWhitespace Tempstr));
       ret (RetStr, RetStr \<noteq> [])
     }"

definition SSHHostFindCommand :: "nat option \<Rightarrow> string \<Rightarrow> cstr \<Rightarrow> string io" where
  "SSHHostFindCommand S Cmd Path =
     do {
       RetStr \<leftarrow> for_tokens_until (Some '':'') GETTOKEN_QUOTES Path (SSHHostFindCommand_body S Cmd) [];
       (if RetStr \<noteq> []
        then LogEvent (VPN_LOG_SYSLOG OR VPN_LOG_OKAY) ''SSH''
               (''remote command '' @ [CHR 0x27] @ Cmd @ [CHR 0x27] @ '' found at '' @ [CHR 0x27] @ RetStr @ [CHR 0x27])
        else LogEvent (VPN_LOG_SYSLOG OR VPN_LOG_ERROR) ''SSH''
               (''remote command '' @ [CHR 0x27] @ Cmd @ [CHR 0x27] @ '' not found in: '' @ pct_s Path));
       ret RetStr
     }"

section \<open>The ssh configuration\<close>

definition LookupHostIP :: "string \<Rightarrow> cstr io" where
  "LookupHostIP Host = ask None (\<lambda>w. sys_hostip (sys w) (trace w) Host)"

definition SSHHostLookupIP_body :: "string \<Rightarrow> string \<Rightarrow> string \<times> string \<Rightarrow> ((string \<times> string) \<times> bool) io" where
  "SSHHostLookupIP_body Host Tempstr st =
     (let (CurrHost, IP) = st; Tempstr = StripLeadingWhitespace (StripTrailingWhitespace Tempstr)
      in if strneq Tempstr ''Host '' 5 then ret ((drop 5 Tempstr, IP), False)
         else if strneq Tempstr ''HostName '' 9 then
           (if Host = CurrHost then do {
              ip \<leftarrow> LookupHostIP (dropWhile isspace (drop 9 Tempstr));
              ret ((CurrHost, chars (CopyStr (Some IP) ip)), False) }
            else ret (st, False))
         else ret (st, False))"

definition SSHHostLookupIP :: "string \<Rightarrow> string io" where
  "SSHHostLookupIP Host =
     do {
       home \<leftarrow> GetCurrUserHomeDir;
       S \<leftarrow> STREAMOpen (chars (MCopyStr None [Some home, Some ''/.ssh/config''])) ''r'';
       (case S of
          None \<Rightarrow> ret []
        | Some i \<Rightarrow> do {
            st \<leftarrow> while_read (Some i) (STREAMReadLine (Some i)) (SSHHostLookupIP_body Host) ([], []);
            STREAMClose (Some i);
            ret (snd st) })
     }"

section \<open>Synchronising with the remote shell\<close>

definition no_prompt :: string where
  "no_prompt = ''export PS1='' @ [CHR 0x22, CHR 0x22] @ ''; export PS2='' @ [CHR 0x22, CHR 0x22]"

definition SSHVpnSendSync :: "nat option \<Rightarrow> string io" where
  "SSHVpnSendSync S =
     do {
       Key \<leftarrow> ask [] (\<lambda>w. sys_random (sys w) (trace w));
       let Tempstr = MCopyStr None [Some (no_prompt @ ''; echo ''), Some Key, Some newline];
       STREAMWriteLine Tempstr S;
       STREAMFlush S;
       dbg \<leftarrow> flag_set FLAG_DEBUG;
       (if dbg then printf (''SSH SYNC: SEND: '' @ pct_s Tempstr) else ret ());
       ret Key
     }"

definition SSHVpnSync_body :: "nat option \<Rightarrow> string \<Rightarrow> string \<Rightarrow> (string \<times> bool) io" where
  "SSHVpnSync_body S Tempstr Key =
     (if Tempstr = [] then do { Key \<leftarrow> SSHVpnSendSync S; ret (Key, False) }
      else do {
        let Tempstr = StripLeadingWhitespace (StripTrailingWhitespace Tempstr);
        dbg \<leftarrow> flag_set FLAG_DEBUG;
        (if dbg then printf (''SSH SYNC: ['' @ Tempstr @ ''] ['' @ Key @ '']'' @ newline) else ret ());
        quit \<leftarrow> flag_set FLAG_EXIT;
        ret (Key, Tempstr = Key \<or> quit) })"

definition SSHVpnSync :: "nat option \<Rightarrow> unit io" where
  "SSHVpnSync S =
     do {
       Key \<leftarrow> SSHVpnSendSync S;
       while_read S (STREAMReadToMultiTerminator [CHR 0x0D, CHR 0x0A] S) (SSHVpnSync_body S) Key;
       STREAMReadBytes 4096 S;
       ret ()
     }"

section \<open>Running a command on the other side\<close>

definition SSHVpnRunCommandTry :: "nat option \<Rightarrow> string \<Rightarrow> cint \<Rightarrow> bool io" where
  "SSHVpnRunCommandTry S Cmd Fl =
     do {
       SSHVpnSync S;
       result \<leftarrow>
         (if Cmd \<noteq> [] then do {
            Tempstr \<leftarrow> RunCmdFormat None Cmd (Some '''') (Fl OR CMD_SSH);
            STREAMWriteLine Tempstr S;
            STREAMWriteLine (Some newline) S;
            STREAMFlush S;
            TerminalPrint (''~rSSH REMOTE RUN COMMAND:~0 ['' @ pct_s Tempstr @ '']'' @ newline);
            (if has_flag Fl CMD_SUDO then RunCommandReadLoop S ''Remote'' ''su/sudo''
             else if has_flag Fl CMD_SU then RunCommandReadLoop S ''Remote'' ''su/sudo''
             else ret 1) }
          else ret 0);
       (if \<not> has_flag Fl CMD_NOSYNC then SSHVpnSync S else ret ());
       ret (result = RUN_CMD_OKAY)
     }"

definition RemoteFlags :: "cint \<Rightarrow> cint \<Rightarrow> cint" where
  "RemoteFlags Fl g =
     (let CmdFlags = Fl AND NOT (CMD_SU OR CMD_SUDO);
          CmdFlags = (if has_flag Fl CMD_SU \<and> has_flag g FLAG_REMOTE_SU then CmdFlags OR CMD_SU else CmdFlags)
      in if has_flag Fl CMD_SUDO \<and> has_flag g FLAG_REMOTE_SUDO then CmdFlags OR CMD_SUDO else CmdFlags)"

definition SSHVpnRunCommand :: "nat option \<Rightarrow> string \<Rightarrow> cint \<Rightarrow> bool io" where
  "SSHVpnRunCommand S Cmd Fl =
     do {
       g \<leftarrow> getflags;
       let CmdFlags = RemoteFlags Fl g;
       ok \<leftarrow> SSHVpnRunCommandTry S Cmd CmdFlags;
       (if ok then ret True
        else do {
          TerminalPrint (''~yremote sudo failed, attempting su~0'' @ newline);
          SSHVpnRunCommandTry S Cmd (CmdFlags AND NOT CMD_SUDO) })
     }"

section \<open>Connecting\<close>

definition SSHConnectCommand :: "url \<Rightarrow> cstr \<Rightarrow> string \<Rightarrow> cstr" where
  "SSHConnectCommand u ciphers Command =
     (let Tempstr = (if url_user u \<noteq> [] then MCopyStr None [Some ''ssh -t '', Some (url_user u), Some [CHR 0x40], Some (url_host u)]
                     else MCopyStr None [Some ''ssh -t '', Some (url_host u)]);
          Tempstr = (if url_port u \<noteq> [] then MCatStr Tempstr [Some '' -p '', Some (url_port u)] else Tempstr);
          Tempstr = (if StrValid ciphers then MCatStr Tempstr [Some ('' -c '' @ [CHR 0x27]), ciphers, Some ([CHR 0x27] @ '' '')] else Tempstr)
      in if Command \<noteq> [] then MCatStr Tempstr [Some '' '', Some Command] else Tempstr)"

definition SSHVpnConnect :: "TVpn \<Rightarrow> string \<Rightarrow> nat option io" where
  "SSHVpnConnect Vpn Command =
     do {
       u \<leftarrow> lift_option url_zero (UnpackURL (Server Vpn));
       ip \<leftarrow> SSHHostLookupIP (url_host u);
       (if ip \<noteq> [] then RouteSetupVpnServer (Some ip) else ret ());
       S \<leftarrow> RunCommandOpen (SSHConnectCommand u (Ciphers Vpn) Command) 0;
       (if S \<noteq> None then do {
          TerminalPrint (''~cSSH VPN:~0 Setup remote end of connection'' @ newline);
          STREAMWriteLine (Some (''export LC_ALL=C; export LANG=C; '' @ no_prompt @ newline)) S;
          SSHVpnSync S }
        else ret ());
       ret S
     }"

section \<open>The tunnel of ssh\<close>

text \<open>Up to ten lines; the last one read is returned, whether it names a device or not.\<close>

primrec SSHGetRemoteDev_loop :: "nat \<Rightarrow> nat option \<Rightarrow> cstr \<Rightarrow> cstr io" where
  "SSHGetRemoteDev_loop 0 S dev = ret dev"
| "SSHGetRemoteDev_loop (Suc n) S dev =
     do {
       r \<leftarrow> STREAMReadToMultiTerminator [CHR 0x0D, CHR 0x0A] S;
       let dev = map_option StripTrailingWhitespace r;
       dbg \<leftarrow> flag_set FLAG_DEBUG;
       (if dbg then printf (''SSH: SSHGetRemoveDev: readline ['' @ pct_s dev @ '']'' @ newline) else ret ());
       (if StrValid dev \<and> strneq (chars dev) ''tun'' 3 then ret dev else SSHGetRemoteDev_loop n S dev)
     }"

definition SSHGetRemoteDev :: "nat option \<Rightarrow> cstr io" where
  "SSHGetRemoteDev S =
     do {
       STREAMWriteLine (Some (''echo $SSH_TUNNEL'' @ newline)) S;
       STREAMFlush S;
       SSHGetRemoteDev_loop 10 S (Some [])
     }"

definition SSHSetup :: "TVpn \<Rightarrow> nat option \<Rightarrow> (TVpn \<times> bool) io" where
  "SSHSetup Vpn S =
     do {
       STREAMWriteLine (Some (''stty -echo'' @ newline)) S;
       SSHVpnSync S;
       dev \<leftarrow> SSHGetRemoteDev S;
       r \<leftarrow> (if \<not> StrValid dev then do {
              TerminalPrint (''~cSSH VPN: ~r~eFATAL: no '' @ [CHR 0x27] @ ''tun'' @ [CHR 0x27] @ '' device associated with ssh connection~0'' @ newline);
              ret (Vpn, False) }
            else do {
              TerminalPrint (''~cSSH VPN:~0 ~gconnected~0 using remote tunnel dev: ['' @ pct_s dev @ '']'' @ newline);
              Vpn \<leftarrow> (if \<not> StrValid (LocalAddress Vpn)
                 then do { ip \<leftarrow> NetGetDefaultIP; ret (Vpn\<lparr>LocalAddress := Some ip\<rparr>) } else ret Vpn);
              (if StrValid (LocalAddress Vpn) then do {
                 TerminalPrint (''~cSSH VPN:~0 Adding route back to our local IP address '' @ [CHR 0x27] @ pct_s (LocalAddress Vpn)
                   @ [CHR 0x27] @ newline);
                 SSHVpnRunCommand S (chars (MCopyStr None [Some ''/sbin/route add -host '', LocalAddress Vpn, Some '' dev '', dev]))
                   (CMD_SU OR CMD_SUDO);
                 ret () }
               else ret ());
              ret (Vpn, True) });
       TerminalPrint (''~cSSH VPN:~0 ~gSetup complete~0'' @ newline);
       ret r
     }"

definition SSHProcess_body :: "string \<Rightarrow> unit \<Rightarrow> (unit \<times> bool) io" where
  "SSHProcess_body Tempstr s =
     do {
       let Tempstr = StripTrailingWhitespace Tempstr;
       (if Tempstr \<noteq> [] then TerminalPrint (Tempstr @ newline) else ret ());
       quit \<leftarrow> flag_set FLAG_EXIT;
       ret ((), quit)
     }"

definition SSHProcess :: "nat option \<Rightarrow> unit io" where
  "SSHProcess S =
     do {
       quit \<leftarrow> flag_set FLAG_EXIT;
       (if quit then ret () else while_read S (STREAMReadLine S) SSHProcess_body ())
     }"

definition SSHVpnValidate_body :: "string \<Rightarrow> string \<Rightarrow> bool \<Rightarrow> (bool \<times> bool) io" where
  "SSHVpnValidate_body Host Tempstr result =
     (let Tempstr = StripTrailingWhitespace Tempstr
      in ret (if strneq Tempstr ''hostname '' 9 \<and> Host \<noteq> drop 9 Tempstr then True else result, False))"

definition SSHVpnValidate :: "TVpn \<Rightarrow> bool io" where
  "SSHVpnValidate Vpn =
     do {
       u \<leftarrow> lift_option url_zero (ParseURL (Server Vpn));
       S \<leftarrow> STREAMOpen (chars (MCopyStr None [Some ''cmd:ssh -T -G '', Some (url_host u)])) [];
       result \<leftarrow> (case S of
          None \<Rightarrow> ret False
        | Some i \<Rightarrow> do {
            result \<leftarrow> while_read (Some i) (STREAMReadLine (Some i)) (SSHVpnValidate_body (url_host u)) False;
            STREAMClose (Some i);
            ret result });
       (if \<not> result then TerminalPrint (''~cSSH:~0 ~rERROR:~0 '' @ [CHR 0x27] @ url_host u @ [CHR 0x27]
          @ '' does not seem to be configured in the ~/.ssh/config file. Please setup this connection'' @ newline) else ret ());
       ret result
     }"

text \<open>\<open>Dev+3\<close> of a name with fewer than three characters is outside the string.\<close>

definition SSHTunnelOption :: "string \<Rightarrow> cstr \<Rightarrow> string option" where
  "SSHTunnelOption dev remote =
     (if length dev < 3 then None
      else Some (chars (MCopyStr None [Some '' -w '', Some (drop 3 dev), Some '':'',
        Some (if StrValid remote
              then (if strneq (chars remote) ''tun'' 3 then drop 3 (chars remote) else chars remote)
              else ''any'')])))"

definition SSHVpnUp :: "TVpn \<Rightarrow> TVpn io" where
  "SSHVpnUp Vpn =
     do {
       valid \<leftarrow> SSHVpnValidate Vpn;
       (if \<not> valid then ret Vpn
        else do {
          dev \<leftarrow> (if StrValid (Dev Vpn) then ret (chars (Dev Vpn)) else NetDevFindNext ''tun'');
          (if dev \<noteq> [] then do {
             TunSetup ''tun'' (Some dev) (LocalAddress Vpn);
             opt \<leftarrow> lift_option [] (SSHTunnelOption dev (RemoteDev Vpn));
             S \<leftarrow> SSHVpnConnect Vpn opt;
             (if S \<noteq> None then do {
                (Vpn, ok) \<leftarrow> SSHSetup Vpn S;
                (if ok then do {
                   VpnUp Vpn (Some dev);
                   act () (\<lambda>w. ((), w\<lparr>Active := S\<rparr>));
                   TerminalPrint (''~gVPN UP:~0 dev='' @ dev @ newline);
                   SSHProcess S }
                 else ret ());
                RunCommandCleanUp S CMD_KILL;
                STREAMClose S;
                VpnDown Vpn (Some dev);
                ret Vpn }
              else ret Vpn) }
           else ret Vpn) })
     }"

section \<open>Monitored\<close>

context effects
begin

lemma SSHHostFindCommand_keeps [intro!]: "keeps inv (SSHHostFindCommand S c p)"
  unfolding SSHHostFindCommand_def SSHHostFindCommand_body_def by auto

lemma SSHHostLookupIP_keeps [intro!]: "keeps inv (SSHHostLookupIP h)"
  unfolding SSHHostLookupIP_def SSHHostLookupIP_body_def LookupHostIP_def Let_def by auto

lemma SSHVpnSendSync_keeps [intro!]: "keeps inv (SSHVpnSendSync S)"
  unfolding SSHVpnSendSync_def Let_def by auto

lemma SSHVpnSync_keeps [intro!]: "keeps inv (SSHVpnSync S)"
  unfolding SSHVpnSync_def SSHVpnSync_body_def Let_def by auto

lemma SSHVpnRunCommandTry_keeps [intro!]: "keeps inv (SSHVpnRunCommandTry S c f)"
  unfolding SSHVpnRunCommandTry_def by auto

lemma SSHVpnRunCommand_keeps [intro!]: "keeps inv (SSHVpnRunCommand S c f)"
  unfolding SSHVpnRunCommand_def Let_def by auto

lemma SSHVpnConnect_keeps [intro!]: "keeps inv (SSHVpnConnect V c)"
  unfolding SSHVpnConnect_def by auto

lemma SSHGetRemoteDev_keeps [intro!]: "keeps inv (SSHGetRemoteDev S)"
proof -
  have "keeps inv (SSHGetRemoteDev_loop n S d)" for n d
    by (induction n arbitrary: d) (auto simp: Let_def)
  then show ?thesis unfolding SSHGetRemoteDev_def by auto
qed

lemma SSHSetup_keeps [intro!]: "keeps inv (SSHSetup V S)"
  unfolding SSHSetup_def by auto

lemma SSHProcess_keeps [intro!]: "keeps inv (SSHProcess S)"
  unfolding SSHProcess_def SSHProcess_body_def Let_def by auto

lemma SSHVpnValidate_keeps [intro!]: "keeps inv (SSHVpnValidate V)"
  unfolding SSHVpnValidate_def SSHVpnValidate_body_def Let_def by auto

lemma SSHVpnUp_keeps [intro!]: "keeps inv (SSHVpnUp V)"
  unfolding SSHVpnUp_def by (auto intro!: act_frame_keeps)

end

section \<open>Correctness\<close>

lemma SSHHostParseLS_basename:
  "SSHHostParseLS r Cmd l = Some r' \<Longrightarrow> r = [] \<or> Cmd = GetBasename (Some r) \<Longrightarrow> r' = [] \<or> Cmd = GetBasename (Some r')"
  by (auto simp: SSHHostParseLS_def bind_eq_Some_conv split: if_split_asm)

lemma FindCommand_body_basename:
  assumes "r = [] \<or> Cmd = GetBasename (Some r)" "run_state (SSHHostFindCommand_body S Cmd Token r) w = ((r', stop), w')"
  shows "r' = [] \<or> Cmd = GetBasename (Some r')"
  using assms SSHHostParseLS_basename [of r Cmd]
  by (auto simp: SSHHostFindCommand_body_def lift_run split: prod.splits option.splits)

lemma for_tokens_until_result:
  "(\<And>t s w s' stop w'. P s \<Longrightarrow> run_state (body t s) w = ((s', stop), w') \<Longrightarrow> P s') \<Longrightarrow>
   P s \<Longrightarrow> P (fst (run_state (for_tokens_until Sep Fl ptr body s) w))"
proof (induction Sep Fl ptr body s arbitrary: w rule: for_tokens_until.induct)
  case (1 Sep Fl ptr body s)
  show ?case
  proof (cases "GetToken ptr Sep Fl")
    case None
    with "1.prems"(2) show ?thesis by (simp add: for_tokens_until.simps [of Sep Fl ptr] crash_run)
  next
    case (Some r)
    obtain q t where r: "r = (q, t)" by fastforce
    show ?thesis
    proof (cases q)
      case None
      with "1.prems"(2) Some r show ?thesis by (simp add: for_tokens_until.simps [of Sep Fl ptr])
    next
      case q: (Some p)
      obtain s' stop w' where b: "run_state (body t s) w = ((s', stop), w')" by (metis prod.collapse)
      have step: "P s'" using "1.prems"(1) [OF "1.prems"(2) b] .
      show ?thesis
      proof (cases stop)
        case True
        then show ?thesis using Some r q b step by (simp add: for_tokens_until.simps [of Sep Fl ptr])
      next
        case False
        with "1.IH" [OF Some r [symmetric] q _ "1.prems"(1) step, of False] show ?thesis
          using Some r q b by (simp add: for_tokens_until.simps [of Sep Fl ptr])
      qed
    qed
  qed
qed

text \<open>
Whatever the other side answers, \<open>SSHHostFindCommand\<close> returns nothing or a path whose last component
is the program it was asked for.
\<close>

theorem SSHHostFindCommand_basename:
  "fst (run_state (SSHHostFindCommand S Cmd Path) w) = []
   \<or> Cmd = GetBasename (Some (fst (run_state (SSHHostFindCommand S Cmd Path) w)))"
  using for_tokens_until_result [where P = "\<lambda>r. r = [] \<or> Cmd = GetBasename (Some r)" and body = "SSHHostFindCommand_body S Cmd"
      and s = "[]" and Sep = "Some '':''" and Fl = GETTOKEN_QUOTES and ptr = Path and w = w]
    FindCommand_body_basename
  by (auto simp: SSHHostFindCommand_def split: prod.splits)



end
