(* ===== verification/Ppp.thy ===== *)
theory Ppp
  imports UpDown
begin

text \<open>
  \<open>ppp.c\<close>: the local \<open>pppd\<close>, and the loop that relays bytes between it and the remote side.
\<close>

section \<open>Waiting for several streams\<close>

text \<open>
  \<open>STREAMSelect\<close>: a stream that has something to read, or \<open>NULL\<close> when the time is over; a signal may
  arrive while waiting.  The remaining time only decides how long the next call waits.
\<close>

definition STREAMSelect :: "nat list \<Rightarrow> nat option io" where
  "STREAMSelect Connections =
     do {
       (S, sig) \<leftarrow> act (None, False) (\<lambda>w. case sys_select (sys w) (trace w) Connections of (S, sig) \<Rightarrow>
          ((S, sig), note_event (Polled S) w));
       (if sig then SignalHandler SIGINT else ret ());
       ret S
     }"

section \<open>The end of the link\<close>

definition PPPDTryConfigureEndpoint :: "TVpn \<Rightarrow> bool io" where
  "PPPDTryConfigureEndpoint Vpn =
     do {
       d \<leftarrow> NetDevFindForIP ''ppp'' (LocalAddress Vpn);
       (if d \<noteq> [] then do {
          TerminalPrint (''~cPPP:~0 link ~gUP~0 local dev '' @ d @ newline);
          VpnUp Vpn (Some d);
          ret True }
        else ret False)
     }"

definition pppd_message :: "int \<Rightarrow> cstr" where
  "pppd_message st =
     (if st = 2 then Some ''fatal error: pppd encountered a system error''
      else if st = 3 then Some ''bad command-line options to pppd''
      else if st = 4 then Some ''insufficient permission: we are not root, nor suid-root''
      else if st = 5 then Some ''kernel does not support PPP''
      else if st = 7 then Some ''unable to lock serial port''
      else if st = 8 then Some ''unable to open serial port''
      else if st = 9 then Some ''connect script failed''
      else if st = 10 then Some ''pty command cound not be run''
      else if st = 11 then Some ''cannot negotiate a network protocol''
      else if st = 12 then Some ''cannot authenticate peer''
      else if st = 13 then Some ''link closed, idle timeout''
      else if st = 14 then Some ''link closed, connect time limit''
      else if st = 18 then Some ''serial line is looped back''
      else if st = 19 then Some ''init script failed''
      else if st = 20 then Some ''cannot authenticate ourselves to peer''
      else None)"

definition PPPDHandleExit :: "nat option \<Rightarrow> unit io" where
  "PPPDHandleExit S =
     do {
       RunCommandCleanUp S 0;
       ptr \<leftarrow> STREAMGetValue S ''ExitStatus'';
       (if StrValid ptr then
          (case pppd_message (sint (atoi (chars ptr))) of
             None \<Rightarrow> ret ()
           | Some m \<Rightarrow> LogEvent (VPN_LOG_SYSLOG OR VPN_LOG_ERROR) ''PPPD'' m)
        else ret ())
     }"

section \<open>Starting \<open>pppd\<close>\<close>

definition PPPD_OPTIONS :: string where
  "PPPD_OPTIONS = ''nodetach nodefaultroute ipcp-accept-remote lcp-echo-interval 30 lcp-echo-failure 4''"

text \<open>The command line; an address that was not set is chosen first.\<close>

definition PPPDCommand :: "TVpn \<Rightarrow> cstr \<times> TVpn" where
  "PPPDCommand Vpn =
     (let Cmd = Some (''pppd '' @ fmt_d (LineSpeed Vpn) @ '' '' @ PPPD_OPTIONS @ '' '');
          (Cmd, Vpn) = (if \<not> StrValid (LocalAddress Vpn)
             then (CatStr Cmd (Some '' ipcp-accept-local ''), Vpn\<lparr>LocalAddress := CopyStr (LocalAddress Vpn) (Some ''172.16.0.2'')\<rparr>)
             else (Cmd, Vpn));
          Cmd = (if \<not> StrValid (RemoteAddress Vpn) then CatStr Cmd (Some '' ipcp-accept-remote '') else Cmd);
          Cmd = MCatStr Cmd [Some '' '', LocalAddress Vpn, Some '':'', RemoteAddress Vpn, Some '' ''];
          Cmd = (if StrValid (PPPAuth Vpn) then MCatStr Cmd [Some '' name '', PPPAuth Vpn] else Cmd);
          Cmd = CatStr Cmd (Some (if has_flag (Flags Vpn) VPN_VERIFY_PEER then '' auth '' else '' noauth ''));
          Cmd = (if StrValid (DNS Vpn) \<and> chars (DNS Vpn) = ''peer'' then CatStr Cmd (Some '' usepeerdns '') else Cmd);
          Cmd = (if StrValid (Name Vpn) then MCatStr Cmd [Some '' linkname '', Name Vpn] else Cmd);
          Cmd = (if 0 < sint (MTU Vpn) then CatStr Cmd (Some (''mtu '' @ fmt_d (MTU Vpn) @ '' '')) else Cmd)
      in (Cmd, Vpn))"

definition PPPDLaunch :: "TVpn \<Rightarrow> (TVpn \<times> nat option) io" where
  "PPPDLaunch Vpn0 =
     (case PPPDCommand Vpn0 of (Cmd, Vpn) \<Rightarrow> do {
       LogEvent (VPN_LOG_SYSLOG OR VPN_LOG_ERROR) ''PPPDLaunch'' (''['' @ pct_s Cmd @ '']'');
       PPPD \<leftarrow> RunCommandOpen Cmd (CMD_SUDO OR CMD_SU OR CMD_NO_STDERR);
       (if PPPD = None then TerminalPrint (''~rFATAL:~0 failed to launch local PPPD'' @ newline) else ret ());
       ret (Vpn, PPPD) })"

section \<open>The relay\<close>

text \<open>
  Bytes from one side to the other; the result is \<^term>\<open>False\<close> when nothing could be read.  The dump of the
  raw buffer to \<open>stderr\<close> in debug mode is left out.
\<close>

definition PPPDRelay :: "nat option \<Rightarrow> nat option \<Rightarrow> bool io" where
  "PPPDRelay From To =
     do {
       r \<leftarrow> STREAMReadBytes 4096 From;
       (case r of
          None \<Rightarrow> ret False
        | Some d \<Rightarrow> do { STREAMWriteBytes To d; STREAMFlush To; ret True })
     }"

text \<open>One round of the loop: whether it leaves the loop, and whether the endpoint is configured.\<close>

definition PPPDProcess_round :: "TVpn \<Rightarrow> nat \<Rightarrow> nat option \<Rightarrow> bool \<Rightarrow> (bool \<times> bool) io" where
  "PPPDProcess_round Vpn PPPD RemotePeer EndpointConfigured =
     do {
       S \<leftarrow> STREAMSelect (PPPD # (case RemotePeer of None \<Rightarrow> [] | Some r \<Rightarrow> [r]));
       quit \<leftarrow> flag_set FLAG_EXIT;
       (if quit then ret (True, EndpointConfigured)
        else do {
          up \<leftarrow> (if S = Some PPPD then PPPDRelay (Some PPPD) RemotePeer else ret True);
          (if \<not> up then do {
             LogEvent (VPN_LOG_SYSLOG OR VPN_LOG_INFO) ''PPPD'' ''local endpoint disconnected'';
             PPPDHandleExit (Some PPPD);
             ret (True, EndpointConfigured) }
           else do {
             up \<leftarrow> (if S = RemotePeer then PPPDRelay RemotePeer (Some PPPD) else ret True);
             (if \<not> up then do {
                LogEvent (VPN_LOG_SYSLOG OR VPN_LOG_INFO) ''PPPD'' ''remote endpoint disconnected'';
                ret (True, EndpointConfigured) }
              else do {
                c \<leftarrow> (if \<not> EndpointConfigured then PPPDTryConfigureEndpoint Vpn else ret EndpointConfigured);
                ret (False, c) }) }) })
     }"

text \<open>At most \<open>n\<close> rounds; the result says whether the loop was left.\<close>

primrec PPPDProcess_loop :: "nat \<Rightarrow> TVpn \<Rightarrow> nat \<Rightarrow> nat option \<Rightarrow> bool \<Rightarrow> bool io" where
  "PPPDProcess_loop 0 Vpn PPPD RemotePeer EndpointConfigured = ret False"
| "PPPDProcess_loop (Suc n) Vpn PPPD RemotePeer EndpointConfigured =
     do {
       (stop, c) \<leftarrow> PPPDProcess_round Vpn PPPD RemotePeer EndpointConfigured;
       (if stop then ret True else PPPDProcess_loop n Vpn PPPD RemotePeer c)
     }"

text \<open>The whole function, as far as it gets in \<open>n\<close> rounds.\<close>

definition PPPDProcess :: "nat \<Rightarrow> TVpn \<Rightarrow> nat option \<Rightarrow> TVpn io" where
  "PPPDProcess n Vpn0 RemotePeer =
     do {
       printf (''Launch LOCAL pppd'' @ newline);
       (Vpn, PPPD) \<leftarrow> PPPDLaunch Vpn0;
       (case PPPD of
          None \<Rightarrow> ret Vpn
        | Some p \<Rightarrow> do {
            finished \<leftarrow> PPPDProcess_loop n Vpn p RemotePeer False;
            (if finished then STREAMClose (Some p) else ret ());
            ret Vpn })
     }"

section \<open>Monitored\<close>

context effects
begin

lemma STREAMSelect_keeps [intro!]: "keeps inv (STREAMSelect cs)"
  unfolding STREAMSelect_def
  by (intro keeps_bind keeps_act keeps_case_prod keeps_if keeps_ret SignalHandler_keeps) (auto split: prod.split intro: inv_event)

lemma PPPDTryConfigureEndpoint_keeps [intro!]: "keeps inv (PPPDTryConfigureEndpoint V)"
  unfolding PPPDTryConfigureEndpoint_def by auto

lemma PPPDHandleExit_keeps [intro!]: "keeps inv (PPPDHandleExit S)"
  unfolding PPPDHandleExit_def by auto

lemma PPPDLaunch_keeps [intro!]: "keeps inv (PPPDLaunch V)"
  unfolding PPPDLaunch_def by auto

lemma PPPDRelay_keeps [intro!]: "keeps inv (PPPDRelay a b)"
  unfolding PPPDRelay_def by auto

lemma PPPDProcess_round_keeps [intro!]: "keeps inv (PPPDProcess_round V p r c)"
  unfolding PPPDProcess_round_def
  by (intro keeps_bind keeps_if keeps_ret STREAMSelect_keeps flag_set_keeps PPPDRelay_keeps LogEvent_keeps
      PPPDHandleExit_keeps PPPDTryConfigureEndpoint_keeps)

lemma PPPDProcess_loop_keeps [intro!]: "keeps inv (PPPDProcess_loop n V p r c)"
  by (induction n arbitrary: c) auto

lemma PPPDProcess_keeps [intro!]: "keeps inv (PPPDProcess n V r)"
  unfolding PPPDProcess_def by auto

end

section \<open>No byte is lost\<close>

definition unread :: "input list \<Rightarrow> string" where
  "unread is = concat (map (\<lambda>i. case i of Bytes d \<Rightarrow> d | _ \<Rightarrow> []) is)"

text \<open>The bytes that a stream has still to give to its reader.\<close>

definition left_in :: "stream \<Rightarrow> string" where "left_in S = st_buf S @ unread (st_inputs S)"

lemma unread_simps [simp]: "unread [] = []" "unread (Bytes d # is) = d @ unread is" "unread (Pause # is) = unread is"
  "unread (Interrupt # is) = unread is"
  by (simp_all add: unread_def)

lemma read_bytes_unread: "read_bytes n b is = (r, b', is', s) \<Longrightarrow> chars r @ b' @ unread is' = b @ unread is"
proof (induction n b "is" arbitrary: r b' is' s rule: read_bytes.induct)
  case (1 n b)
  then show ?case by (auto split: if_split_asm)
next
  case (2 n b i "is")
  show ?case
  proof (cases "b = []")
    case False
    with "2.prems" show ?thesis by auto
  next
    case b: True
    show ?thesis using "2.IH" "2.prems" b by (cases i) auto
  qed
qed

text \<open>
  Two streams exchange their bytes: what was written to each since the trace was \<open>t\<close> and what the
  other still has to give are together what the other had to give at the start, as long as the process runs.
\<close>

definition relayed :: "nat \<Rightarrow> nat \<Rightarrow> event list \<Rightarrow> string \<Rightarrow> string \<Rightarrow> world \<Rightarrow> bool" where
  "relayed p r t fromp fromr w \<longleftrightarrow> status w = Running \<longrightarrow> (\<exists>evs Sp Sr. trace w = t @ evs \<and> streams w p = Some Sp \<and> streams w r = Some Sr
     \<and> written r evs @ left_in Sp = fromp \<and> written p evs @ left_in Sr = fromr)"

lemma relayed_frame:
  "relayed p r t a b w \<Longrightarrow> status w = Running \<Longrightarrow> trace w' = trace w \<Longrightarrow> streams w' = streams w \<Longrightarrow> relayed p r t a b w'"
  by (simp add: relayed_def)

lemma relayed_event:
  assumes "relayed p r t a b w" "status w = Running" "\<And>i d. e \<noteq> Wrote i d"
  shows "relayed p r t a b (note_event e w)"
proof -
  obtain evs Sp Sr where "trace w = t @ evs" "streams w p = Some Sp" "streams w r = Some Sr"
    "written r evs @ left_in Sp = a" "written p evs @ left_in Sr = b" using assms(1,2) by (auto simp: relayed_def)
  then show ?thesis using assms(3) unfolding relayed_def
    by (intro impI exI [of _ "evs @ [e]"] exI [of _ Sp] exI [of _ Sr]) simp
qed

lemma relayed_stopped: "status w \<noteq> Running \<Longrightarrow> relayed p r t a b w"
  by (simp add: relayed_def)

lemma relayed_emit: "(\<And>i d. e \<noteq> Wrote i d) \<Longrightarrow> keeps (relayed p r t a b) (emit e)"
  unfolding emit_def by (rule keeps_act) (simp add: relayed_event)

lemma relayed_terminate: "keeps (relayed p r t a b) SSHVpnTerminate"
  unfolding SSHVpnTerminate_def
proof (rule keeps_act)
  fix w assume w: "relayed p r t a b w" "status w = Running"
  have cleared: "relayed p r t a b (w'\<lparr>Active := None\<rparr>)" if "relayed p r t a b w'" "status w' = Running" for w'
    using that by (rule relayed_frame) simp_all
  show "relayed p r t a b (snd (case Active w of None \<Rightarrow> ((), w)
      | Some i \<Rightarrow> (case stream_value w i ''PeerPID'' of None \<Rightarrow> ((), w\<lparr>status := Crashed\<rparr>)
          | Some p \<Rightarrow> (let pid = sint (atoi p); w' = (if pid > 1 then note_event (Killed pid 9) w else w)
                in ((), w'\<lparr>Active := None\<rparr>)))))"
  proof (cases "Active w")
    case (Some i)
    show ?thesis
    proof (cases "stream_value w i ''PeerPID''")
      case None
      then show ?thesis using Some by (simp add: relayed_stopped)
    next
      case (Some q)
      have "relayed p r t a b (note_event (Killed (sint (atoi q)) 9) w)" using w by (rule relayed_event) simp
      then show ?thesis using \<open>Active w = Some i\<close> Some w cleared [of w] cleared [of "note_event (Killed (sint (atoi q)) 9) w"]
        by (simp add: Let_def)
    qed
  qed (use w in simp)
qed

lemma relayed_signal: "keeps (relayed p r t a b) (SignalHandler n)"
  unfolding SignalHandler_def setflags_def
  by (intro keeps_if keeps_bind keeps_ret keeps_act relayed_terminate) (auto intro: relayed_frame)

lemma relayed_select: "keeps (relayed p r t a b) (STREAMSelect cs)"
  unfolding STREAMSelect_def
  by (intro keeps_bind keeps_case_prod keeps_if keeps_ret relayed_signal keeps_act)
    (auto split: prod.split intro: relayed_event)

lemma relayed_log: "keeps (relayed p r t a b) (LogEvent f x y)"
  unfolding LogEvent_def TerminalPrint_def Let_def
  by (intro keeps_bind keeps_if keeps_ret keeps_ask relayed_emit keeps_case_prod) auto

lemma relayed_label:
  "(\<And>S. st_buf (f S) = st_buf S \<and> st_inputs (f S) = st_inputs S) \<Longrightarrow> keeps (relayed p r t a b) (label_stream i f)"
  unfolding label_stream_def
  by (rule keeps_act) (auto simp: relayed_def left_in_def split: option.split)

lemma relayed_cleanup: "keeps (relayed p r t a b) (RunCommandCleanUp S 0)"
  unfolding RunCommandCleanUp_def waitpid_def STREAMGetValue_def STREAMSetValue_def Let_def
  by (intro keeps_bind keeps_if keeps_ret keeps_case_option keeps_ask relayed_emit relayed_label keeps_act)
    (auto intro: relayed_event)

lemma relayed_exit: "keeps (relayed p r t a b) (PPPDHandleExit S)"
  unfolding PPPDHandleExit_def STREAMGetValue_def
  by (intro keeps_bind keeps_if keeps_ret keeps_case_option keeps_ask relayed_cleanup relayed_log)

lemma relayed_sym: "relayed p r t a b = relayed r p t b a"
  by (auto simp: relayed_def fun_eq_iff)

text \<open>A signal while reading sends nothing and touches no stream.\<close>

lemma SSHVpnTerminate_silent:
  "streams (snd (run_state SSHVpnTerminate w)) = streams w \<and> (\<exists>es. trace (snd (run_state SSHVpnTerminate w)) = trace w @ es \<and> (\<forall>i. written i es = []))"
proof -
  have "\<exists>es. trace w @ [Killed k n] = trace w @ es \<and> (\<forall>i. written i es = [])" for k n
    by (intro exI [of _ "[Killed k n]"]) simp
  moreover have "\<exists>es. trace w = trace w @ es \<and> (\<forall>i. written i es = [])" by (intro exI [of _ "[]"]) simp
  ultimately show ?thesis
    by (simp add: SSHVpnTerminate_def act_run Let_def split: option.split)
qed

lemma SignalHandler_silent:
  "streams (snd (run_state (SignalHandler n) w)) = streams w \<and> (\<exists>es. trace (snd (run_state (SignalHandler n) w)) = trace w @ es \<and> (\<forall>i. written i es = []))"
  using SSHVpnTerminate_silent [of "if status w = Running then w\<lparr>GlobalFlags := GlobalFlags w OR FLAG_EXIT\<rparr> else w"]
  by (auto simp: SignalHandler_def setflags_run intro!: exI [of _ "[]"] split: prod.split if_split_asm)

lemma relayed_relay:
  assumes "p \<noteq> r"
  shows "keeps (relayed p r t a b) (PPPDRelay (Some p) (Some r))"
  unfolding keeps_def
proof (intro allI impI)
  fix w assume inv: "relayed p r t a b w"
  show "relayed p r t a b (snd (run_state (PPPDRelay (Some p) (Some r)) w))"
  proof (cases "status w = Running")
    case False
    then show ?thesis using inv
      by (simp add: PPPDRelay_def reads_Some stream_read_def act_run)
  next
    case True
    with inv obtain evs Sp Sr where w: "trace w = t @ evs" "streams w p = Some Sp" "streams w r = Some Sr"
      "written r evs @ left_in Sp = a" "written p evs @ left_in Sr = b" by (auto simp: relayed_def)
    obtain x b' is' sig where rd: "read_bytes 4096 (st_buf Sp) (st_inputs Sp) = (x, b', is', sig)" by (metis prod_cases4)
    let ?S = "Sp\<lparr>st_buf := b', st_inputs := is'\<rparr>"
    let ?w = "w\<lparr>streams := (streams w)(p \<mapsto> ?S)\<rparr>"
    let ?v = "snd (run_state (if sig then SignalHandler SIGINT else ret ()) ?w)"
    have split: "chars x @ left_in ?S = left_in Sp" using read_bytes_unread [OF rd] by (simp add: left_in_def)
    obtain es where es: "streams ?v = streams ?w" "trace ?v = trace w @ es" "\<forall>i. written i es = []"
    proof (cases sig)
      case True
      with SignalHandler_silent [of SIGINT ?w] that show thesis by auto
    next
      case False
      with that [of "[]"] show thesis by simp
    qed
    have run: "run_state (STREAMReadBytes 4096 (Some p)) w = (x, ?v)"
      using True w rd by (simp add: reads_Some stream_read_def act_run prod_eq_iff split: prod.split)
    have streams: "streams ?v p = Some ?S" "streams ?v r = Some Sr" using es(1) w(3) assms by simp_all
    have "relayed p r t a b ?v" if "x = None"
      unfolding relayed_def
      using es w split streams that by (intro impI exI [of _ "evs @ es"] exI [of _ ?S] exI [of _ Sr]) simp
    moreover have "relayed p r t a b (note_event (Flushed r) (note_event (Wrote r d) ?v))" if "x = Some d" for d
      unfolding relayed_def
      using es w split streams that assms
      by (intro impI exI [of _ "evs @ es @ [Wrote r d, Flushed r]"] exI [of _ ?S] exI [of _ Sr]) simp
    ultimately show ?thesis using run
      by (cases x) (auto simp: PPPDRelay_def STREAMWriteBytes_def STREAMFlush_def io_simps relayed_stopped split: prod.split)
  qed
qed

lemma relayed_round:
  assumes "p \<noteq> r"
  shows "keeps (relayed p r t a b) (PPPDProcess_round V p (Some r) True)"
proof -
  have "keeps (relayed p r t a b) (PPPDRelay (Some r) (Some p))"
    using relayed_relay [of r p t b a] assms by (simp add: relayed_sym)
  with relayed_relay [OF assms] show ?thesis
    unfolding PPPDProcess_round_def flag_set_def
    by (intro keeps_bind keeps_if keeps_ret keeps_ask relayed_select relayed_log relayed_exit) simp_all
qed

lemma PPPDProcess_round_configured: "run_state (PPPDProcess_round V p R True) w = ((s, c), w') \<Longrightarrow> c"
  by (auto simp: PPPDProcess_round_def io_simps split: prod.splits if_split_asm)

lemma relayed_loop: "p \<noteq> r \<Longrightarrow> keeps (relayed p r t a b) (PPPDProcess_loop n V p (Some r) True)"
proof (induction n)
  case (Suc n)
  then show ?case using relayed_round [OF Suc.prems, of t a b V]
    by (auto simp: keeps_def split: prod.split) (metis PPPDProcess_round_configured snd_conv)
qed auto

section \<open>The relay ends\<close>

lemma read_bytes_shrinks: "0 < n \<Longrightarrow> read_bytes n b is = (Some r, b', is', s) \<Longrightarrow> stream_size b' is' < stream_size b is"
proof (induction n b "is" arbitrary: r b' is' s rule: read_bytes.induct)
  case (1 n b)
  then show ?case by (auto simp: stream_size_def split: if_split_asm)
next
  case (2 n b i "is")
  show ?case
  proof (cases "b = []")
    case False
    with "2.prems" show ?thesis by (auto simp: stream_size_def)
  next
    case b: True
    show ?thesis
    proof (cases i)
      case (Bytes d)
      have "read_bytes n d is = (Some r, b', is', s)" using "2.prems" b Bytes by simp
      from "2.IH" [OF _ Bytes "2.prems"(1) this] b Bytes show ?thesis by (simp add: stream_size_def input_size_def)
    qed (use "2.prems" b in auto)
  qed
qed

lemma STREAMReadBytes_shrinks: "0 < n \<Longrightarrow> shrinks i (STREAMReadBytes n (Some i))"
  unfolding reads_Some by (rule stream_read_shrinks) (rule read_bytes_shrinks)

lemma PPPDRelay_shrinks:
  assumes "run_state (PPPDRelay (Some i) To) w = (True, w')" "bounded i k w"
  shows "\<exists>j. k = Suc j \<and> bounded i j w'"
proof -
  obtain x w1 where x: "run_state (STREAMReadBytes 4096 (Some i)) w = (x, w1)" by fastforce
  then obtain d where d: "x = Some d" using assms(1) by (cases x) (auto simp: PPPDRelay_def)
  then obtain j where j: "k = Suc j" "bounded i j w1"
    using shrinksD [OF STREAMReadBytes_shrinks [of 4096 i], of w d w1 k] x assms(2) by auto
  have "keeps (bounded i j) (do { STREAMWriteBytes To d; STREAMFlush To; ret True })" by auto
  then show ?thesis using assms(1) x d j by (auto simp: PPPDRelay_def keeps_def split: prod.splits)
qed

definition always_ready :: "system \<Rightarrow> nat \<Rightarrow> nat \<Rightarrow> bool" where
  "always_ready y p r \<longleftrightarrow> (\<forall>evs. fst (sys_select y evs [p, r]) = Some p \<or> fst (sys_select y evs [p, r]) = Some r)"

lemma stopped_stays: "(\<And>v. keeps (\<lambda>u. u = v \<and> status v \<noteq> Running) m) \<Longrightarrow> run_state m w = (x, w') \<Longrightarrow> status w \<noteq> Running \<Longrightarrow> w' = w"
  unfolding keeps_def by (metis snd_conv)

lemma PPPDProcess_round_shrinks:
  assumes run: "run_state (PPPDProcess_round V p (Some r) c) w = ((stop, c'), w')"
    and ready: "always_ready (sys w) p r" and b: "bounded p k w" "bounded r l w" and "p \<noteq> r"
  shows "stop \<or> status w' \<noteq> Running \<or> (\<exists>i j. bounded p i w' \<and> bounded r j w' \<and> i + j < k + l)"
proof (cases "stop \<or> status w' \<noteq> Running")
  case False
  obtain S w1 where S: "run_state (STREAMSelect [p, r]) w = (S, w1)" by fastforce
  have "status w = Running"
    using stopped_stays [OF halted.PPPDProcess_round_keeps run] False by auto
  then have "S = Some p \<or> S = Some r"
    using S ready by (auto simp: STREAMSelect_def act_run always_ready_def split: prod.splits) (metis fst_conv)
  moreover have b1: "bounded p k w1" "bounded r l w1"
    using stream_bound.STREAMSelect_keeps [of p k "[p, r]"] stream_bound.STREAMSelect_keeps [of r l "[p, r]"] S b
    by (auto simp: keeps_def)
  ultimately consider "S = Some p" | "S = Some r" by blast
  then have "\<exists>up w2. run_state (if S = Some p then PPPDRelay (Some p) (Some r) else PPPDRelay (Some r) (Some p)) w1 = (up, w2)
     \<and> up \<and> run_state (if \<not> c then PPPDTryConfigureEndpoint V else ret c) w2 = (c', w')"
    using run False S \<open>p \<noteq> r\<close> by cases (auto simp: PPPDProcess_round_def io_simps split: prod.splits if_split_asm)
  then obtain w2 where relay: "run_state (if S = Some p then PPPDRelay (Some p) (Some r) else PPPDRelay (Some r) (Some p)) w1 = (True, w2)"
    and conf: "run_state (if \<not> c then PPPDTryConfigureEndpoint V else ret c) w2 = (c', w')" by auto
  have conf_keeps: "bounded i m w2 \<Longrightarrow> bounded i m w'" for i m
    using stream_bound.PPPDTryConfigureEndpoint_keeps [of i m V] conf by (auto simp: keeps_def split: if_split_asm)
  have other: "bounded i m w1 \<Longrightarrow> run_state (PPPDRelay x y) w1 = (True, w2) \<Longrightarrow> bounded i m w2" for i m x y
    using stream_bound.PPPDRelay_keeps [of i m x y] by (auto simp: keeps_def)
  have "\<exists>i j. bounded p i w2 \<and> bounded r j w2 \<and> i + j < k + l"
  proof (cases "S = Some p")
    case True
    then obtain i where "k = Suc i" "bounded p i w2" using PPPDRelay_shrinks [OF _ b1(1)] relay by auto
    with other [OF b1(2)] relay True show ?thesis by (intro exI [of _ i] exI [of _ l]) auto
  next
    case False
    then obtain j where "l = Suc j" "bounded r j w2" using PPPDRelay_shrinks [OF _ b1(2)] relay by auto
    with other [OF b1(1)] relay False show ?thesis by (intro exI [of _ k] exI [of _ j]) auto
  qed
  then show ?thesis using conf_keeps by blast
qed blast

lemma PPPDProcess_loop_ends:
  assumes "p \<noteq> r" and ready: "always_ready y p r"
  shows "sys w = y \<Longrightarrow> bounded p k w \<Longrightarrow> bounded r l w \<Longrightarrow> k + l < n \<Longrightarrow> run_state (PPPDProcess_loop n V p (Some r) c) w = (x, w') \<Longrightarrow>
    x \<or> status w' \<noteq> Running"
proof (induction n arbitrary: w k l c)
  case (Suc n)
  obtain stop c1 w1 where rnd: "run_state (PPPDProcess_round V p (Some r) c) w = ((stop, c1), w1)" by (metis prod.collapse)
  show ?case
  proof (cases stop)
    case True
    then show ?thesis using Suc.prems(5) rnd by simp
  next
    case False
    then have rest: "run_state (PPPDProcess_loop n V p (Some r) c1) w1 = (x, w')" using Suc.prems(5) rnd by simp
    show ?thesis
    proof (cases "status w1 = Running")
      case True
      then obtain i j where ij: "bounded p i w1" "bounded r j w1" "i + j < k + l"
        using PPPDProcess_round_shrinks [OF rnd _ Suc.prems(2,3) assms(1)] False ready Suc.prems(1) by auto
      have "sys w1 = y" using surroundings.PPPDProcess_round_keeps [of y V p "Some r" c] rnd Suc.prems(1)
        by (auto simp: keeps_def)
      from Suc.IH [OF this ij(1,2) _ rest] ij(3) Suc.prems(4) show ?thesis by simp
    next
      case False
      then have "w' = w1" using stopped_stays [OF halted.PPPDProcess_loop_keeps rest] by blast
      then show ?thesis using False by simp
    qed
  qed
qed simp

section \<open>Correctness\<close>


definition link_world :: world where
  "link_world = initial_world (silent_system\<lparr>sys_select := \<lambda>evs _. (Some (length evs mod 2), False)\<rparr>)
     \<lparr>streams := [0 \<mapsto> \<lparr>st_buf = ''a'', st_inputs = [Bytes ''bc'', Bytes ''d''], st_values = [], st_items = []\<rparr>,
                  1 \<mapsto> \<lparr>st_buf = [], st_inputs = [Bytes ''xyz''], st_values = [], st_items = []\<rparr>], next_stream := 2\<rparr>"

definition link_result :: "bool \<times> world" where
  "link_result = run_state (PPPDProcess_loop 3 TVpn_zero 0 (Some 1) True) link_world"


text \<open>
C22. The relay cannot go on for ever while there is always something ready: it leaves its loop, or the process
ends, after no more rounds than the two streams have characters and inputs pending.  (Only rounds in which
nothing is ready can be repeated without end.)
\<close>

theorem PPPDProcess_ends:
  assumes "p \<noteq> r" "always_ready (sys w) p r" "p < next_stream w" "r < next_stream w"
    and "pending_of w (Some p) + pending_of w (Some r) < n"
    and "run_state (PPPDProcess_loop n V p (Some r) c) w = (x, w')"
  shows "x \<or> status w' \<noteq> Running"
  using PPPDProcess_loop_ends [OF assms(1,2) refl, of "pending_of w (Some p)" "pending_of w (Some r)" n V c x w'] assms(3-6)
  by (simp add: bounded_def)

definition link_end :: "bool \<times> world" where
  "link_end = run_state (PPPDProcess_loop 14 (TVpn_zero\<lparr>LocalAddress := Some ''10.0.0.1''\<rparr>) 0 (Some 1) False) link_world"

theorem PPPDProcess_ends_witness: "fst link_end \<and> status (snd link_end) = Running"
proof -
  have "always_ready (sys link_world) 0 1"
    by (auto simp: always_ready_def link_world_def initial_world_def)
  moreover have "0 < next_stream link_world" "1 < next_stream link_world"
    "pending_of link_world (Some 0) + pending_of link_world (Some 1) < 14" by code_simp+
  moreover have "run_state (PPPDProcess_loop 14 (TVpn_zero\<lparr>LocalAddress := Some ''10.0.0.1''\<rparr>) 0 (Some 1) False) link_world
      = (fst link_end, snd link_end)" by (simp add: link_end_def)
  ultimately have "fst link_end \<or> status (snd link_end) \<noteq> Running" by (intro PPPDProcess_ends) simp_all
  moreover have "status (snd link_end) = Running" by code_simp
  ultimately show ?thesis by simp
qed

end
