(* ===== verification/PppSsh.thy ===== *)
theory PppSsh
  imports Ssh Ppp
begin

text \<open>\<open>pppssh.c\<close>: a \<open>pppd\<close> at each end of an ssh session.  \<open>n\<close> bounds the rounds of the relay.\<close>

definition q_s :: string where "q_s = [CHR 0x27]"

definition PPPSSHIdentity :: "TVpn \<Rightarrow> cstr io" where
  "PPPSSHIdentity Vpn =
     (if StrValid (ClientID Vpn) then ret (CopyStr None (ClientID Vpn))
      else do {
        user \<leftarrow> ask None (\<lambda>w. sys_user (sys w));
        host \<leftarrow> ask None (\<lambda>w. sys_hostname (sys w));
        ret (MCatStr (CopyStr None user) [Some [CHR 0x40], host]) })"

definition PPPSSHFlags :: "cint \<Rightarrow> cint" where
  "PPPSSHFlags g =
     CMD_NOSYNC OR CMD_SSH OR (if has_flag g FLAG_REMOTE_SU then CMD_SU else 0)
       OR (if has_flag g FLAG_REMOTE_SUDO then CMD_SUDO else 0)"

definition PPPSSHVpnUp :: "nat \<Rightarrow> TVpn \<Rightarrow> TVpn io" where
  "PPPSSHVpnUp n Vpn =
     do {
       valid \<leftarrow> SSHVpnValidate Vpn;
       (if \<not> valid then do {
          printf (q_s @ pct_s (Server Vpn) @ q_s
            @ '' does not seem to be configured in the ~/.ssh/config file. Please setup this connection'' @ newline);
          ret Vpn }
        else do {
          S \<leftarrow> SSHVpnConnect Vpn '''';
          (if S \<noteq> None then do {
             Cmd \<leftarrow> SSHHostFindCommand S ''pppd'' (RemoteSearchPath Vpn);
             let Cmd = (if Cmd = [] then ''pppd'' else Cmd);
             let Vpn = (if \<not> StrValid (RemoteAddress Vpn) then Vpn\<lparr>RemoteAddress := Some ''172.16.0.1''\<rparr> else Vpn);
             ID \<leftarrow> PPPSSHIdentity Vpn;
             g \<leftarrow> getflags;
             let Fl = PPPSSHFlags g;
             let Tempstr = Cmd @ '' '' @ fmt_d (LineSpeed Vpn) @ '' ipparam '' @ q_s @ pct_s ID @ q_s @ '' ''
                   @ pct_s (RemoteAddress Vpn) @ '': '' @ PPPD_OPTIONS;
             let Tempstr = (if has_flag Fl (CMD_SU OR CMD_SUDO) then Tempstr @ '' noauth'' else Tempstr);
             SSHVpnRunCommand S Tempstr Fl;
             PPPDProcess n Vpn S }
           else ret Vpn) })
     }"

context effects
begin

lemma PPPSSHVpnUp_keeps [intro!]: "keeps inv (PPPSSHVpnUp n V)"
  unfolding PPPSSHVpnUp_def PPPSSHIdentity_def Let_def by auto

end

end
