(* ===== verification/SslClient.thy ===== *)
theory SslClient
  imports Ppp URL
begin

text \<open>
  \<open>ssl_client.c\<close>: a \<open>pppd\<close> connected to a TLS stream.  The last statement of the function, \<open>STREAM(S);\<close>,
  declares an unused variable: the stream is never closed.  \<open>n\<close> bounds the rounds of the relay.
\<close>

definition SSLClientConfig :: "TVpn \<Rightarrow> cstr" where
  "SSLClientConfig Vpn =
     (let Tempstr = MCopyStr None [Some ''rw SSL:CertFile='', ClientCert Vpn];
          Tempstr = (if StrValid (ClientKey Vpn) then MCatStr Tempstr [Some '' SSL:KeyFile='', ClientKey Vpn]
                     else MCatStr Tempstr [Some '' SSL:KeyFile='', ClientCert Vpn]);
          Tempstr = (if StrValid (VerifyCert Vpn) then MCatStr Tempstr [Some '' SSL:VerifyFile='', VerifyCert Vpn] else Tempstr)
      in if StrValid (Ciphers Vpn) then MCatStr Tempstr [Some '' SSL:PermittedCiphers='', Ciphers Vpn] else Tempstr)"

definition certificate_ok :: "cstr \<Rightarrow> bool" where
  "certificate_ok ptr \<longleftrightarrow> StrValid ptr \<and> chars ptr = ''OK''"

definition PPPSSLClientVpnUp :: "nat \<Rightarrow> TVpn \<Rightarrow> TVpn io" where
  "PPPSSLClientVpnUp n Vpn =
     do {
       u \<leftarrow> lift_option url_zero (UnpackURL (Server Vpn));
       RouteSetupVpnServer (Some (url_host u));
       let URL = chars (MCopyStr None [Some ''tls:'', Some (url_host u), Some '':'', Some (url_port u)]);
       S \<leftarrow> STREAMOpen URL (chars (SSLClientConfig Vpn));
       (if S \<noteq> None then do {
          details \<leftarrow> STREAMGetValue S ''SSL:CipherDetails'';
          bits \<leftarrow> STREAMGetValue S ''SSL:CipherBits'';
          TerminalPrint (''~mTLS/SSL:~0 ~gConnected~0 encryption: ['' @ pct_s details @ '' '' @ pct_s bits @ '' bit]'' @ newline);
          issuer \<leftarrow> STREAMGetValue S ''SSL:CertificateIssuer'';
          cname \<leftarrow> STREAMGetValue S ''SSL:CertificateCommonName'';
          before \<leftarrow> STREAMGetValue S ''SSL:CertificateNotBefore'';
          after \<leftarrow> STREAMGetValue S ''SSL:CertificateNotAfter'';
          TerminalPrint (''~mTLS/SSL:~0 Server Certificate: issued by: ['' @ pct_s issuer @ ''] for ['' @ pct_s cname @ ''] from [''
            @ pct_s before @ ''] to ['' @ pct_s after @ '']'' @ newline);
          ptr \<leftarrow> STREAMGetValue S ''SSL:CertificateVerify'';
          Vpn \<leftarrow> (if certificate_ok ptr then do {
                 TerminalPrint (''~mTLS/SSL:~0 ~gCertificate Valid: This link is protected from man-in-the-middle attacks~0'' @ newline);
                 ret (Vpn\<lparr>Flags := Flags Vpn AND NOT VPN_VERIFY_PEER\<rparr>) }
               else do {
                 TerminalPrint (''~mTLS/SSL:~0 ~rCANNOT CONFIRM SERVER CERTIFICATE: '' @ pct_s ptr
                   @ ''. This link is vulnerable to man-in-the-middle-attacks~0'' @ newline);
                 ret Vpn });
          PPPDProcess n Vpn S }
        else do { TerminalPrint (''~rFATAL:~0 Can'' @ [CHR 0x27] @ ''t connect to ['' @ URL @ '']'' @ newline); ret Vpn })
     }"

context effects
begin

lemma PPPSSLClientVpnUp_keeps [intro!]: "keeps inv (PPPSSLClientVpnUp n V)"
  unfolding PPPSSLClientVpnUp_def Let_def by auto

end

end
