(* ===== verification/SslServer.thy ===== *)
theory SslServer
  imports SslClient
begin

text \<open>
  \<open>ssl_server.c\<close>: accepting TLS clients, deciding who may connect, and relaying between each client and a
  \<open>pppd\<close> of its own.  \<open>Connections\<close> is a list of pointers, some of them \<open>NULL\<close>; the select function moves the
  stream it chose to the end of it, which only matters for the choice among streams that are ready, and
  that choice is made by the surroundings.
\<close>

definition SSL_AUTH_CERTIFICATE :: cint where "SSL_AUTH_CERTIFICATE = 1"
definition SSL_AUTH_USER :: cint where "SSL_AUTH_USER = 2"
definition SSL_AUTH_OKAY :: cint where "SSL_AUTH_OKAY = 3"

lemmas ssl_auth_defs = SSL_AUTH_CERTIFICATE_def SSL_AUTH_USER_def SSL_AUTH_OKAY_def

section \<open>Who may connect\<close>

definition log_okay :: "string \<Rightarrow> string \<Rightarrow> unit io" where
  "log_okay Title Text = LogEvent (VPN_LOG_SYSLOG OR VPN_LOG_OKAY) Title Text"

text \<open>The lists behind \<open>users:\<close>, \<open>ips:\<close> and \<open>ip-only:\<close>.\<close>

definition SSLAuth_list :: "cstr \<Rightarrow> string \<Rightarrow> string \<Rightarrow> cint \<Rightarrow> cint io" where
  "SSLAuth_list Item List what grant =
     do {
       let ptr = dropWhile isspace List;
       found \<leftarrow> lift_option False (InStringList Item (Some ptr) (Some '',''));
       (if found then ret grant
        else do {
          log_okay ''CLIENT AUTH'' (''['' @ pct_s Item @ ''] not in list of allowed '' @ what @ '': '' @ ptr @ newline);
          ret 0 })
     }"

definition SSLAuth_named :: "string \<Rightarrow> cstr \<Rightarrow> cstr \<Rightarrow> cint io" where
  "SSLAuth_named Auth p_UserName p_PeerIP =
     (if CompareStrNoCase_eq (Some Auth) (Some ''cert'') then ret SSL_AUTH_USER
      else if CompareStrNoCase_eq (Some Auth) (Some ''system'') then do {
        known \<leftarrow> ask False (\<lambda>w. sys_isuser (sys w) (chars p_UserName));
        ret (if StrValid p_UserName \<and> known then SSL_AUTH_USER else 0) }
      else if strncaseeq Auth ''users:'' 6 then SSLAuth_list p_UserName (drop 6 Auth) ''users'' SSL_AUTH_USER
      else if strncaseeq Auth ''ips:'' 4 then SSLAuth_list p_PeerIP (drop 4 Auth) ''ips'' SSL_AUTH_USER
      else if strncaseeq Auth ''ip-only:'' 8 then SSLAuth_list p_PeerIP (drop 8 Auth) ''ips'' SSL_AUTH_OKAY
      else ret 0)"

definition SSLAuth_certificate :: "TVpn \<Rightarrow> nat option \<Rightarrow> cstr \<Rightarrow> cstr \<Rightarrow> cint io" where
  "SSLAuth_certificate Vpn S p_UserName p_PeerIP =
     (if StrValid p_UserName then do {
        ptr \<leftarrow> STREAMGetValue S ''SSL:CertificateVerify'';
        issuer \<leftarrow> STREAMGetValue S ''SSL:CertificateIssuer'';
        details \<leftarrow> STREAMGetValue S ''SSL:CipherDetails'';
        log_okay ''NEW CLIENT:'' (pct_s p_UserName @ [CHR 0x40] @ pct_s p_PeerIP @ ''  CertificateStatus: '' @ pct_s ptr
          @ ''. CertificateIssuer: '' @ pct_s issuer @ ''. Encryption: '' @ pct_s details @ ''. RequiredAuthLevel: ''
          @ pct_s (ServerAuth Vpn));
        ret (if certificate_ok ptr then SSL_AUTH_CERTIFICATE else 0) }
      else ret 0)"

definition SSLAuth_level :: "TVpn \<Rightarrow> nat option \<Rightarrow> cstr \<Rightarrow> cstr \<Rightarrow> cint io" where
  "SSLAuth_level Vpn S p_UserName p_PeerIP =
     (if StrValid (ServerAuth Vpn) then do {
        let Auth = chars (ServerAuth Vpn);
        f \<leftarrow> (if StrValid p_UserName then SSLAuth_named Auth p_UserName p_PeerIP
             else do {
               ip \<leftarrow> STREAMGetValue S ''PeerIP'';
               log_okay ''NEW CLIENT:'' (pct_s ip @ '' Lacks Certificate. RequiredAuthLevel: '' @ Auth);
               ret 0 });
        ret ((if CompareStrNoCase_eq (Some Auth) (Some ''open'') then SSL_AUTH_OKAY else 0) OR f) }
      else ret SSL_AUTH_USER)"

definition SSLAuth :: "TVpn \<Rightarrow> nat option \<Rightarrow> bool io" where
  "SSLAuth Vpn S =
     do {
       p_PeerIP \<leftarrow> STREAMGetValue S ''PeerIP'';
       p_UserName \<leftarrow> STREAMGetValue S ''SSL:CertificateCommonName'';
       c \<leftarrow> SSLAuth_certificate Vpn S p_UserName p_PeerIP;
       l \<leftarrow> SSLAuth_level Vpn S p_UserName p_PeerIP;
       cname \<leftarrow> STREAMGetValue S ''SSL:CertificateCommonName'';
       ip \<leftarrow> STREAMGetValue S ''PeerIP'';
       (if c OR l = SSL_AUTH_OKAY then do {
          issuer \<leftarrow> STREAMGetValue S ''SSL:CertificateIssuer'';
          details \<leftarrow> STREAMGetValue S ''SSL:CipherDetails'';
          log_okay ''CONNECTED'' (pct_s cname @ [CHR 0x40] @ pct_s ip @ '' authenticated by certificate authority ''
            @ pct_s issuer @ ''. Encryption: '' @ pct_s details @ ''.'');
          ret True }
        else do {
          LogEvent (VPN_LOG_SYSLOG OR VPN_LOG_ERROR) ''CONNECT FAIL'' (pct_s cname @ [CHR 0x40] @ pct_s ip @ '' unauthorized'');
          ret False })
     }"

section \<open>The connections\<close>

text \<open>\<open>ListDeleteItem\<close> of \<open>NULL\<close> finds nothing to delete.\<close>

definition ListDeleteItem :: "nat option list \<Rightarrow> nat option \<Rightarrow> nat option list" where
  "ListDeleteItem Connections Item = (if Item = None then Connections else remove1 Item Connections)"

definition SSLShutdownConnection :: "nat option list \<Rightarrow> nat option \<Rightarrow> nat option \<Rightarrow> nat option list io" where
  "SSLShutdownConnection Connections Con Peer =
     do {
       cname \<leftarrow> STREAMGetValue Peer ''SSL:CertificateCommonName'';
       ip \<leftarrow> STREAMGetValue Peer ''PeerIP'';
       LogEvent VPN_LOG_SYSLOG ''DISCONNECT'' (pct_s cname @ [CHR 0x40] @ pct_s ip @ '' connection closed'');
       STREAMClose Peer;
       STREAMClose Con;
       ret (ListDeleteItem (ListDeleteItem Connections Con) Peer)
     }"

definition SSLProcess :: "nat option list \<Rightarrow> nat option \<Rightarrow> nat option list io" where
  "SSLProcess Connections S =
     do {
       Peer \<leftarrow> STREAMGetItem S ''Peer'';
       r \<leftarrow> STREAMReadBytes 4096 S;
       (if Peer \<noteq> None \<and> r \<noteq> None then do { STREAMWriteBytes Peer (chars r); ret Connections }
        else SSLShutdownConnection Connections S Peer)
     }"

definition STREAMServerAccept :: "nat option \<Rightarrow> nat option io" where
  "STREAMServerAccept Listener =
     (if Listener = None then ret None
      else act None (\<lambda>w. open_record w ''accept'' [] (sys_accept (sys w) (trace w))))"

definition SSLAcceptClient :: "TVpn \<Rightarrow> nat option list \<Rightarrow> nat option \<Rightarrow> (TVpn \<times> nat option list) io" where
  "SSLAcceptClient Vpn Connections Listener =
     do {
       Client \<leftarrow> STREAMServerAccept Listener;
       ok \<leftarrow> SSLAuth Vpn Client;
       (if ok then do {
          ip \<leftarrow> NetDevFindNextIP ''172.16.0'';
          (Vpn, PPPD) \<leftarrow> PPPDLaunch (Vpn\<lparr>RemoteAddress := Some ip\<rparr>);
          STREAMSetItem PPPD ''Peer'' Client;
          STREAMSetItem Client ''Peer'' PPPD;
          ret (Vpn, Connections @ [PPPD, Client]) }
        else do { STREAMClose Client; ret (Vpn, Connections) })
     }"

section \<open>The server\<close>

text \<open>One round: \<^term>\<open>True\<close> in the result if the loop was left because the program is to exit.\<close>

primrec SSLServer_loop :: "nat \<Rightarrow> TVpn \<Rightarrow> nat option list \<Rightarrow> nat option \<Rightarrow> (TVpn \<times> bool) io" where
  "SSLServer_loop 0 Vpn Connections Listener = ret (Vpn, False)"
| "SSLServer_loop (Suc n) Vpn Connections Listener =
     do {
       quit \<leftarrow> flag_set FLAG_EXIT;
       (if quit then ret (Vpn, True)
        else do {
          S \<leftarrow> STREAMSelect (List.map_filter (\<lambda>x. x) Connections);
          (Vpn, Connections) \<leftarrow>
            (if S \<noteq> None then do {
               r \<leftarrow> (if S = Listener then SSLAcceptClient Vpn Connections Listener
                    else do { c \<leftarrow> SSLProcess Connections S; ret (Vpn, c) });
               waitpid (- 1);
               ret r }
             else ret (Vpn, Connections));
          SSLServer_loop n Vpn Connections Listener })
     }"

definition SSLServerConfig :: "TVpn \<Rightarrow> cstr" where
  "SSLServerConfig Vpn =
     MCatStr (MCopyStr None [Some ''rw SSL:VerifyFile='', VerifyCert Vpn])
       [Some '' SSL:CertFile='', ClientCert Vpn, Some '' SSL:KeyFile='', ClientKey Vpn]"

definition SSLServer :: "nat \<Rightarrow> TVpn \<Rightarrow> TVpn io" where
  "SSLServer n Vpn =
     (let err = LogEvent (VPN_LOG_SYSLOG OR VPN_LOG_ERROR) ''ERROR''
      in if \<not> StrValid (ClientCert Vpn) then do { err ''No TLS/SSL certificate supplied''; ret Vpn }
         else if \<not> StrValid (ClientKey Vpn) then do { err ''No TLS/SSL key supplied''; ret Vpn }
         else if \<not> StrValid (VerifyCert Vpn) then do { err ''No TLS/SSL user verfication C.A. certificate supplied''; ret Vpn }
         else do {
           let Vpn = (if \<not> StrValid (LocalAddress Vpn) then Vpn\<lparr>LocalAddress := Some ''172.16.0.1''\<rparr> else Vpn);
           u \<leftarrow> lift_option url_zero (ParseURL (Server Vpn));
           S \<leftarrow> STREAMOpen (chars (MCopyStr None [Some ''tls:'', Some (url_host u), Some '':'', Some (url_port u)]))
                 (chars (SSLServerConfig Vpn));
           r \<leftarrow> SSLServer_loop n Vpn [S] S;
           ret (fst r) })"

section \<open>Monitored\<close>

context effects
begin

lemma log_okay_keeps [intro!]: "keeps inv (log_okay t m)"
  unfolding log_okay_def by auto

lemma SSLAuth_keeps [intro!]: "keeps inv (SSLAuth V S)"
proof -
  have "keeps inv (SSLAuth_list i l wh g)" for i l wh g
    unfolding SSLAuth_list_def Let_def by auto
  then have "keeps inv (SSLAuth_level V S u p)" for u p
    unfolding SSLAuth_level_def SSLAuth_named_def Let_def by auto
  moreover have "keeps inv (SSLAuth_certificate V S u p)" for u p
    unfolding SSLAuth_certificate_def by auto
  ultimately show ?thesis unfolding SSLAuth_def by auto
qed

lemma SSLProcess_keeps [intro!]: "keeps inv (SSLProcess cs S)"
  unfolding SSLProcess_def SSLShutdownConnection_def by auto

lemma STREAMServerAccept_keeps [intro!]: "keeps inv (STREAMServerAccept S)"
  unfolding STREAMServerAccept_def by (intro keeps_if keeps_ret keeps_act open_record_inv)

lemma SSLAcceptClient_keeps [intro!]: "keeps inv (SSLAcceptClient V cs S)"
  unfolding SSLAcceptClient_def by auto

lemma SSLServer_loop_keeps [intro!]: "keeps inv (SSLServer_loop n V cs S)"
  by (induction n arbitrary: V cs) auto

lemma SSLServer_keeps [intro!]: "keeps inv (SSLServer n V)"
  unfolding SSLServer_def Let_def by auto

end

section \<open>The decision, as a specification\<close>

text \<open>
  \<open>user\<close>, \<open>verify\<close> and \<open>ip\<close> are what the TLS layer says of the client, \<open>known\<close> the users of the system.
\<close>

definition listed :: "cstr \<Rightarrow> string \<Rightarrow> bool" where
  "listed x l \<longleftrightarrow> (case x of None \<Rightarrow> False | Some a \<Rightarrow> a \<in> set (csplit CHR '','' (dropWhile isspace l)))"

definition ssl_admits :: "cstr \<Rightarrow> cstr \<Rightarrow> cstr \<Rightarrow> cstr \<Rightarrow> (string \<Rightarrow> bool) \<Rightarrow> bool" where
  "ssl_admits auth user verify ip known =
     (let cert = (StrValid user \<and> certificate_ok verify); a = chars auth
      in if \<not> StrValid auth then cert
         else if strcaseeq a ''open'' then True
         else if \<not> StrValid user then False
         else if strcaseeq a ''cert'' then cert
         else if strcaseeq a ''system'' then cert \<and> known (chars user)
         else if strncaseeq a ''users:'' 6 then cert \<and> listed user (drop 6 a)
         else if strncaseeq a ''ips:'' 4 then cert \<and> listed ip (drop 4 a)
         else if strncaseeq a ''ip-only:'' 8 then listed ip (drop 8 a)
         else False)"

section \<open>Steps\<close>

lemma LogEvent_frame [simp]:
  "status (snd (run_state (LogEvent f t m) w)) = status w" "streams (snd (run_state (LogEvent f t m) w)) = streams w"
  "sys (snd (run_state (LogEvent f t m) w)) = sys w"
  by (simp_all add: LogEvent_def io_simps Let_def split: prod.split)

lemma LogEvent_unit: "run_state (LogEvent f t m) w = ((), snd (run_state (LogEvent f t m) w))"
  by (simp add: prod_eq_iff)

lemma STREAMGetValue_run [io_simps]:
  "run_state (STREAMGetValue S k) w = (if status w = Running then (case S of None \<Rightarrow> None | Some i \<Rightarrow> stream_value w i k) else None, w)"
  by (cases S) (simp_all add: STREAMGetValue_def ask_run)

text \<open>A step that keeps what the decision is made from.\<close>

definition decides :: "'a io \<Rightarrow> world \<Rightarrow> 'a \<Rightarrow> bool" where
  "decides m w x \<longleftrightarrow> (\<exists>w'. run_state m w = (x, w') \<and> status w' = status w \<and> streams w' = streams w \<and> sys w' = sys w)"

lemma decides_bind:
  assumes "decides m w x" "\<And>w'. status w' = status w \<Longrightarrow> streams w' = streams w \<Longrightarrow> sys w' = sys w \<Longrightarrow> decides (f x) w' y"
  shows "decides (State_Monad.bind m f) w y"
proof -
  obtain w' where w': "run_state m w = (x, w')" "status w' = status w" "streams w' = streams w" "sys w' = sys w"
    using assms(1) by (auto simp: decides_def)
  then show ?thesis using assms(2) [OF w'(2-4)] by (auto simp: decides_def)
qed

lemma decides_ret: "x = y \<Longrightarrow> decides (ret x) w y"
  by (simp add: decides_def)

lemma decides_log: "decides (LogEvent f t m) w ()"
  unfolding decides_def by (intro exI [of _ "snd (run_state (LogEvent f t m) w)"]) (simp add: LogEvent_unit [symmetric])

lemma decides_value:
  "status w = Running \<Longrightarrow> decides (STREAMGetValue S k) w (case S of None \<Rightarrow> None | Some i \<Rightarrow> stream_value w i k)"
  by (simp add: decides_def STREAMGetValue_run)

lemma decides_ask: "status w = Running \<Longrightarrow> decides (ask d f) w (f w)"
  by (simp add: decides_def ask_run)

lemma decides_lift: "decides (lift_option d (Some x)) w x"
  by (simp add: decides_def io_simps)

lemma decides_if: "(b \<Longrightarrow> decides m w x) \<Longrightarrow> (\<not> b \<Longrightarrow> decides m' w y) \<Longrightarrow> decides (if b then m else m') w (if b then x else y)"
  by simp

lemma decides_test: "(b \<Longrightarrow> decides m w True) \<Longrightarrow> (\<not> b \<Longrightarrow> decides m' w False) \<Longrightarrow> decides (if b then m else m') w b"
  by simp

lemmas decides_intros = decides_bind decides_log decides_value decides_ask decides_lift

lemma SSLAuth_list_decides:
  assumes "status w = Running"
  shows "decides (SSLAuth_list (Some x) l what grant) w (if listed (Some x) l then grant else 0)"
  unfolding SSLAuth_list_def log_okay_def Let_def
  by (auto simp: InStringList_char listed_def intro!: decides_intros decides_ret)

definition named_level :: "string \<Rightarrow> cstr \<Rightarrow> cstr \<Rightarrow> (string \<Rightarrow> bool) \<Rightarrow> cint" where
  "named_level a user ip known =
     (if strcaseeq a ''cert'' then SSL_AUTH_USER
      else if strcaseeq a ''system'' then (if StrValid user \<and> known (chars user) then SSL_AUTH_USER else 0)
      else if strncaseeq a ''users:'' 6 then (if listed user (drop 6 a) then SSL_AUTH_USER else 0)
      else if strncaseeq a ''ips:'' 4 then (if listed ip (drop 4 a) then SSL_AUTH_USER else 0)
      else if strncaseeq a ''ip-only:'' 8 then (if listed ip (drop 8 a) then SSL_AUTH_OKAY else 0)
      else 0)"

lemma SSLAuth_named_decides:
  assumes "status w = Running"
  shows "decides (SSLAuth_named a (Some user) (Some ip)) w (named_level a (Some user) (Some ip) (sys_isuser (sys w)))"
proof -
  have "decides (do { known \<leftarrow> ask False (\<lambda>w. sys_isuser (sys w) (chars (Some user)));
        ret (if StrValid (Some user) \<and> known then SSL_AUTH_USER else 0) }) w
      (if StrValid (Some user) \<and> sys_isuser (sys w) (chars (Some user)) then SSL_AUTH_USER else 0)"
    by (rule decides_bind [OF decides_ask [OF assms]]) (rule decides_ret, simp)
  then show ?thesis
    unfolding SSLAuth_named_def named_level_def CompareStrNoCase_eq_chars chars_def option.case
    by (intro decides_if SSLAuth_list_decides decides_ret assms refl) simp_all
qed


text \<open>A client of the server: what the TLS layer says of it.\<close>

definition client_value :: "world \<Rightarrow> nat option \<Rightarrow> string \<Rightarrow> cstr" where
  "client_value w S k = (case S of None \<Rightarrow> None | Some i \<Rightarrow> stream_value w i k)"

lemma client_value_cong: "streams w' = streams w \<Longrightarrow> client_value w' S k = client_value w S k"
  by (simp add: client_value_def stream_value_def split: option.split)

lemma decides_client: "status w = Running \<Longrightarrow> decides (STREAMGetValue S k) w (client_value w S k)"
  by (simp add: client_value_def decides_value)

lemma SSLAuth_certificate_decides:
  assumes "status w = Running"
  shows "decides (SSLAuth_certificate V S user ip) w
    (if StrValid user \<and> certificate_ok (client_value w S ''SSL:CertificateVerify'') then SSL_AUTH_CERTIFICATE else 0)"
  unfolding SSLAuth_certificate_def log_okay_def
  using assms by (auto intro!: decides_bind [OF decides_client] decides_bind [OF decides_log] decides_ret)

lemma SSLAuth_level_decides:
  assumes "status w = Running" "StrValid user \<Longrightarrow> user = Some u" "StrValid user \<Longrightarrow> ip = Some p"
  shows "decides (SSLAuth_level V S user ip) w
    (if StrValid (ServerAuth V)
     then (if strcaseeq (chars (ServerAuth V)) ''open'' then SSL_AUTH_OKAY else 0)
       OR (if StrValid user then named_level (chars (ServerAuth V)) user ip (sys_isuser (sys w)) else 0)
     else SSL_AUTH_USER)"
proof -
  have "decides (if StrValid user then SSLAuth_named (chars (ServerAuth V)) user ip
      else do { ip \<leftarrow> STREAMGetValue S ''PeerIP'';
        log_okay ''NEW CLIENT:'' (pct_s ip @ '' Lacks Certificate. RequiredAuthLevel: '' @ chars (ServerAuth V));
        ret 0 }) w (if StrValid user then named_level (chars (ServerAuth V)) user ip (sys_isuser (sys w)) else 0)"
  proof (rule decides_if)
    assume "StrValid user"
    then show "decides (SSLAuth_named (chars (ServerAuth V)) user ip) w (named_level (chars (ServerAuth V)) user ip (sys_isuser (sys w)))"
      using SSLAuth_named_decides [OF assms(1)] assms(2,3) by simp
  qed (unfold log_okay_def, intro decides_bind [OF decides_client] decides_bind [OF decides_log] decides_ret assms refl)
  then show ?thesis
    unfolding SSLAuth_level_def Let_def
    by (intro decides_if decides_bind [where y = "_ OR _"] decides_ret refl) (simp_all add: CompareStrNoCase_eq_chars chars_def)
qed

lemma SSLAuth_decides:
  assumes "status w = Running"
    "StrValid (client_value w S ''SSL:CertificateCommonName'') \<Longrightarrow> client_value w S ''PeerIP'' \<noteq> None"
  shows "decides (SSLAuth V S) w (ssl_admits (ServerAuth V) (client_value w S ''SSL:CertificateCommonName'')
    (client_value w S ''SSL:CertificateVerify'') (client_value w S ''PeerIP'') (sys_isuser (sys w)))"
proof -
  let ?ip = "client_value w S ''PeerIP''" and ?user = "client_value w S ''SSL:CertificateCommonName''"
  let ?c = "if StrValid ?user \<and> certificate_ok (client_value w S ''SSL:CertificateVerify'') then SSL_AUTH_CERTIFICATE else 0"
  let ?l = "if StrValid (ServerAuth V)
     then (if strcaseeq (chars (ServerAuth V)) ''open'' then SSL_AUTH_OKAY else 0)
       OR (if StrValid ?user then named_level (chars (ServerAuth V)) ?user ?ip (sys_isuser (sys w)) else 0)
     else SSL_AUTH_USER"
  have p: "StrValid ?user \<Longrightarrow> ?ip = Some (chars ?ip)" using assms(2) by (cases ?ip) (auto simp: chars_def)
  have u: "StrValid ?user \<Longrightarrow> ?user = Some (chars ?user)" by (cases ?user) (auto simp: chars_def)
  have level: "decides (SSLAuth_level V S ?user ?ip) w' ?l" if "status w' = status w" "sys w' = sys w" for w'
  proof -
    have "status w' = Running" using that(1) assms(1) by simp
    from SSLAuth_level_decides [OF this u p, of V S] show ?thesis unfolding that(2) .
  qed
  have cert: "decides (SSLAuth_certificate V S ?user ?ip) w' ?c" if "status w' = status w" "streams w' = streams w" for w'
    using SSLAuth_certificate_decides [of w' V S ?user ?ip] that assms(1) client_value_cong [OF that(2)] by simp
  have d: "(?c OR ?l = SSL_AUTH_OKAY) = ssl_admits (ServerAuth V) ?user (client_value w S ''SSL:CertificateVerify'') ?ip (sys_isuser (sys w))"
    unfolding ssl_admits_def named_level_def Let_def
    by (simp add: ssl_auth_defs)
  show ?thesis
    unfolding SSLAuth_def
  proof (rule decides_bind [OF decides_client], rule assms, rule decides_bind [OF decides_client], goal_cases)
    case (2 w1)
    show ?case
    proof (simp only: client_value_cong [OF 2(2)], rule decides_bind [OF cert], goal_cases)
      case (3 w2)
      show ?case
      proof (rule decides_bind [OF level], goal_cases)
        case (3 w3)
        show ?case unfolding d [symmetric] log_okay_def
          by (intro decides_bind [OF decides_client] decides_bind [OF decides_log] decides_test decides_ret TrueI)
            (simp_all add: assms(1) 2 \<open>status w2 = _\<close> 3)
      qed (use 2 3 in simp_all)
    qed (use 2 in simp_all)
  qed (use assms in simp_all)
qed


section \<open>A request to exit ends the server\<close>

lemma STREAMSelect_interrupted:
  assumes "status w = Running" "snd (sys_select (sys w) (trace w) cs)"
  shows "bit (GlobalFlags (snd (run_state (STREAMSelect cs) w))) 0"
proof -
  obtain S where S: "sys_select (sys w) (trace w) cs = (S, True)" using assms(2) by (metis prod.collapse)
  let ?w = "(note_event (Polled S) w)\<lparr>GlobalFlags := GlobalFlags w OR FLAG_EXIT\<rparr>"
  have "bit (GlobalFlags ?w) 0" by (simp add: bit_or_iff flag_simps)
  then have "bit (GlobalFlags (snd (run_state SSHVpnTerminate ?w))) 0"
    using exiting.SSHVpnTerminate_keeps by (auto simp: keeps_def)
  then show ?thesis
    using assms(1) S by (auto simp: STREAMSelect_def act_run SignalHandler_def SIGINT_def setflags_run split: prod.split)
qed

lemma SSLServer_loop_exits:
  assumes "bit (GlobalFlags w) 0" "run_state (SSLServer_loop (Suc n) V Cs L) w = (x, w')"
  shows "snd x \<or> status w' \<noteq> Running"
proof (cases "status w = Running")
  case True
  with assms show ?thesis by (auto simp: flag_set_run flag_simps)
next
  case False
  then have "w' = w" using stopped_stays [OF halted.SSLServer_loop_keeps assms(2)] by simp
  with False show ?thesis by simp
qed

lemma SSLShutdownConnection_run:
  assumes "status w = Running"
  shows "\<exists>w' l. run_state (SSLShutdownConnection Cs (Some i) (Some j)) w = (remove1 (Some j) (remove1 (Some i) Cs), w')
    \<and> streams w' i = None \<and> streams w' j = None \<and> trace w' = trace w @ l @ [Closed j, Closed i]"
proof -
  define m where "m = pct_s (client_value w (Some j) ''SSL:CertificateCommonName'') @ [CHR 0x40]
    @ pct_s (client_value w (Some j) ''PeerIP'') @ '' connection closed''"
  define w1 where "w1 = snd (run_state (LogEvent VPN_LOG_SYSLOG ''DISCONNECT'' m) w)"
  have l: "run_state (LogEvent VPN_LOG_SYSLOG ''DISCONNECT'' m) w = ((), w1)" by (simp add: w1_def prod_eq_iff)
  have w1: "status w1 = Running" using assms by (simp add: w1_def)
  have "prefix (trace w) (trace w1)"
    unfolding w1_def using history.LogEvent_keeps by (auto simp: keeps_def)
  then obtain x where x: "trace w1 = trace w @ x" by (auto simp: prefix_def)
  have "run_state (SSLShutdownConnection Cs (Some i) (Some j)) w
      = (remove1 (Some j) (remove1 (Some i) Cs), snd (run_state (do { STREAMClose (Some j); STREAMClose (Some i) }) w1))"
    using assms l w1 by (simp add: SSLShutdownConnection_def STREAMGetValue_run STREAMClose_run ListDeleteItem_def m_def client_value_def)
  moreover have "streams (snd (run_state (do { STREAMClose (Some j); STREAMClose (Some i) }) w1)) k = None" if "k = i \<or> k = j" for k
    using w1 that by (auto simp: STREAMClose_run)
  moreover have "trace (snd (run_state (do { STREAMClose (Some j); STREAMClose (Some i) }) w1)) = trace w @ x @ [Closed j, Closed i]"
    using w1 x by (simp add: STREAMClose_run)
  ultimately show ?thesis by blast
qed

section \<open>The properties\<close>


definition client_world :: world where
  "client_world = (initial_world silent_system)\<lparr>next_stream := 1, streams := [0 \<mapsto> \<lparr>st_buf = [], st_inputs = [],
     st_values = [(''PeerIP'', ''10.9.8.7''), (''SSL:CertificateCommonName'', ''alice''), (''SSL:CertificateVerify'', ''OK'')],
     st_items = []\<rparr>]\<rparr>"


text \<open>
  C37. With \<open>-auth open\<close> the connection of a client that was never accepted, the \<open>NULL\<close> that a failed
  \<open>STREAMServerAccept\<close> returns, counts as admitted: the server starts a \<open>pppd\<close> for it.
\<close>

theorem SSLAuth_open_null:
  assumes "status w = Running" "ServerAuth V = Some a" "strcaseeq a ''open''"
  shows "fst (run_state (SSLAuth V None) w)"
proof -
  have "a \<noteq> []" using assms(3) by (auto simp: strcaseeq_def)
  then show ?thesis
    using SSLAuth_decides [of w None V] assms
    by (auto simp: client_value_def decides_def ssl_admits_def chars_def StrValid_def)
qed

theorem SSLAuth_open_null_witness:
  "fst (run_state (SSLAuth (TVpn_zero\<lparr>ServerAuth := Some ''open''\<rparr>) None) (initial_world silent_system))"
  by (rule SSLAuth_open_null) (code_simp | simp add: initial_world_def)+

text \<open>
  C31. What the server does with a connection that is ready: the bytes go to its peer, unchanged and at once;
  when there are none, the connection and its peer are closed and leave the list of connections.
\<close>

theorem SSLProcess_relays:
  assumes "status w = Running" "streams w i = Some S" "map_of (st_items S) ''Peer'' = Some (Some j)" "i \<noteq> j"
    and "read_bytes 4096 (st_buf S) (st_inputs S) = (r, b, is, False)"
  shows "case r of
      Some d \<Rightarrow> run_state (SSLProcess Cs (Some i)) w
        = (Cs, note_event (Wrote j d) (w\<lparr>streams := (streams w)(i \<mapsto> S\<lparr>st_buf := b, st_inputs := is\<rparr>)\<rparr>))
    | None \<Rightarrow> (case run_state (SSLProcess Cs (Some i)) w of (Ds, w') \<Rightarrow>
        Ds = remove1 (Some j) (remove1 (Some i) Cs) \<and> streams w' i = None \<and> streams w' j = None
        \<and> (\<exists>l. trace w' = trace w @ l @ [Closed j, Closed i]))"
proof (cases r)
  case (Some d)
  with assms show ?thesis
    by (simp add: SSLProcess_def STREAMGetItem_def reads_Some stream_read_def io_simps STREAMWriteBytes_def chars_def)
next
  case None
  let ?w = "w\<lparr>streams := (streams w)(i \<mapsto> S\<lparr>st_buf := b, st_inputs := is\<rparr>)\<rparr>"
  have "run_state (SSLProcess Cs (Some i)) w = run_state (SSLShutdownConnection Cs (Some i) (Some j)) ?w"
    using None assms by (simp add: SSLProcess_def STREAMGetItem_def reads_Some stream_read_def io_simps)
  then show ?thesis using SSLShutdownConnection_run [where w = ?w and i = i and j = j and Cs = Cs] assms(1) None by auto
qed

definition pair_world :: world where
  "pair_world = (initial_world silent_system)\<lparr>next_stream := 2, streams := [
     0 \<mapsto> \<lparr>st_buf = ''ab'', st_inputs = [], st_values = [], st_items = [(''Peer'', Some 1)]\<rparr>,
     1 \<mapsto> \<lparr>st_buf = [], st_inputs = [], st_values = [], st_items = [(''Peer'', Some 0)]\<rparr>]\<rparr>"

theorem SSLProcess_relays_witness:
  "trace (snd (run_state (SSLProcess [Some 0, Some 1] (Some 0)) pair_world)) = [Wrote 1 ''ab'']
   \<and> fst (run_state (SSLProcess [Some 0, Some 1] (Some 1)) pair_world) = []"
proof -
  have "status pair_world = Running" "trace pair_world = []" by (simp_all add: pair_world_def initial_world_def)
  moreover have "streams pair_world 0 = Some \<lparr>st_buf = ''ab'', st_inputs = [], st_values = [], st_items = [(''Peer'', Some 1)]\<rparr>"
    "streams pair_world 1 = Some \<lparr>st_buf = [], st_inputs = [], st_values = [], st_items = [(''Peer'', Some 0)]\<rparr>"
    by (simp_all add: pair_world_def)
  ultimately show ?thesis
    using SSLProcess_relays [of pair_world 0 _ 1 "Some ''ab''" "[]" "[]" "[Some 0, Some 1]"]
      SSLProcess_relays [of pair_world 1 _ 0 None "[]" "[]" "[Some 0, Some 1]"]
    by auto
qed

text \<open>
  C6. A request to exit that arrives while the server waits is served: the loop is left by the
  following round, whatever the connection chosen in the current one does.
\<close>

theorem SSLServer_loop_interrupted:
  assumes "status w = Running" "snd (sys_select (sys w) (trace w) (List.map_filter (\<lambda>x. x) Cs))"
    and "run_state (SSLServer_loop (Suc (Suc n)) V Cs L) w = (x, w')"
  shows "snd x \<or> status w' \<noteq> Running"
proof (cases "has_flag (GlobalFlags w) FLAG_EXIT")
  case True
  with assms(1,3) show ?thesis by (auto simp: flag_set_run)
next
  case False
  define go where "go S = (if S \<noteq> None then do {
               r \<leftarrow> (if S = L then SSLAcceptClient V Cs L
                    else do { c \<leftarrow> SSLProcess Cs S; ret (V, c) });
               waitpid (- 1);
               ret r }
             else ret (V, Cs))" for S
  obtain S w1 where s: "run_state (STREAMSelect (List.map_filter (\<lambda>x. x) Cs)) w = (S, w1)" by fastforce
  obtain V' C' w2 where g: "run_state (go S) w1 = ((V', C'), w2)" by (metis prod.collapse)
  have unfold: "SSLServer_loop (Suc (Suc n)) V Cs L = do {
      quit \<leftarrow> flag_set FLAG_EXIT;
      (if quit then ret (V, True)
       else do { S \<leftarrow> STREAMSelect (List.map_filter (\<lambda>x. x) Cs); (V', C') \<leftarrow> go S; SSLServer_loop (Suc n) V' C' L }) }"
    by (simp only: go_def SSLServer_loop.simps)
  have "bit (GlobalFlags w1) 0" using STREAMSelect_interrupted [OF assms(1,2)] s by simp
  moreover have "keeps (\<lambda>w. bit (GlobalFlags w) 0) (go S)" unfolding go_def by auto
  ultimately have "bit (GlobalFlags w2) 0" using g by (auto simp: keeps_def)
  moreover have "run_state (SSLServer_loop (Suc n) V' C' L) w2 = (x, w')"
    using assms(1,3) False s g unfolding unfold by (simp add: flag_set_run del: SSLServer_loop.simps)
  ultimately show ?thesis by (rule SSLServer_loop_exits)
qed


definition interrupting :: system where
  "interrupting = silent_system\<lparr>sys_select := (\<lambda>_ _. (None, True))\<rparr>"

theorem SSLServer_loop_interrupted_witness:
  "case run_state (SSLServer_loop 2 TVpn_zero [] None) (initial_world interrupting) of (x, w') \<Rightarrow> snd x \<and> status w' = Running"
proof -
  have "snd (sys_select (sys (initial_world interrupting)) (trace (initial_world interrupting)) cs)" for cs
    by (simp add: initial_world_def interrupting_def)
  then have "case run_state (SSLServer_loop 2 TVpn_zero [] None) (initial_world interrupting) of (x, w') \<Rightarrow> snd x \<or> status w' \<noteq> Running"
    using SSLServer_loop_interrupted [of "initial_world interrupting" "[]" 0 TVpn_zero None]
    by (auto simp: numeral_2_eq_2 initial_world_def split: prod.split)
  moreover have "status (snd (run_state (SSLServer_loop 2 TVpn_zero [] None) (initial_world interrupting))) = Running"
    by code_simp
  ultimately show ?thesis by (auto split: prod.splits)
qed

end
