(* ===== verification/OpenVpn.thy ===== *)
theory OpenVpn
  imports TunTap UpDown URL
begin

text \<open>
  \<open>openvpn.c\<close>: an \<open>openvpn\<close> client, whose log says when the tunnel is up.  Every line of the log begins
  with a date; what follows it is the message.
\<close>

section \<open>Files of a configuration\<close>

definition OpenVpnFile :: "string \<Rightarrow> TVpn \<Rightarrow> string \<Rightarrow> cstr list" where
  "OpenVpnFile home Vpn ext =
     [Some home, Some ''/.config/vpn_mgr/'', Name Vpn, Some ''/'', Name Vpn, Some ext]"

definition OpenVpnGenPasswordFile :: "TVpn \<Rightarrow> unit io" where
  "OpenVpnGenPasswordFile Vpn =
     do {
       home \<leftarrow> GetCurrUserHomeDir;
       S \<leftarrow> STREAMOpen (chars (MCopyStr None (OpenVpnFile home Vpn ''.auth''))) ''w'';
       (if S \<noteq> None then do {
          STREAMWriteLine (MCopyStr None [UserName Vpn, Some newline, Password Vpn]) S;
          STREAMClose S }
        else ret ())
     }"

definition OpenVpnShutDown :: "TVpn \<Rightarrow> cstr \<Rightarrow> unit io" where
  "OpenVpnShutDown Vpn dev =
     do {
       home \<leftarrow> GetCurrUserHomeDir;
       Tempstr \<leftarrow> ReadFile (MCopyStr None (OpenVpnFile home Vpn ''.pid''));
       let Tempstr = StripTrailingWhitespace (StripTrailingWhitespace Tempstr);
       (if Tempstr \<noteq> [] then run_root (MCopyStr None [Some ''kill '', Some Tempstr]) else ret ());
       TunShutdown dev
     }"

section \<open>The log\<close>

definition OpenVpnReadLineSkipDateTime :: "cstr \<Rightarrow> cstr option" where
  "OpenVpnReadLineSkipDateTime Line =
     do {
       (ptr, Token) \<leftarrow> GetToken Line (Some backslash_S) 0;
       (ptr, Token) \<leftarrow> (if length Token = 3 then skip_tokens 4 ptr Token else skip_tokens 2 ptr Token);
       Some ptr
     }"

text \<open>\<open>GetToken(ptr, "\S", &Token, 0)\<close> in the body of the loop.\<close>

definition next_word :: "cstr \<Rightarrow> (cstr \<times> string) io" where
  "next_word ptr = lift_option (None, []) (GetToken ptr (Some backslash_S) 0)"

definition OpenVpnProcess_message :: "TVpn \<Rightarrow> cstr \<Rightarrow> string \<Rightarrow> string \<Rightarrow> string io" where
  "OpenVpnProcess_message Vpn ptr Token dev =
     (if Token = ''net_iface_up:'' then do {
        (ptr, Token) \<leftarrow> next_word ptr;
        (ptr, dev) \<leftarrow> next_word ptr;
        VpnUp Vpn (Some dev);
        ret dev }
      else if Token = ''TUN/TAP'' then do {
        (ptr, Token) \<leftarrow> next_word ptr;
        (if Token = ''device'' then do { (ptr, dev) \<leftarrow> next_word ptr; ret dev } else ret dev) }
      else if Token = ''ERROR:'' then do { TerminalPrint (''~rERROR:~0 '' @ pct_s ptr @ newline); ret dev }
      else if Token = ''WARNING:'' then do { TerminalPrint (''~yWARNING:~0 '' @ pct_s ptr @ newline); ret dev }
      else if Token = ''Initialization'' then do {
        (ptr, Token) \<leftarrow> next_word ptr;
        (ptr, Token) \<leftarrow> next_word ptr;
        (if Token = ''Completed'' then VpnUp Vpn (Some dev) else ret ());
        ret dev }
      else if Token = ''Exiting'' then do {
        talk \<leftarrow> flag_set (FLAG_DEBUG OR FLAG_VERBOSE);
        (if \<not> talk
         then TerminalPrint (''~rERROR:~0 openvpn exited unexpectedly. run vpn_mgr with -verbose or -debug to get more info.'' @ newline)
         else TerminalPrint (''~rERROR:~0 openvpn exited unexpectedly.'' @ newline));
        ret dev }
      else ret dev)"

definition OpenVpnProcess_body :: "TVpn \<Rightarrow> string \<Rightarrow> string \<Rightarrow> (string \<times> bool) io" where
  "OpenVpnProcess_body Vpn Tempstr dev =
     do {
       talk \<leftarrow> flag_set (FLAG_DEBUG OR FLAG_VERBOSE);
       (if talk \<and> \<not> strneq Tempstr ''vpn-mgr-'' 8 then printf Tempstr else ret ());
       let Tempstr = StripTrailingWhitespace Tempstr;
       quit \<leftarrow> flag_set FLAG_EXIT;
       (if quit then ret (dev, True)
        else do {
          ptr \<leftarrow> lift_option None (OpenVpnReadLineSkipDateTime (Some Tempstr));
          (ptr, Token) \<leftarrow> next_word ptr;
          dev \<leftarrow> OpenVpnProcess_message Vpn ptr Token dev;
          ret (dev, False) })
     }"

definition OpenVpnProcess :: "TVpn \<Rightarrow> nat option \<Rightarrow> string io" where
  "OpenVpnProcess Vpn S = while_read S (STREAMReadLine S) (OpenVpnProcess_body Vpn) ''????''"

section \<open>Starting the client\<close>

definition OpenVpnCommand :: "string \<Rightarrow> TVpn \<Rightarrow> url \<Rightarrow> cstr" where
  "OpenVpnCommand home Vpn u =
     (let Cmd = MCopyStr None [Some ''openvpn --client --tls-client --dev tun --persist-tun --nobind --keepalive 10 30 --remote '',
                  Some (url_host u), Some '' '', Some (url_port u)];
          Cmd = CatStr Cmd (Some (if has_flag (Flags Vpn) VPN_TCP then '' --proto tcp-client '' else '' --proto udp ''));
          Cmd = (if StrValid (PreSharedKey Vpn) then MCatStr Cmd [Some '' --secret '', PreSharedKey Vpn] else Cmd);
          Cmd = (if StrValid (Ciphers Vpn) then MCatStr Cmd [Some ('' --cipher '' @ [CHR 0x27]), Ciphers Vpn, Some ([CHR 0x27] @ '' '')] else Cmd);
          Cmd = (if StrValid (UserName Vpn)
                 then MCatStr Cmd (Some '' --auth-user-pass '' # OpenVpnFile home Vpn ''.auth '') else Cmd);
          Cmd = (if StrValid (ClientCert Vpn)
                 then MCatStr (MCatStr Cmd [Some '' --cert '', ClientCert Vpn]) [Some '' --key '', ClientKey Vpn] else Cmd)
      in if StrValid (VerifyCert Vpn) then MCatStr Cmd [Some '' --ca '', VerifyCert Vpn] else Cmd)"

definition OpenVpnBaseCommand :: "TVpn \<Rightarrow> cstr io" where
  "OpenVpnBaseCommand Vpn =
     (if StrValid (ConfFile Vpn) then ret (MCopyStr None [Some ''openvpn --conf '', ConfFile Vpn])
      else do {
        u \<leftarrow> lift_option url_zero (ParseURL (Server Vpn));
        (if StrValid (UserName Vpn) then OpenVpnGenPasswordFile Vpn else ret ());
        home \<leftarrow> GetCurrUserHomeDir;
        ret (OpenVpnCommand home Vpn u) })"

definition OpenVpnUp :: "TVpn \<Rightarrow> unit io" where
  "OpenVpnUp Vpn =
     do {
       avail \<leftarrow> TunAvailable;
       (if avail then do {
          DefaultDevGetMTU;
          Cmd \<leftarrow> OpenVpnBaseCommand Vpn;
          let Cmd = (if 0 < sint (MTU Vpn) then CatStr Cmd (Some ('' --tun-mtu '' @ fmt_d (MTU Vpn) @ '' '')) else Cmd);
          home \<leftarrow> GetCurrUserHomeDir;
          let Cmd = MCatStr Cmd [Some ('' --writepid '' @ [CHR 0x27]), Some home, Some ''/.config/vpn_mgr/'', Name Vpn, Some ''/'', Name Vpn, Some (''.pid'' @ [CHR 0x27] @ '' '')];
          TerminalPrint (''~cOPENVPN:~0 Launch openvpn client'' @ newline);
          S \<leftarrow> RunCommandOpen Cmd (CMD_ASROOT OR CMD_KILL);
          (if S \<noteq> None then do {
             dev \<leftarrow> OpenVpnProcess Vpn S;
             TerminalPrint (''~cOPENVPN:~0 ShuttingDown'' @ newline);
             OpenVpnShutDown Vpn (Some dev) }
           else ret ()) }
        else ret ())
     }"

section \<open>Monitored\<close>

context effects
begin

lemma next_word_keeps [intro!]: "keeps inv (next_word p)"
  unfolding next_word_def by (rule lift_keeps)

lemma OpenVpnGenPasswordFile_keeps [intro!]: "keeps inv (OpenVpnGenPasswordFile V)"
  unfolding OpenVpnGenPasswordFile_def by auto

lemma OpenVpnShutDown_keeps [intro!]: "keeps inv (OpenVpnShutDown V d)"
  unfolding OpenVpnShutDown_def Let_def by auto

lemma OpenVpnProcess_message_keeps [intro!]: "keeps inv (OpenVpnProcess_message V p t d)"
  unfolding OpenVpnProcess_message_def by auto

lemma OpenVpnProcess_keeps [intro!]: "keeps inv (OpenVpnProcess V S)"
  unfolding OpenVpnProcess_def OpenVpnProcess_body_def Let_def by auto

lemma OpenVpnUp_keeps [intro!]: "keeps inv (OpenVpnUp V)"
  unfolding OpenVpnUp_def OpenVpnBaseCommand_def Let_def by auto

end

section \<open>Correctness\<close>

lemma SkipDateTime_unwords:
  assumes "list_all word ws" "n = (if length (hd ws) = 3 then 5 else 3)" "n \<le> length ws"
  shows "OpenVpnReadLineSkipDateTime (Some (unwords ws)) = Some (Some (unwords (drop n ws)))"
proof -
  obtain w r where ws: "ws = w # r" using assms(2,3) by (cases ws) (auto split: if_splits)
  have "GetToken (Some (unwords ws)) (Some backslash_S) 0 = Some (Some (unwords r), w)"
    using GetToken_unwords [OF assms(1)] ws by simp
  then show ?thesis
    using assms ws skip_tokens_unwords [of r 4 w] skip_tokens_unwords [of r 2 w]
    by (auto simp: OpenVpnReadLineSkipDateTime_def simp del: skip_tokens.simps unwords.simps)
qed

text \<open>
  What is skipped in front of a message: five words when the first has three characters, as in
  \<open>Mon Jan 1 12:00:00 2021\<close>, and otherwise three, one more than a date and a time have.
\<close>

theorem OpenVpnReadLineSkipDateTime_words:
  assumes "list_all word ws" "n = (if length (hd ws) = 3 then 5 else 3)" "n \<le> length ws"
  shows "OpenVpnReadLineSkipDateTime (Some (unwords ws)) = Some (Some (unwords (drop n ws)))"
  using SkipDateTime_unwords [OF assms] .

theorem OpenVpnReadLineSkipDateTime_words_witness:
  "OpenVpnReadLineSkipDateTime (Some ''Mon Jan 1 12:00:00 2021 Initialization Sequence Completed'')
     = Some (Some ''Initialization Sequence Completed'')
   \<and> OpenVpnReadLineSkipDateTime (Some ''2021-01-01 12:00:00 Initialization Sequence Completed'')
     = Some (Some ''Sequence Completed'')"
proof
  let ?a = "[''Mon'', ''Jan'', ''1'', ''12:00:00'', ''2021'', ''Initialization'', ''Sequence'', ''Completed'']"
  let ?b = "[''2021-01-01'', ''12:00:00'', ''Initialization'', ''Sequence'', ''Completed'']"
  have "list_all word ?a" "list_all word ?b" by code_simp+
  then show "OpenVpnReadLineSkipDateTime (Some ''Mon Jan 1 12:00:00 2021 Initialization Sequence Completed'')
       = Some (Some ''Initialization Sequence Completed'')"
    "OpenVpnReadLineSkipDateTime (Some ''2021-01-01 12:00:00 Initialization Sequence Completed'')
       = Some (Some ''Sequence Completed'')"
    using OpenVpnReadLineSkipDateTime_words [of ?a 5] OpenVpnReadLineSkipDateTime_words [of ?b 3] by simp_all
qed

lemma StripTrailing_unwords:
  assumes "list_all word ws"
  shows "StripTrailingWhitespace (unwords ws @ newline) = unwords ws"
proof -
  have "unwords ws = [] \<or> \<not> isspace (last (unwords ws))"
    using assms
  proof (induction ws rule: unwords.induct)
    case (2 x)
    then show ?case by (simp add: plain_char_def)
  next
    case (3 x y xs)
    then have "unwords (y # xs) \<noteq> []" by (cases xs) simp_all
    with 3 show ?case by simp
  qed simp
  then have "StripTrailingWhitespace (unwords ws) = unwords ws" by (rule StripTrailing_id)
  then show ?thesis by (simp add: newline_def StripTrailing_snoc_space isspace_def)
qed

text \<open>
  C34. With a date of the form \<open>YYYY-mm-dd HH:MM:SS\<close>, which current versions of \<open>openvpn\<close> write, the line
  that says the tunnel is up is passed over: nothing is run and nothing changes.
\<close>

theorem OpenVpn_iso_ignored:
  assumes "word d" "word t" "length d \<noteq> 3" "status w = Running"
    "\<not> has_flag (GlobalFlags w) FLAG_EXIT" "\<not> has_flag (GlobalFlags w) (FLAG_DEBUG OR FLAG_VERBOSE)"
  shows "run_state (OpenVpnProcess_body V (unwords [d, t, ''Initialization'', ''Sequence'', ''Completed''] @ newline) dev) w
    = ((dev, False), w)"
proof -
  let ?m = "[''Initialization'', ''Sequence'', ''Completed'']"
  have m: "list_all word ?m" "list_all word (tl ?m)" by code_simp+
  then have ws: "list_all word (d # t # ?m)" using assms(1,2) by simp
  have "OpenVpnReadLineSkipDateTime (Some (unwords (d # t # ?m))) = Some (Some (unwords (tl ?m)))"
    using SkipDateTime_unwords [OF ws, of 3] assms(3) by (simp add: numeral_3_eq_3 del: unwords.simps)
  moreover have "GetToken (Some (unwords (tl ?m))) (Some backslash_S) 0 = Some (Some (unwords [''Completed'']), ''Sequence'')"
    using GetToken_unwords [OF m(2)] by simp
  ultimately show ?thesis
    using assms(4-6) StripTrailing_unwords [OF ws]
    by (simp add: OpenVpnProcess_body_def OpenVpnProcess_message_def next_word_def io_simps Let_def del: unwords.simps)
qed

theorem OpenVpn_iso_ignored_witness:
  "trace (snd (run_state (OpenVpnProcess_body TVpn_zero
     (unwords [''2021-01-01'', ''12:00:00'', ''Initialization'', ''Sequence'', ''Completed''] @ newline) ''tun0'')
     (initial_world silent_system))) = []"
proof -
  have "word ''2021-01-01''" "word ''12:00:00''" by code_simp+
  from OpenVpn_iso_ignored [OF this, of "initial_world silent_system" TVpn_zero "''tun0''"]
  show ?thesis by (simp add: initial_world_def has_flag_def del: unwords.simps)
qed

end
