(* ===== verification/Wireguard.thy ===== *)
theory Wireguard
  imports TunTap UpDown URL
begin

text \<open>
  \<open>wireguard.c\<close>: a device of the kernel, or of one of two userspace programs when the kernel has none,
  configured by \<open>wg\<close>.  \<open>WireguardUp\<close> has no return statement; its result is not used.
\<close>

section \<open>Userspace programs\<close>

text \<open>The steps when the program is installed: starting it, and looking whether it made the device.\<close>

definition WireguardStartUserspace :: "string \<Rightarrow> string \<Rightarrow> string \<Rightarrow> cstr \<Rightarrow> unit io" where
  "WireguardStartUserspace dev UserspaceApp Cmd ptr =
     do {
       (if StrValid ptr
        then TerminalPrint (''~cWIREGUARD:~0 '' @ [CHR 0x27] @ Cmd @ [CHR 0x27]
          @ '' userspace program found. Attempting again using that with arguments: '' @ pct_s ptr @ newline)
        else TerminalPrint (''~cWIREGUARD:~0 '' @ [CHR 0x27] @ Cmd @ [CHR 0x27]
          @ '' userspace program found. Attempting again using that..'' @ newline));
       run_root (MCopyStr None [Some UserspaceApp, Some '' '', Some dev])
     }"

definition WireguardCheckUserspace :: "TVpn \<Rightarrow> string \<Rightarrow> cint io" where
  "WireguardCheckUserspace Vpn dev =
     do {
       st \<leftarrow> TunSetup ''wireguard'' (Some dev) (LocalAddress Vpn);
       (if st = RUN_CMD_OKAY then do {
          e \<leftarrow> NetDevExists (Some dev);
          ret (if \<not> e then RUN_CMD_FAIL else st) }
        else ret st)
     }"

text \<open>\<open>-1\<close> is the result when the program is not installed.\<close>

definition WireguardLaunchUserspace :: "TVpn \<Rightarrow> string \<Rightarrow> string \<Rightarrow> cint io" where
  "WireguardLaunchUserspace Vpn dev UserspaceApp =
     do {
       (ptr, Cmd) \<leftarrow> lift_option (None, []) (GetToken (Some UserspaceApp) (Some backslash_S) 0);
       path \<leftarrow> GetCommandPath Cmd;
       (if path \<noteq> [] then do {
          WireguardStartUserspace dev UserspaceApp Cmd ptr;
          WireguardCheckUserspace Vpn dev }
        else ret (- 1))
     }"

text \<open>The programs are tried in this order until one works; the result says whether one did.\<close>

definition userspace_programs :: "string list" where
  "userspace_programs = [''wireguard-go'', ''boringtun-cli'', ''boringtun-cli --disable-drop-privileges'']"

primrec WireguardFallback :: "string list \<Rightarrow> TVpn \<Rightarrow> string \<Rightarrow> bool io" where
  "WireguardFallback [] Vpn dev =
     do {
       TerminalPrint (''~cWIREGUARD:~0 If your kernel does not support wireguard, consider installing boring-tun: ''
         @ ''https://https://github.com/cloudflare/boringtun or wireguard-go: https://github.com/WireGuard/wireguard-go ''
         @ ''userspace implementations.'' @ newline);
       ret False
     }"
| "WireguardFallback (p # ps) Vpn dev =
     do {
       st \<leftarrow> WireguardLaunchUserspace Vpn dev p;
       (if st = RUN_CMD_OKAY then ret True else WireguardFallback ps Vpn dev)
     }"

section \<open>The configuration command\<close>

definition WireguardSetCommand :: "TVpn \<Rightarrow> string \<Rightarrow> string \<Rightarrow> url \<Rightarrow> cstr" where
  "WireguardSetCommand Vpn dev PeerKey u =
     (let Host = url_host u; Port = (if url_port u = [] then ''51820'' else url_port u);
          RetStr = MCopyStr None [Some ''wg set '', Some dev, Some '' private-key '', ClientCert Vpn];
          RetStr = (if Action Vpn = ACT_SERVER then MCatStr RetStr [Some '' listen-port '', Some Port] else RetStr);
          RetStr = MCatStr RetStr [Some '' peer '', Some PeerKey];
          RetStr = (if Action Vpn = ACT_CONNECT then MCatStr RetStr [Some '' endpoint '', Some Host, Some '':'', Some Port] else RetStr)
      in if StrValid (AllowedIPs Vpn)
         then (if strcaseeq (chars (AllowedIPs Vpn)) ''all'' then CatStr RetStr (Some '' allowed-ips 0.0.0.0/0'')
               else MCatStr RetStr [Some '' allowed-ips '', AllowedIPs Vpn])
         else RetStr)"

definition WireguardFormatCommand :: "TVpn \<Rightarrow> string \<Rightarrow> cstr io" where
  "WireguardFormatCommand Vpn dev =
     (if StrValid (ConfFile Vpn) then ret (MCopyStr None [Some ''wg setconf '', Some dev, Some '' '', ConfFile Vpn])
      else do {
        key \<leftarrow> ReadFile (VerifyCert Vpn);
        let PeerKey = StripTrailingWhitespace (StripTrailingWhitespace key);
        u \<leftarrow> lift_option url_zero (UnpackURL (Server Vpn));
        (if Action Vpn = ACT_CONNECT then RouteSetupVpnServer (Some (url_host u)) else ret ());
        ret (WireguardSetCommand Vpn dev PeerKey u) })"

section \<open>The tunnel\<close>

text \<open>The loop that waits for the end: what is typed is thrown away.\<close>

definition WireguardWait_body :: "string \<Rightarrow> unit \<Rightarrow> (unit \<times> bool) io" where
  "WireguardWait_body Tempstr s = do { quit \<leftarrow> flag_set FLAG_EXIT; ret ((), quit) }"

definition WireguardWait :: "unit io" where
  "WireguardWait = do { T \<leftarrow> ask None Terminal; while_read T (STREAMReadLine T) WireguardWait_body () }"

definition WireguardDevice :: "TVpn \<Rightarrow> string io" where
  "WireguardDevice Vpn = (if StrValid (Dev Vpn) then ret (chars (Dev Vpn)) else NetDevFindNext ''wg'')"

text \<open>With a device: the tunnel is configured whether or not the device could be made.\<close>

definition WireguardRun :: "TVpn \<Rightarrow> string \<Rightarrow> unit io" where
  "WireguardRun Vpn dev =
     do {
       st \<leftarrow> TunSetup ''wireguard'' (Some dev) (LocalAddress Vpn);
       (if st \<noteq> RUN_CMD_OKAY then do {
          TerminalPrint (''~cWIREGUARD:~0 Failed to create/setup interface. Kernel may not support wireguard.'' @ newline);
          WireguardFallback userspace_programs Vpn dev;
          ret () }
        else ret ());
       Cmd \<leftarrow> WireguardFormatCommand Vpn dev;
       r \<leftarrow> RunCommand Cmd CMD_ASROOT;
       (if r = RUN_CMD_OKAY then do {
          VpnUp Vpn (Some dev);
          WireguardWait;
          TerminalPrint (''~cWIREGUARD:~0 shutting down'' @ newline);
          TunShutdown (Some dev) }
        else TerminalPrint (''~rFATAL:~0 wireguard setup failed'' @ newline))
     }"

definition WireguardUp :: "TVpn \<Rightarrow> unit io" where
  "WireguardUp Vpn =
     do {
       TerminalPrint (''~cWIREGUARD:~0 attempt '' @ [CHR 0x27] @ ''modprobe wireguard'' @ [CHR 0x27]
         @ '' to ensure kernel module loaded if needed'' @ newline);
       run_root (Some ''modprobe wireguard'');
       dev \<leftarrow> WireguardDevice Vpn;
       TerminalPrint (''~cWIREGUARD:~0 using tunnel dev ['' @ dev @ '']'' @ newline);
       (if dev \<noteq> [] then WireguardRun Vpn dev
        else TerminalPrint (''~rFATAL:~0 no suitable tunnel device'' @ newline))
     }"

section \<open>Monitored\<close>

context effects
begin

lemma WireguardStartUserspace_keeps [intro!]: "keeps inv (WireguardStartUserspace d a c p)"
  unfolding WireguardStartUserspace_def by auto

lemma WireguardCheckUserspace_keeps [intro!]: "keeps inv (WireguardCheckUserspace V d)"
  unfolding WireguardCheckUserspace_def by auto

lemma WireguardLaunchUserspace_keeps [intro!]: "keeps inv (WireguardLaunchUserspace V d a)"
  unfolding WireguardLaunchUserspace_def by auto

lemma WireguardFallback_keeps [intro!]: "keeps inv (WireguardFallback ps V d)"
  by (induction ps) auto

lemma WireguardFormatCommand_keeps [intro!]: "keeps inv (WireguardFormatCommand V d)"
  unfolding WireguardFormatCommand_def Let_def by auto

lemma WireguardWait_keeps [intro!]: "keeps inv WireguardWait"
  unfolding WireguardWait_def WireguardWait_body_def by auto

lemma WireguardDevice_keeps [intro!]: "keeps inv (WireguardDevice V)"
  unfolding WireguardDevice_def by auto

lemma WireguardRun_keeps [intro!]: "keeps inv (WireguardRun V d)"
  unfolding WireguardRun_def by auto

lemma WireguardUp_keeps [intro!]: "keeps inv (WireguardUp V)"
  unfolding WireguardUp_def by auto

end

section \<open>Correctness\<close>

lemma NetDevExists_listed:
  assumes "stable_file (sys w) ''/proc/net/dev'' c" "run_state (NetDevExists (Some n)) w = (True, w')"
  shows "device_listed c n"
proof -
  have "status w = Running" using assms(2) NetDevExists_stopped [of w "Some n"] by fastforce
  then show ?thesis using NetDevExists_run [OF _ assms(1)] assms(2) by simp
qed

lemma sys_kept: "(\<And>y. keeps (\<lambda>w. sys w = y) m) \<Longrightarrow> sys (snd (run_state m w)) = sys w"
  by (auto simp: keeps_def)

lemma WireguardCheckUserspace_listed:
  assumes "stable_file (sys w) ''/proc/net/dev'' c" "run_state (WireguardCheckUserspace V dev) w = (RUN_CMD_OKAY, w')"
  shows "device_listed c dev"
proof -
  obtain st w1 where s: "run_state (TunSetup ''wireguard'' (Some dev) (LocalAddress V)) w = (st, w1)" by fastforce
  obtain e w2 where e: "run_state (NetDevExists (Some dev)) w1 = (e, w2)" by fastforce
  have "e" using assms(2) s e by (auto simp: WireguardCheckUserspace_def run_cmd_defs split: if_splits)
  moreover have "sys w1 = sys w"
    using sys_kept [OF surroundings.TunSetup_keeps, of "''wireguard''" "Some dev" "LocalAddress V" w] s by simp
  ultimately show ?thesis using NetDevExists_listed [of w1 c dev w2] e assms(1) by simp
qed

lemma WireguardLaunchUserspace_listed:
  assumes "stable_file (sys w) ''/proc/net/dev'' c" "run_state (WireguardLaunchUserspace V dev p) w = (RUN_CMD_OKAY, w')"
  shows "device_listed c dev"
proof -
  obtain q Cmd w1 where 1: "run_state (lift_option (None, []) (GetToken (Some p) (Some backslash_S) 0)) w = ((q, Cmd), w1)"
    by (metis prod.collapse)
  obtain path w2 where 2: "run_state (GetCommandPath Cmd) w1 = (path, w2)" by fastforce
  define w3 where "w3 = snd (run_state (WireguardStartUserspace dev p Cmd q) w2)"
  have 3: "run_state (WireguardStartUserspace dev p Cmd q) w2 = ((), w3)" by (simp add: w3_def prod_eq_iff)
  have "sys w1 = sys w" using sys_kept [OF surroundings.lift_keeps] 1 by (metis snd_conv)
  moreover have "sys w2 = sys w1" using 2 by (auto simp: GetCommandPath_def io_simps split: if_splits)
  moreover have "sys w3 = sys w2" using sys_kept [OF surroundings.WireguardStartUserspace_keeps] by (simp add: w3_def)
  moreover have "run_state (WireguardCheckUserspace V dev) w3 = (RUN_CMD_OKAY, w')"
    using assms(2) 1 2 3 by (auto simp: WireguardLaunchUserspace_def run_cmd_defs split: if_splits)
  ultimately show ?thesis using WireguardCheckUserspace_listed [of w3 c V dev w'] assms(1) by simp
qed


definition userspace_world :: world where
  "userspace_world = (initial_world (silent_system\<lparr>sys_open := \<lambda>_ _ _. Some ([], [Bytes ''t:''])\<rparr>))
     \<lparr>FoundCommands := Some [(''ip'', ''/i''), (''b'', ''/b'')]\<rparr>"


end
