(* ===== verification/Help.thy ===== *)
theory Help
  imports Common
begin

text \<open>\<open>help.c\<close>: the texts that are printed, line by line.\<close>

definition PrintVersion :: "unit io" where
  "PrintVersion = printf (''vpn_mgr: version '' @ ''2.3'' @ [CHR 0x0A])"

definition help_lines :: "string list" where
  "help_lines = [
     ''Usage:'',
     ''  vpn_mgr protocols                        check which VPN protocols we can use on the local machine'',
     ''  vpn_mgr add <name> <url>                 add/update a VPN configuration'',
     ''  vpn_mgr list                             list configured VPNs'',
     ''  vpn_mgr config <name> <url>'',
     ''  vpn_mgr server <url>                     run as a VPN server (ppptls/pppssl mode only)'',
     ''  vpn_mgr connect <name>                   connect to VPN configured under name <name>'',
     ''  vpn_mgr connect <url>                    connect to VPN by url (no use of config files, everything on command-line)'',
     '''',
     ''Options:'',
     ''  -c <path>             path to vendor-supplied vpn (wireguard or openvpn) config file'',
     ''  -conf <path>          path to vendor-supplied vpn (wireguard or openvpn) config file'',
     ''  -d <dev>              name of LOCAL network device (e.g. tun0) to use'',
     ''  -dev <dev>            name of LOCAL network device (e.g. tun0) to use'',
     ''  -ldev <dev>           name of LOCAL network device (e.g. tun0) to use'',
     ''  -local-dev <dev>      name of LOCAL network device (e.g. tun0) to use'',
     ''  -D <dev>              name of REMOTE network device (e.g. tun0) to use'',
     ''  -rdev <dev>           name of REMOTE network device (e.g. tun0) to use'',
     ''  -remote-dev <dev>     name of REMOTE network device (e.g. tun0) to use'',
     ''  -a <ip list>          list of IPs accessible at the remote end of the vpn connection'',
     ''  -A <ip list>          list of remote IPs to be routed DOWN the vpn connection'',
     ''  -L <ip address>       ip address of LOCAL end of tunnel'',
     ''  -laddr <ip address>   ip address of LOCAL end of tunnel'',
     ''  -local-address <ip address>   ip address of LOCAL end of tunnel'',
     ''  -R <ip address>       ip address of REMOTE end of tunnel'',
     ''  -raddr <ip address>   ip address of REMOTE end of tunnel'',
     ''  -remote-address <ip address>   ip address of REMOTE end of tunnel'',
     ''  -tcp                  use tcp, not udp for connection (this only applies to openvpn which can use either'',
     ''  -cert <path>          path to file holding the client certificate for a vpn connection'',
     ''  -key <path>           path to file holding the client private key for a vpn connection (if not supplied, assumed to be stored in -cert file along with certificate)'',
     ''  -k <path>             path to file holding the client private key for a vpn connection'',
     ''  -server-key <path>    path to file holding the CA certificates for server verification (or server public key for wireguard)'',
     ''  -psk <path>           path to file holding the pre-shared-key for vpns using this instead of certificates'',
     ''  -ca <path>            path to file holding the CA certificates for server verification (or server public key for wireguard)'',
     ''  -ciphers <list>       comma-seperated list of ciphers to use'',
     ''  -up <file list>       colon-seperated list of scripts to run when vpn comes up (default /etc/vpn_mgr/<name>.up:/etc/vpn_mgr/default.up)'',
     ''  -down <file list>     colon-seperated list of scripts to run when vpn goes down (default /etc/vpn_mgr/<name>.down:/etc/vpn_mgr/default.down)'',
     ''  -V                    verify peer at the ppp level on ppp based vpns. Requires the server to identify itself with a username/pasword'',
     ''  -verify               verify peer at the ppp level on ppp based vpns. Requires the server to identify itself with a username/pasword'',
     ''  -user <username>      username for vpns that support username/password authentication'',
     ''  -pass <password>      password/preshared key for vpns that support username/password or PSK authentication'',
     ''  -passwd <password>    password/preshared key for vpns that support username/password or PSK authentication'',
     ''  -password <password>  password/preshared key for vpns that support username/password or PSK authentication'',
     ''  -pw <password>        password/preshared key for vpns that support username/password or PSK authentication'',
     ''  -local-sudo           force use of sudo locally, rather than trying both sudo and su'',
     ''  -local-su             force use of su locally, rather than trying both sudo and su'',
     ''  -remote-sudo          force use of sudo at remote end, rather than trying both sudo and su'',
     ''  -remote-su            force use of su at remote end, rather than trying both sudo and su'',
     ''  -remote-path          remote path to use when searching for executables not in normal path (e.g. pppd), defaults to '/sbin:/bin:/usr/sbin:/usr/bin:/usr/local/sbin:/usr/local/bin'',
     ''  -N                    use neither su or sudo at the remote end, assume remote is setup to run with root permission'',
     ''  -dns <ip list>        comma-separated list of dns servers to use with this vpn'',
     ''  -dns peer             use dns server list supplied by ppp based vpns'',
     ''  -nodns                do not use dns servers saved in vpn config'',
     ''  -ppp-auth             use ppp-chap authentication'',
     ''  -ppp-speed <speed>    linespeed/baud-rate for pppd'',
     ''  -id <string>          set a 'client id' string. Currently only used to set the ipparam of ppp-based networks in order to identify who/what is connecting and allow setting per-connection rules on the server.'',
     ''  -cid <string>         set a 'client id' string. Currently only used to set the ipparam of ppp-based networks in order to identify who/what is connecting and allow setting per-connection rules on the server.'',
     ''  -mtu <mtu>            mtu value for openvpn and ppp based vpns'',
     ''  -auth <config>        authentication config when running in SSL-server mode. This can have the values 'cert' to specify that a valid certificate is enough, 'system' to specify a valid certificate whose common name is a user in /etc/passwd, 'users:<list>' where <list> is a comma-separated list of usernames that one of which must match in addition to the certificate being valid, 'ips:<list>' where <list> is a comma-separated list of IPs that must match in addition to the certificate being valid and 'ip-only:<list>' which provides a list of IP addresses that can log on even if their certificate is invalid (e.g. certificate has expired'',
     ''  -verbose              output more info about what vpn_mgr is doing'',
     ''  -debug                spew lots of debugging info'']"

definition PrintHelp :: "unit io" where
  "PrintHelp = do { each (\<lambda>l. printf (l @ [CHR 0x0A])) help_lines; printf [CHR 0x0A, CHR 0x0A] }"

context effects
begin

lemma PrintVersion_keeps [intro!]: "keeps inv PrintVersion"
  unfolding PrintVersion_def by auto

lemma PrintHelp_keeps [intro!]: "keeps inv PrintHelp"
  unfolding PrintHelp_def by auto

end

end
