(* ===== verification/VpnMain.thy ===== *)
theory VpnMain
  imports ConfigFiles PppSsh SslServer OpenVpn Wireguard Help
begin

text \<open>
  \<open>main.c\<close>.  \<open>n\<close> bounds the rounds of the relays and of the server.  Installing the signal handler, the
  process group and the modes of the terminal are not modelled: the handler is in place from the start.
\<close>

section \<open>Which protocols can be used\<close>

text \<open>The state is \<open>result\<close> and \<open>Missing\<close>.\<close>

definition DisplayProtocolSupport_body :: "string \<Rightarrow> bool \<times> cstr \<Rightarrow> ((bool \<times> cstr) \<times> bool) io" where
  "DisplayProtocolSupport_body Item st =
     do {
       path \<leftarrow> GetCommandPath Item;
       (if path = [] then ret ((False, MCatStr (snd st) [Some Item, Some '' '']), False) else ret (st, False))
     }"

definition DisplayProtocolSupport :: "string \<Rightarrow> string \<Rightarrow> unit io" where
  "DisplayProtocolSupport protocol ReqProgs =
     do {
       (result, Missing) \<leftarrow> for_tokens_until (Some '','') 0 (Some ReqProgs) DisplayProtocolSupport_body (True, None);
       (if result then printf (''  '' @ protocol @ '' supported'' @ newline)
        else printf (''  '' @ protocol @ '' NOT supported. '' @ pct_s Missing @ '' missing'' @ newline))
     }"

definition DisplaySupportedProtocols :: "unit io" where
  "DisplaySupportedProtocols =
     do {
       printf (''Available protocols:'' @ newline);
       DisplayProtocolSupport ''wireguard'' ''ip,wg,route'';
       DisplayProtocolSupport ''wireguard via boringtun'' ''ip,wg,route,boringtun-cli'';
       DisplayProtocolSupport ''wireguard via wireguard-go'' ''ip,wg,route,wireguard-go'';
       DisplayProtocolSupport ''openvpn'' ''openvpn'';
       DisplayProtocolSupport ''ssh-native'' ''ip,ssh,route'';
       DisplayProtocolSupport ''ssh-ppp'' ''pppd,ssh,route'';
       DisplayProtocolSupport ''tls/ssl-ppp'' ''pppd,route''
     }"

section \<open>What is run for an action\<close>

text \<open>The chain on the word before the first colon of the URL.\<close>

definition ConnectProtocol :: "nat \<Rightarrow> TVpn \<Rightarrow> string \<Rightarrow> unit io" where
  "ConnectProtocol n Vpn Token =
     (let up = strcaseeq Token
      in if up ''wg'' then WireguardUp Vpn
         else if up ''ssh'' then do { SSHVpnUp Vpn; ret () }
         else if up ''openvpn'' then OpenVpnUp Vpn
         else if up ''ovpn'' then OpenVpnUp Vpn
         else if up ''pssh'' then do { PPPSSHVpnUp n Vpn; ret () }
         else if up ''pppssh'' then do { PPPSSHVpnUp n Vpn; ret () }
         else if up ''pssl'' then do { PPPSSLClientVpnUp n Vpn; ret () }
         else if up ''pppssl'' then do { PPPSSLClientVpnUp n Vpn; ret () }
         else if up ''ptls'' then do { PPPSSLClientVpnUp n Vpn; ret () }
         else if up ''ppptls'' then do { PPPSSLClientVpnUp n Vpn; ret () }
         else TerminalPrint (''~rERROR~0: unknown vpn type '' @ [CHR 0x27] @ Token @ [CHR 0x27] @ newline))"

definition no_server_message :: string where
  "no_server_message = ''~rERROR~0: no Server URL given. URL must begin with one of: '' @ [CHR 0x27]
     @ ''wg:, ssh:, openvpn:, ovpn:, pppssh:, pssh:, pppssh: or ppptls:'' @ [CHR 0x27] @ newline"

definition Connect :: "nat \<Rightarrow> TVpn \<Rightarrow> unit io" where
  "Connect n Vpn =
     do {
       Vpn \<leftarrow> (if \<not> StrValid (Server Vpn) then ReadConfig Vpn else ret Vpn);
       (if StrValid (Server Vpn) then do {
          (p, Token) \<leftarrow> lift_option (None, []) (GetToken (Server Vpn) (Some '':'') 0);
          ConnectProtocol n Vpn Token }
        else TerminalPrint no_server_message)
     }"

definition RunServer :: "nat \<Rightarrow> TVpn \<Rightarrow> unit io" where
  "RunServer n Vpn =
     (case Server Vpn of
        None \<Rightarrow> crash
      | Some s \<Rightarrow> if strncaseeq s ''wg:'' 3 then WireguardUp Vpn else do { SSLServer n Vpn; ret () })"

definition RunAction :: "nat \<Rightarrow> TVpn \<Rightarrow> unit io" where
  "RunAction n Vpn =
     (let a = Action Vpn
      in if a = ACT_CONFIG then WriteConfig Vpn
         else if a = ACT_PROTOCOLS then DisplaySupportedProtocols
         else if a = ACT_LIST then ListConfigs
         else if a = ACT_ADD then do { AddConfig Vpn; ret () }
         else if a = ACT_DELETE then DeleteConfig Vpn
         else if a = ACT_CONNECT then Connect n Vpn
         else if a = ACT_SERVER then RunServer n Vpn
         else if a = ACT_VERSION then PrintVersion
         else if a = ACT_HELP then PrintHelp
         else ret ())"

section \<open>The program\<close>

definition program_names :: string where
  "program_names = ''su,sudo,modprobe,ip,wg,ifconfig,route,ssh,wg,openvpn,pppd,chmod,boringtun-cli,wireguard-go,mv,kill''"

text \<open>\<open>STREAMFromDualFD(0,1)\<close>: what the user types is the input of the stream.\<close>

definition OpenTerminal :: "unit io" where
  "OpenTerminal = act () (\<lambda>w.
     (let is = (case sys_open (sys w) (trace w) ''-'' ''rw'' of None \<Rightarrow> [] | Some (vs, is) \<Rightarrow> is)
      in ((), case open_record w ''-'' ''rw'' (Some ([], is)) of (T, w') \<Rightarrow> w'\<lparr>Terminal := T\<rparr>)))"

definition start_flags :: "nat \<Rightarrow> cint" where
  "start_flags euid =
     (let GF = FLAG_REMOTE_SUDO OR FLAG_REMOTE_SU in if euid \<noteq> 0 then GF OR (FLAG_SUDO OR FLAG_SU) else GF)"

text \<open>The process signals its whole group, itself included, but ignores the signal, and returns.\<close>

definition leave :: "unit io" where
  "leave =
     do {
       pid \<leftarrow> ask 0 (\<lambda>w. sys_pid (sys w));
       emit (Killed (0 - int pid) SIGTERM);
       exit_process 0
     }"

definition vpn_mgr :: "nat \<Rightarrow> string list \<Rightarrow> unit io" where
  "vpn_mgr n args =
     do {
       euid \<leftarrow> ask 0 (\<lambda>w. sys_euid (sys w));
       setflags (\<lambda>_. start_flags euid);
       (Vpn, GF, msgs) \<leftarrow> lift_option (None, 0, []) (ParseCommandLine args (start_flags euid));
       setflags (\<lambda>_. GF);
       each printf msgs;
       FindCommands program_names;
       (case Vpn of
          None \<Rightarrow> ret ()
        | Some Vpn \<Rightarrow> do {
            OpenTerminal;
            RunAction n Vpn;
            emit TermReset });
       leave
     }"

section \<open>Monitored\<close>

text \<open>Reading a configuration may change the flags, which a \<open>monitor\<close> allows.\<close>

context monitor
begin

lemma DisplaySupportedProtocols_keeps [intro!]: "keeps inv DisplaySupportedProtocols"
  unfolding DisplaySupportedProtocols_def DisplayProtocolSupport_def DisplayProtocolSupport_body_def by auto

lemma ConnectProtocol_keeps [intro!]: "keeps inv (ConnectProtocol n V t)"
  unfolding ConnectProtocol_def Let_def by auto

lemma Connect_keeps [intro!]: "keeps inv (Connect n V)"
  unfolding Connect_def by auto

lemma RunServer_keeps [intro!]: "keeps inv (RunServer n V)"
  unfolding RunServer_def by auto

lemma RunAction_keeps [intro!]: "keeps inv (RunAction n V)"
  unfolding RunAction_def Let_def by auto

end

section \<open>Correctness\<close>

lemma ParseCommandLine_Action:
  assumes "ParseCommandLine args g = Some (Some V, g', msgs)"
  obtains action name server C where "ParseAction (CommandLineParserCreate args) = Some (action, name, server, C)"
    "Action V = VpnCtxAction action" "CommandLineValid action name server = Some (True, msgs)"
proof -
  obtain action name server C where a: "ParseAction (CommandLineParserCreate args) = Some (action, name, server, C)"
    using assms by (auto simp: ParseCommandLine_def split: bind_splits)
  obtain valid m where v: "CommandLineValid action name server = Some (valid, m)"
    using assms a by (auto simp: ParseCommandLine_def split: bind_splits)
  obtain Ctx where c: "VpnCtxCreate action name server = Some Ctx" "valid" "m = msgs"
    using assms a v by (auto simp: ParseCommandLine_def split: if_splits option.splits bind_splits)
  then have "ParseOptions Ctx g C = Some (V, g')"
    using assms a v by (auto simp: ParseCommandLine_def split: bind_splits)
  then have "Action V = Action Ctx" using ParseOptions_keeps by blast
  moreover have "Action Ctx = VpnCtxAction action" using c(1) by (auto simp: VpnCtxCreate_def Let_def split: if_splits)
  ultimately show ?thesis using that a v c by simp
qed



definition program_found :: "world \<Rightarrow> string \<Rightarrow> bool" where
  "program_found w p \<longleftrightarrow> GetVar (FoundCommands w) p \<noteq> []"

lemma for_tokens_until_fold:
  assumes "\<And>t s. run_state (body t s) w = ((step t s, False), w)"
  shows "GetTokens Sep Fl ptr = Some ts \<Longrightarrow> run_state (for_tokens_until Sep Fl ptr body s) w = (fold step ts s, w)"
proof (induction Sep Fl ptr arbitrary: ts s rule: GetTokens.induct)
  case (1 Sep Fl ptr)
  then obtain q t where r: "GetToken ptr Sep Fl = Some (q, t)"
    by (cases "GetToken ptr Sep Fl") (auto simp: GetTokens.simps [of Sep Fl ptr])
  show ?case
  proof (cases q)
    case None
    with "1.prems" r show ?thesis
      by (simp add: GetTokens.simps [of Sep Fl ptr] for_tokens_until.simps [of Sep Fl ptr])
  next
    case q: (Some p)
    then obtain ts' where ts: "ts = t # ts'" "GetTokens Sep Fl (Some p) = Some ts'"
      using "1.prems" r by (auto simp: GetTokens.simps [of Sep Fl ptr])
    from "1.IH" [OF r refl q ts(2)] show ?thesis
      using r q ts(1) assms by (simp add: for_tokens_until.simps [of Sep Fl ptr])
  qed
qed

text \<open>
  A protocol is reported as supported exactly when every program it needs was found, and the missing
  ones are named in order.
\<close>

theorem DisplayProtocolSupport_reports:
  assumes "status w = Running" "ps \<noteq> []" "\<forall>p \<in> set ps. p \<noteq> [] \<and> CHR '','' \<notin> set p"
  shows "run_state (DisplayProtocolSupport protocol (cjoin CHR '','' ps)) w
    = ((), note_event (Printed (if \<forall>p \<in> set ps. program_found w p then ''  '' @ protocol @ '' supported'' @ newline
        else ''  '' @ protocol @ '' NOT supported. '' @ concat (map (\<lambda>p. p @ '' '') (filter (\<lambda>p. \<not> program_found w p) ps))
          @ '' missing'' @ newline)) w)"
proof -
  let ?step = "\<lambda>p (r, m). if \<not> program_found w p then (False, MCatStr m [Some p, Some '' '']) else (r, m)"
  have run: "FoundCommands w = None \<Longrightarrow> GetVar (FoundCommands w) p = []" for p by (simp add: GetVar_def)
  have body: "run_state (DisplayProtocolSupport_body p st) w = ((?step p st, False), w)" for p st
    using assms(1) run [of p]
    by (cases st) (auto simp: DisplayProtocolSupport_body_def GetCommandPath_run program_found_def)
  have toks: "GetTokens (Some '','') 0 (Some (cjoin CHR '','' ps)) = Some ps"
    using csplit_cjoin [of ps "CHR '',''"] assms(2,3) by (simp add: GetTokens_char)
  have "fold ?step ps (r, m) = (r \<and> (\<forall>p \<in> set ps. program_found w p),
      if \<forall>p \<in> set ps. program_found w p then m
      else Some (chars m @ concat (map (\<lambda>p. p @ '' '') (filter (\<lambda>p. \<not> program_found w p) ps))))" for r m
    by (induction ps arbitrary: r m) (auto simp: MCatStr_eq chars_def)
  then show ?thesis
    using for_tokens_until_fold [where body = DisplayProtocolSupport_body and w = w and step = ?step, OF body toks, of "(True, None)"] assms(1)
    by (auto simp: DisplayProtocolSupport_def printf_run pct_s_def chars_def)
qed

definition bare_world :: world where
  "bare_world = (initial_world silent_system)\<lparr>FoundCommands := Some [(''ip'', ''/sbin/ip''), (''ssh'', ''/bin/ssh'')]\<rparr>"

theorem DisplayProtocolSupport_reports_witness:
  "trace (snd (run_state (DisplayProtocolSupport ''ssh-native'' (cjoin CHR '','' [''ip'', ''ssh'', ''route''])) bare_world))
    = [Printed (''  ssh-native NOT supported. route  missing'' @ newline)]"
proof -
  have "status bare_world = Running" "trace bare_world = []" by (simp_all add: bare_world_def initial_world_def)
  moreover have "program_found bare_world ''ip''" "program_found bare_world ''ssh''" "\<not> program_found bare_world ''route''" by code_simp+
  moreover have "\<forall>p \<in> set [''ip'', ''ssh'', ''route'']. p \<noteq> [] \<and> CHR '','' \<notin> set p" by code_simp
  ultimately show ?thesis
    using DisplayProtocolSupport_reports [of bare_world "[''ip'', ''ssh'', ''route'']" "''ssh-native''"] by simp
qed



section \<open>Whole runs\<close>

lemma FindFileInPath_total: "FindFileInPath lst f p \<noteq> None"
  using GetTokens_total [of 0 "Some '':''" p]
  by (auto simp: FindFileInPath_def FindFileInPathSubDirectory_def has_flag_def)

definition searched :: "world \<Rightarrow> world \<Rightarrow> bool" where
  "searched w w' \<longleftrightarrow> (\<exists>fc. w' = w\<lparr>FoundCommands := fc\<rparr>)"

lemma searched_trans: "searched u v \<Longrightarrow> searched v w \<Longrightarrow> searched u w"
  by (auto simp: searched_def)

lemma FindCommands_loop_searched: "status w = Running \<Longrightarrow> searched w (snd (run_state (FindCommands_loop ps p) w))"
proof (induction ps arbitrary: w)
  case Nil
  show ?case by (auto simp: searched_def intro: exI [of _ "FoundCommands w"])
next
  case (Cons i ps)
  obtain f where f: "FindFileInPath (sys_lstat (sys w) (trace w)) i (Some p) = Some f"
    using FindFileInPath_total by blast
  define w1 where "w1 = (if f \<noteq> [] then w\<lparr>FoundCommands := SetVar (FoundCommands w) i f\<rparr> else w)"
  have "searched w w1" unfolding searched_def w1_def by (auto intro: exI [of _ "FoundCommands w"])
  moreover have "searched w1 (snd (run_state (FindCommands_loop ps p) w1))"
    using Cons by (simp add: w1_def)
  moreover have "run_state (FindCommands_loop (i # ps) p) w = run_state (FindCommands_loop ps p) w1"
    using Cons.prems f by (simp add: io_simps w1_def)
  ultimately show ?case by (auto intro: searched_trans)
qed

lemma FindCommands_run:
  assumes "status w = Running"
  shows "\<exists>fc. run_state (FindCommands cmds) w = ((), w\<lparr>FoundCommands := fc\<rparr>)"
proof -
  obtain items where i: "GetTokens (Some '','') 0 (Some cmds) = Some items"
    using GetTokens_total [of 0] by (auto simp: has_flag_def)
  let ?w = "if FoundCommands w = None then w\<lparr>FoundCommands := Some []\<rparr> else w"
  let ?p = "chars (CatStr (CopyStr None (sys_path (sys w))) (Some '':/sbin:/usr/sbin:/usr/local/sbin''))"
  have "run_state (FindCommands cmds) w = run_state (FindCommands_loop items ?p) ?w"
    using assms i by (simp add: FindCommands_def io_simps)
  moreover have "searched ?w (snd (run_state (FindCommands_loop items ?p) ?w))"
    using FindCommands_loop_searched [of ?w] assms by simp
  moreover have "searched w ?w" by (auto simp: searched_def intro: exI [of _ "FoundCommands w"])
  ultimately have "searched w (snd (run_state (FindCommands cmds) w))" by (metis searched_trans)
  then show ?thesis by (auto simp: searched_def prod_eq_iff)
qed

lemma ParseAction_delete:
  "\<exists>C. ParseAction (CommandLineParserCreate [prog, ''delete'']) = Some (''delete'', Some [], None, C) \<and> fst (CommandLineNext C) = None"
proof -
  have "\<not> strcaseeq ''delete'' ''add''" "\<not> strcaseeq ''delete'' ''conf''" "\<not> strcaseeq ''delete'' ''config''"
    "\<not> strcaseeq ''delete'' ''list''" "\<not> strcaseeq ''delete'' ''del''" "strcaseeq ''delete'' ''delete''"
    by code_simp+
  then show ?thesis
    by (simp add: ParseAction_def CommandLineNext_def argv_at_def CommandLineParserCreate_def)
qed

lemma ParseCommandLine_delete:
  "\<exists>V. ParseCommandLine [prog, ''delete''] g = Some (Some V, g, []) \<and> Action V = ACT_DELETE \<and> Name V = Some []"
proof -
  obtain C where C: "ParseAction (CommandLineParserCreate [prog, ''delete'']) = Some (''delete'', Some [], None, C)"
    "fst (CommandLineNext C) = None"
    using ParseAction_delete by blast
  have "CommandLineValid ''delete'' (Some []) None = Some (True, [])" by code_simp
  moreover obtain V where "VpnCtxCreate ''delete'' (Some []) None = Some V" "Action V = ACT_DELETE" "Name V = Some []"
  proof -
    have "case VpnCtxCreate ''delete'' (Some []) None of None \<Rightarrow> False | Some V \<Rightarrow> Action V = ACT_DELETE \<and> Name V = Some []" by code_simp
    then show ?thesis using that by (auto split: option.splits)
  qed
  moreover have "ParseOptions V g C = Some (V, g)" for V
    using C(2) by (subst ParseOptions.simps) (auto split: prod.split)
  ultimately show ?thesis using C(1) by (simp add: ParseCommandLine_def)
qed

text \<open>
  C35. \<open>vpn_mgr delete\<close> without a name removes the directory of all configurations: the name is empty,
  nothing checks it, and the path built from it is that of the directory above.
\<close>

theorem vpn_mgr_delete_unnamed:
  assumes "status w = Running" "run_state (vpn_mgr n [prog, ''delete'']) w = (x, w')"
  shows "FileOp ''FileSystemRmDir'' [sys_home (sys w) @ ''/.config/vpn_mgr//''] \<in> set (trace w') \<and> status w' = Exited 0"
proof -
  let ?g = "start_flags (sys_euid (sys w))"
  obtain V where V: "ParseCommandLine [prog, ''delete''] ?g = Some (Some V, ?g, [])" "Action V = ACT_DELETE" "Name V = Some []"
    using ParseCommandLine_delete by blast
  have "\<exists>fc. run_state (FindCommands program_names) (w\<lparr>GlobalFlags := ?g\<rparr>) = ((), w\<lparr>GlobalFlags := ?g, FoundCommands := fc\<rparr>)"
    using FindCommands_run [of "w\<lparr>GlobalFlags := ?g\<rparr>"] assms(1) by simp
  then obtain fc where f: "run_state (FindCommands program_names) (w\<lparr>GlobalFlags := ?g\<rparr>) = ((), w\<lparr>GlobalFlags := ?g, FoundCommands := fc\<rparr>)"
    by blast
  let ?w = "w\<lparr>GlobalFlags := ?g, FoundCommands := fc\<rparr>"
  have r: "run_state (RunAction n V) v = run_state (DeleteConfig V) v" for v
    using V(2) by (simp add: RunAction_def action_defs)
  have "run_state (vpn_mgr n [prog, ''delete'']) w = run_state (do { OpenTerminal; RunAction n V; emit TermReset; leave }) ?w"
    using assms(1) V(1) f by (simp add: vpn_mgr_def io_simps split: prod.split)
  also have "\<dots> = run_state (do { DeleteConfig V; emit TermReset; leave }) (snd (run_state OpenTerminal ?w))"
    using r by (simp split: prod.split)
  finally have e: "(x, w') = run_state (do { DeleteConfig V; emit TermReset; leave }) (snd (run_state OpenTerminal ?w))"
    using assms(2) by simp
  have "status (snd (run_state OpenTerminal ?w)) = Running" "sys (snd (run_state OpenTerminal ?w)) = sys w"
    using assms(1) by (simp_all add: OpenTerminal_def act_run open_record_def Let_def)
  with e show ?thesis
    by (simp add: DeleteConfig_run V(3) emit_run leave_def ask_run exit_run)
qed

theorem vpn_mgr_delete_unnamed_witness:
  "FileOp ''FileSystemRmDir'' [''/home/u/.config/vpn_mgr//'']
     \<in> set (trace (snd (run_state (vpn_mgr 0 [''vpn_mgr'', ''delete'']) (initial_world silent_system))))"
proof -
  have "status (initial_world silent_system) = Running" "sys_home (sys (initial_world silent_system)) = ''/home/u''"
    by (simp_all add: initial_world_def silent_system_def)
  with vpn_mgr_delete_unnamed [OF this(1), of 0 "''vpn_mgr''"] show ?thesis by (metis append_Cons append_Nil prod.collapse)
qed

end
