(* ===== verification/Lists.thy ===== *)
theory Lists
  imports SslServer
begin

text \<open>
  \<open>List.c\<close>: the doubly linked lists of the library, over a heap of nodes.  A list is its head node, whose
  \<open>Prev\<close> is the last item and whose statistics hold the number of items.  A pointer is an optional address;
  following \<open>NULL\<close> or an address that holds no node is undefined (\<^term>\<open>None\<close>).  The address that \<open>calloc\<close>
  returns is an argument.  Maps (lists of lists) and ordered lists are outside the model: where the code
  tests for them, the result is undefined as well.  An item is an opaque pointer; the function that destroys
  items works on what the heap of nodes does not hold.
\<close>

section \<open>Nodes\<close>

definition LIST_FLAG_DELETE :: "16 word" where "LIST_FLAG_DELETE = 1"
definition LIST_FLAG_SELFORG :: "16 word" where "LIST_FLAG_SELFORG = 4"
definition LIST_FLAG_ORDERED :: "16 word" where "LIST_FLAG_ORDERED = 8"
definition LIST_FLAG_MAP_HEAD :: "16 word" where "LIST_FLAG_MAP_HEAD = 64"
definition LIST_FLAG_MAP_CHAIN :: "16 word" where "LIST_FLAG_MAP_CHAIN = 128"
definition LIST_FLAG_STATS :: "16 word" where "LIST_FLAG_STATS = 256"

record ListStats =
  Time :: int
  Hits :: "64 word"
  Max :: "64 word"

record ListNode =
  Next :: "nat option"
  Prev :: "nat option"
  Tag :: cstr
  ItemType :: "16 word"
  NFlags :: "16 word"
  Head :: "nat option"
  Item :: "nat option"
  Side :: "nat option"
  Stats :: "ListStats option"

type_synonym heap = "nat \<Rightarrow> ListNode option"

definition stats_zero :: ListStats where "stats_zero = \<lparr>Time = 0, Hits = 0, Max = 0\<rparr>"

definition node_zero :: ListNode where
  "node_zero = \<lparr>Next = None, Prev = None, Tag = None, ItemType = 0, NFlags = 0, Head = None, Item = None, Side = None, Stats = None\<rparr>"

definition upd :: "nat \<Rightarrow> (ListNode \<Rightarrow> ListNode) \<Rightarrow> heap \<Rightarrow> heap option" where
  "upd p f h = map_option (\<lambda>N. h(p \<mapsto> f N)) (h p)"

text \<open>\<open>if (p) p->field = ...\<close>.\<close>

definition upd_opt :: "nat option \<Rightarrow> (ListNode \<Rightarrow> ListNode) \<Rightarrow> heap \<Rightarrow> heap option" where
  "upd_opt q f h = (case q of None \<Rightarrow> Some h | Some p \<Rightarrow> upd p f h)"

section \<open>Operations\<close>

definition ListInit :: "nat \<Rightarrow> 16 word \<Rightarrow> heap \<Rightarrow> heap" where
  "ListInit a fl h = h(a \<mapsto> node_zero\<lparr>Head := Some a, Prev := Some a, NFlags := fl, Stats := Some stats_zero\<rparr>)"

definition ListGetHead :: "nat option \<Rightarrow> heap \<Rightarrow> nat option option" where
  "ListGetHead q h = (case q of None \<Rightarrow> Some None
     | Some p \<Rightarrow> do { N \<leftarrow> h p; Some (if has_flag (NFlags N) LIST_FLAG_MAP_CHAIN then Some p else Head N) })"

definition ListGetRoot :: "nat option \<Rightarrow> heap \<Rightarrow> nat option option" where
  "ListGetRoot q h =
     do { base \<leftarrow> ListGetHead q h;
          p \<leftarrow> base;
          H \<leftarrow> h p;
          Some (if has_flag (NFlags H) LIST_FLAG_MAP_CHAIN then Head H else base) }"

definition ListSize :: "nat option \<Rightarrow> heap \<Rightarrow> 64 word option" where
  "ListSize q h =
     do { base \<leftarrow> ListGetHead q h;
          (case base of None \<Rightarrow> Some 0
           | Some p \<Rightarrow> do { H \<leftarrow> h p; Some (case Stats H of None \<Rightarrow> 0 | Some s \<Rightarrow> Hits s) }) }"

text \<open>\<open>Head->Stats->Hits += d\<close>, for the chain and for the whole map.\<close>

definition AddHits :: "64 word \<Rightarrow> nat \<Rightarrow> heap \<Rightarrow> heap option" where
  "AddHits d p h = do { H \<leftarrow> h p; s \<leftarrow> Stats H; upd p (\<lambda>N. N\<lparr>Stats := Some (s\<lparr>Hits := Hits s + d\<rparr>)\<rparr>) h }"

definition ListCountItems :: "64 word \<Rightarrow> nat option \<Rightarrow> heap \<Rightarrow> heap option" where
  "ListCountItems d q h =
     do { base \<leftarrow> ListGetHead q h;
          p \<leftarrow> base;
          H \<leftarrow> h p;
          (if has_flag (NFlags H) LIST_FLAG_MAP_CHAIN
           then do { h \<leftarrow> AddHits d p h; root \<leftarrow> Head H; AddHits d root h }
           else AddHits d p h) }"

definition ListIncrNoOfItems :: "nat option \<Rightarrow> heap \<Rightarrow> heap option" where
  "ListIncrNoOfItems = ListCountItems 1"

definition ListDecrNoOfItems :: "nat option \<Rightarrow> heap \<Rightarrow> heap option" where
  "ListDecrNoOfItems = ListCountItems (- 1)"

definition ListThreadNode :: "nat \<Rightarrow> nat \<Rightarrow> heap \<Rightarrow> heap option" where
  "ListThreadNode prv node h =
     (if prv = node then Some h
      else do {
        P \<leftarrow> h prv;
        let nxt = Next P;
        h \<leftarrow> upd node (\<lambda>N. N\<lparr>Prev := Some prv\<rparr>) h;
        h \<leftarrow> upd prv (\<lambda>N. N\<lparr>Next := Some node\<rparr>) h;
        h \<leftarrow> upd node (\<lambda>N. N\<lparr>Next := nxt\<rparr>) h;
        base \<leftarrow> ListGetHead (Some prv) h;
        h \<leftarrow> upd node (\<lambda>N. N\<lparr>Head := base\<rparr>) h;
        h \<leftarrow> (if nxt \<noteq> None then upd_opt nxt (\<lambda>N. N\<lparr>Prev := Some node\<rparr>) h
             else do { p \<leftarrow> base; upd p (\<lambda>N. N\<lparr>Prev := Some node\<rparr>) h });
        ListIncrNoOfItems (Some prv) h })"

definition UnThreadHead :: "nat \<Rightarrow> nat option \<Rightarrow> nat option \<Rightarrow> nat option \<Rightarrow> ListNode \<Rightarrow> ListNode" where
  "UnThreadHead node prv nxt base H =
     (let H = (if Prev H = Some node then H\<lparr>Prev := (if prv = base then None else prv)\<rparr> else H);
          H = (if Side H = Some node then H\<lparr>Side := None\<rparr> else H);
          H = (if Next H = Some node then H\<lparr>Next := nxt\<rparr> else H)
      in if Prev H = Some node then H\<lparr>Prev := prv\<rparr> else H)"

definition ListUnThreadNode :: "nat \<Rightarrow> heap \<Rightarrow> heap option" where
  "ListUnThreadNode node h =
     do {
       h \<leftarrow> ListDecrNoOfItems (Some node) h;
       N \<leftarrow> h node;
       h \<leftarrow> upd_opt (Prev N) (\<lambda>P. P\<lparr>Next := Next N\<rparr>) h;
       h \<leftarrow> upd_opt (Next N) (\<lambda>X. X\<lparr>Prev := Prev N\<rparr>) h;
       base \<leftarrow> ListGetHead (Some node) h;
       N' \<leftarrow> h node;
       h \<leftarrow> upd_opt base (UnThreadHead node (Prev N') (Next N) base) h;
       upd node (\<lambda>N. N\<lparr>Head := None, Prev := None, Next := None, Side := None\<rparr>) h }"

text \<open>\<open>MapGetNext\<close> on a node that belongs to no map.\<close>

definition ListGetNext :: "nat option \<Rightarrow> heap \<Rightarrow> nat option option" where
  "ListGetNext q h = (case q of None \<Rightarrow> Some None
     | Some p \<Rightarrow> do { N \<leftarrow> h p;
         (if Next N \<noteq> None then Some (Next N)
          else if has_flag (NFlags N) (LIST_FLAG_MAP_HEAD OR LIST_FLAG_MAP_CHAIN) then None
          else do { base \<leftarrow> ListGetHead q h;
                    (case base of None \<Rightarrow> Some None
                     | Some c \<Rightarrow> do { H \<leftarrow> h c; if has_flag (NFlags H) LIST_FLAG_MAP_CHAIN then None else Some None }) }) })"

definition ListGetLast :: "nat option \<Rightarrow> heap \<Rightarrow> nat option option" where
  "ListGetLast q h =
     do { base \<leftarrow> ListGetHead q h;
          (case base of None \<Rightarrow> Some q
           | Some p \<Rightarrow> do { H \<leftarrow> h p; Some (if Prev H \<noteq> None then Prev H else base) }) }"

definition ListDeleteNode :: "nat option \<Rightarrow> heap \<Rightarrow> (nat option \<times> heap) option" where
  "ListDeleteNode q h = (case q of None \<Rightarrow> Some (None, h)
     | Some p \<Rightarrow> do { h \<leftarrow> ListUnThreadNode p h; N \<leftarrow> h p; Some (Item N, h(p := None)) })"

text \<open>At most \<open>n\<close> items are deleted to make room; the code has three rounds.\<close>

primrec HandleMaxSize_loop :: "nat \<Rightarrow> nat \<Rightarrow> nat \<Rightarrow> heap \<Rightarrow> heap option" where
  "HandleMaxSize_loop 0 chain root h = Some h"
| "HandleMaxSize_loop (Suc n) chain root h =
     do { C \<leftarrow> h chain; sc \<leftarrow> Stats C; R \<leftarrow> h root; sr \<leftarrow> Stats R;
          (if Hits sc > Max sr
           then do { cur \<leftarrow> ListGetNext (Some chain) h;
                     (if cur = None then Some h
                      else do { (c, h) \<leftarrow> ListDeleteNode cur h; HandleMaxSize_loop n chain root h }) }
           else Some h) }"

definition ListHandleMaxSize :: "nat option \<Rightarrow> nat \<Rightarrow> heap \<Rightarrow> heap option" where
  "ListHandleMaxSize node root h = do { c \<leftarrow> ListGetHead node h; chain \<leftarrow> c; HandleMaxSize_loop 3 chain root h }"

text \<open>\<open>a\<close> is the address of the new node, \<open>now\<close> the time of the clock.\<close>

definition ListInsertTypedItem :: "nat \<Rightarrow> int \<Rightarrow> nat option \<Rightarrow> 16 word \<Rightarrow> cstr \<Rightarrow> nat option \<Rightarrow> heap \<Rightarrow> (nat option \<times> heap) option" where
  "ListInsertTypedItem a now q type nm item h = (case q of None \<Rightarrow> Some (None, h)
     | Some p \<Rightarrow> do {
         r \<leftarrow> ListGetRoot q h;
         root \<leftarrow> r;
         R \<leftarrow> h root;
         s \<leftarrow> Stats R;
         h \<leftarrow> (if Max s > 0 then ListHandleMaxSize q root h else Some h);
         h \<leftarrow> ListThreadNode p a (h(a \<mapsto> node_zero));
         R \<leftarrow> h root;
         h \<leftarrow> upd a (\<lambda>N. N\<lparr>Item := item,
                ItemType := (if has_flag (NFlags R) LIST_FLAG_DELETE then of_nat (StrLen nm) else type),
                Tag := (if StrValid nm then CopyStr (Tag N) nm else Tag N),
                Stats := (if has_flag (NFlags R) LIST_FLAG_STATS then Some (stats_zero\<lparr>Time := now\<rparr>) else Stats N)\<rparr>) h;
         Some (Some a, h) })"

definition ListAddTypedItem :: "nat \<Rightarrow> int \<Rightarrow> nat option \<Rightarrow> 16 word \<Rightarrow> cstr \<Rightarrow> nat option \<Rightarrow> heap \<Rightarrow> (nat option \<times> heap) option" where
  "ListAddTypedItem a now q type nm item h =
     do { p \<leftarrow> q;
          L \<leftarrow> h p;
          (if has_flag (NFlags L) (LIST_FLAG_MAP_HEAD OR LIST_FLAG_ORDERED) then None
           else do { cur \<leftarrow> ListGetLast q h;
                     (if cur = None then Some (None, h) else ListInsertTypedItem a now cur type nm item h) }) }"

definition ListAddItem :: "nat \<Rightarrow> int \<Rightarrow> nat option \<Rightarrow> nat option \<Rightarrow> heap \<Rightarrow> (nat option \<times> heap) option" where
  "ListAddItem a now q item h = ListAddTypedItem a now q 0 (Some '''') item h"

definition ListSwapItems :: "nat option \<Rightarrow> nat option \<Rightarrow> heap \<Rightarrow> heap option" where
  "ListSwapItems q1 q2 h =
     (case q1 of None \<Rightarrow> Some h
      | Some i1 \<Rightarrow> (case q2 of None \<Rightarrow> Some h
         | Some i2 \<Rightarrow> do {
             base \<leftarrow> ListGetHead q1 h;
             (if base = q1 \<or> base = q2 then Some h
              else do {
                N1 \<leftarrow> h i1; N2 \<leftarrow> h i2;
                let prv = Prev N1;
                let nxt = Next N2;
                p \<leftarrow> base;
                h \<leftarrow> upd p (\<lambda>H. if Next H = q1 then H\<lparr>Next := q2\<rparr> else H) h;
                h \<leftarrow> upd p (\<lambda>H. if Prev H = q1 then H\<lparr>Prev := q2\<rparr> else H) h;
                h \<leftarrow> upd_opt prv (\<lambda>P. P\<lparr>Next := q2\<rparr>) h;
                h \<leftarrow> upd i1 (\<lambda>N. N\<lparr>Prev := q2, Next := nxt\<rparr>) h;
                h \<leftarrow> upd_opt nxt (\<lambda>X. X\<lparr>Prev := q1\<rparr>) h;
                upd i2 (\<lambda>N. N\<lparr>Prev := prv, Next := q1\<rparr>) h }) }))"

text \<open>The loop over the nodes; it would not end on a list that is a circle.\<close>

partial_function (option) FindItem_loop :: "bool \<Rightarrow> nat option \<Rightarrow> nat option \<Rightarrow> heap \<Rightarrow> (nat option \<times> heap) option" where
  "FindItem_loop selforg item cur h =
     (case cur of None \<Rightarrow> Some (None, h)
      | Some p \<Rightarrow> do {
          N \<leftarrow> h p;
          (if Item N = item
           then do { h \<leftarrow> (if selforg then ListSwapItems (Prev N) cur h else Some h); Some (cur, h) }
           else do { nxt \<leftarrow> ListGetNext cur h; FindItem_loop selforg item nxt h }) })"

definition ListFindItem :: "nat \<Rightarrow> nat option \<Rightarrow> heap \<Rightarrow> (nat option \<times> heap) option" where
  "ListFindItem base item h =
     (if item = None then Some (None, h)
      else do { cur \<leftarrow> ListGetNext (Some base) h; H \<leftarrow> h base;
                FindItem_loop (has_flag (NFlags H) LIST_FLAG_SELFORG) item cur h })"

text \<open>The macro \<open>ListDeleteItem(list, item)\<close>.\<close>

definition ListDeleteItem_in :: "nat \<Rightarrow> nat option \<Rightarrow> heap \<Rightarrow> (nat option \<times> heap) option" where
  "ListDeleteItem_in base item h = do { (q, h) \<leftarrow> ListFindItem base item h; ListDeleteNode q h }"

partial_function (option) GetNth_loop :: "int \<Rightarrow> int \<Rightarrow> nat option \<Rightarrow> heap \<Rightarrow> (int \<times> nat option) option" where
  "GetNth_loop n count cur h =
     (if cur \<noteq> None \<and> count < n
      then do { nxt \<leftarrow> ListGetNext cur h; GetNth_loop n (count + 1) nxt h }
      else Some (count, cur))"

definition ListGetNth :: "nat option \<Rightarrow> int \<Rightarrow> heap \<Rightarrow> nat option option" where
  "ListGetNth q n h =
     (if q = None then Some None
      else do { cur \<leftarrow> ListGetNext q h; (count, cur) \<leftarrow> GetNth_loop n 0 cur h;
                Some (if count < n then None else cur) })"


section \<open>Abstraction\<close>

text \<open>
  The nodes \<open>ps\<close> are linked behind \<open>pv\<close>, in order, and the last one points to \<open>nx\<close>; none belongs to a map.
\<close>

definition no_map :: "ListNode \<Rightarrow> bool" where
  "no_map N \<longleftrightarrow> \<not> has_flag (NFlags N) LIST_FLAG_MAP_HEAD \<and> \<not> has_flag (NFlags N) LIST_FLAG_MAP_CHAIN"

definition first :: "nat list \<Rightarrow> nat option \<Rightarrow> nat option" where
  "first ps nx = (case ps of [] \<Rightarrow> nx | p # _ \<Rightarrow> Some p)"

fun seg :: "heap \<Rightarrow> nat \<Rightarrow> nat \<Rightarrow> nat list \<Rightarrow> nat option \<Rightarrow> bool" where
  "seg h base pv [] nx \<longleftrightarrow> True"
| "seg h base pv (p # ps) nx \<longleftrightarrow>
     (\<exists>N. h p = Some N \<and> Head N = Some base \<and> Prev N = Some pv \<and> Next N = first ps nx \<and> no_map N) \<and> seg h base p ps nx"

definition head_ok :: "ListNode \<Rightarrow> nat \<Rightarrow> nat list \<Rightarrow> bool" where
  "head_ok H base ps \<longleftrightarrow> Head H = Some base \<and> no_map H \<and> Next H = first ps None
     \<and> (if ps = [] then Prev H \<in> {None, Some base} else Prev H = Some (last ps))
     \<and> (\<exists>s. Stats H = Some s \<and> Hits s = of_nat (length ps))"

definition list_at :: "heap \<Rightarrow> nat \<Rightarrow> nat list \<Rightarrow> bool" where
  "list_at h base ps \<longleftrightarrow> distinct (base # ps) \<and> (\<exists>H. h base = Some H \<and> head_ok H base ps) \<and> seg h base base ps None"

definition items :: "heap \<Rightarrow> nat list \<Rightarrow> nat option list" where
  "items h ps = map (\<lambda>p. Item (the (h p))) ps"

lemma first_simps [simp]: "first [] nx = nx" "first (p # ps) nx = Some p"
  by (simp_all add: first_def)

lemma first_append: "first (xs @ ys) nx = first xs (first ys nx)"
  by (cases xs) simp_all

lemma seg_append: "seg h base pv (xs @ ys) nx \<longleftrightarrow> seg h base pv xs (first ys nx) \<and> seg h base (last (pv # xs)) ys nx"
  by (induction xs arbitrary: pv) (auto simp: first_append)

lemma seg_frame: "(\<And>p. p \<in> set ps \<Longrightarrow> h' p = h p) \<Longrightarrow> seg h' base pv ps nx = seg h base pv ps nx"
  by (induction ps arbitrary: pv) auto

lemma seg_upd [simp]: "q \<notin> set ps \<Longrightarrow> seg (h(q := X)) base pv ps nx = seg h base pv ps nx"
  by (rule seg_frame) auto

lemma seg_node: "seg h base pv ps nx \<Longrightarrow> p \<in> set ps \<Longrightarrow> \<exists>N. h p = Some N \<and> Head N = Some base \<and> no_map N"
  by (induction ps arbitrary: pv) auto

text \<open>Changing what the last node points to, and what the first one comes after.\<close>

lemma seg_last:
  assumes "seg h base pv (xs @ [p]) nx" "p \<notin> set xs" "h p = Some N"
  shows "seg (h(p \<mapsto> N\<lparr>Next := ny\<rparr>)) base pv (xs @ [p]) ny"
  using assms by (simp add: seg_append) (auto simp: no_map_def)

lemma seg_first:
  assumes "seg h base pv (p # xs) nx" "p \<notin> set xs" "h p = Some N"
  shows "seg (h(p \<mapsto> N\<lparr>Prev := Some pw\<rparr>)) base pw (p # xs) nx"
  using assms by (auto simp: no_map_def)

lemma get_head_member:
  assumes "list_at h base ps" "p = base \<or> p \<in> set ps"
  shows "ListGetHead (Some p) h = Some (Some base)"
  using assms seg_node [of h base base ps None p]
  by (auto simp: list_at_def ListGetHead_def head_ok_def no_map_def)

lemma ListSize_length:
  assumes "list_at h base ps" "p = base \<or> p \<in> set ps"
  shows "ListSize (Some p) h = Some (of_nat (length ps))"
  using assms get_head_member [OF assms] by (auto simp: ListSize_def list_at_def head_ok_def)

lemma upd_Some [simp]: "h p = Some N \<Longrightarrow> upd p f h = Some (h(p \<mapsto> f N))"
  by (simp add: upd_def)

lemma upd_opt_simps [simp]: "upd_opt None f h = Some h" "upd_opt (Some p) f h = upd p f h"
  by (simp_all add: upd_opt_def)

text \<open>What threading and unthreading leave alone.\<close>

definition kept :: "ListNode \<Rightarrow> nat option \<times> cstr \<times> 16 word \<times> 16 word \<times> 64 word option" where
  "kept N = (Item N, Tag N, ItemType N, NFlags N, map_option Max (Stats N))"

text \<open>Counting, on a list that is no map.\<close>

lemma ListCountItems_run:
  assumes "h p = Some N" "no_map N" "Head N = Some base" "h base = Some H" "no_map H" "Stats H = Some s"
  shows "ListCountItems d (Some p) h = Some (h(base \<mapsto> H\<lparr>Stats := Some (s\<lparr>Hits := Hits s + d\<rparr>)\<rparr>))"
  using assms by (simp add: ListCountItems_def ListGetHead_def no_map_def AddHits_def)

lemma list_atD:
  assumes "list_at h base ps"
  obtains H s where "h base = Some H" "Head H = Some base" "no_map H" "Next H = first ps None" "Stats H = Some s"
    "Hits s = of_nat (length ps)" "ps = [] \<Longrightarrow> Prev H \<in> {None, Some base}" "ps \<noteq> [] \<Longrightarrow> Prev H = Some (last ps)"
  using assms by (auto simp: list_at_def head_ok_def split: if_splits)

lemma ListThreadNode_insert:
  assumes "list_at h base (xs @ ys)" "a \<notin> set (base # xs @ ys)" "h a = Some A" "no_map A"
  shows "\<exists>h'. ListThreadNode (last (base # xs)) a h = Some h' \<and> list_at h' base (xs @ a # ys)
    \<and> (\<forall>p. map_option kept (h' p) = map_option kept (h p))"
proof -
  obtain H s where H: "h base = Some H" "Head H = Some base" "no_map H" "Next H = first (xs @ ys) None" "Stats H = Some s"
    "Hits s = of_nat (length (xs @ ys))" "xs @ ys = [] \<Longrightarrow> Prev H \<in> {None, Some base}" "xs @ ys \<noteq> [] \<Longrightarrow> Prev H = Some (last (xs @ ys))"
    using list_atD [OF assms(1)] by metis
  have d: "distinct (base # xs @ ys)" and sx: "seg h base base xs (first ys None)" and sy: "seg h base (last (base # xs)) ys None"
    using assms(1) by (auto simp: list_at_def seg_append)
  note run = ListThreadNode_def ListGetHead_def ListIncrNoOfItems_def ListCountItems_def AddHits_def no_map_def kept_def
  show ?thesis
  proof (cases xs rule: rev_cases)
    case xs: Nil
    show ?thesis
    proof (cases ys)
      case Nil
      with xs H assms d show ?thesis by (simp add: run list_at_def head_ok_def)
    next
      case (Cons q r)
      then obtain Q where "h q = Some Q" "Head Q = Some base" "no_map Q" "Prev Q = Some base" "Next Q = first r None" "seg h base q r None"
        using sy xs by auto
      with xs Cons H assms d show ?thesis by (auto simp: run list_at_def head_ok_def)
    qed
  next
    case xs: (snoc x p)
    then obtain P where P: "h p = Some P" "Head P = Some base" "no_map P" "Next P = first ys None"
      "Prev P = Some (last (base # x))" and sp: "seg h base base x (Some p)"
      using sx by (auto simp: seg_append)
    show ?thesis
    proof (cases ys)
      case Nil
      with xs P H assms d sp show ?thesis by (auto simp: run list_at_def head_ok_def seg_append first_append)
    next
      case (Cons q r)
      then obtain Q where "h q = Some Q" "Head Q = Some base" "no_map Q" "Prev Q = Some p" "Next Q = first r None" "seg h base q r None"
        using sy xs by auto
      with xs P sp Cons H assms d show ?thesis by (auto simp: run list_at_def head_ok_def seg_append first_append)
    qed
  qed
qed

lemma ListUnThreadNode_remove:
  assumes "list_at h base (xs @ a # ys)"
  shows "\<exists>h'. ListUnThreadNode a h = Some h' \<and> list_at h' base (xs @ ys) \<and> (\<forall>p. map_option kept (h' p) = map_option kept (h p))"
proof -
  obtain H s where H: "h base = Some H" "Head H = Some base" "no_map H" "Next H = first (xs @ a # ys) None" "Stats H = Some s"
    "Hits s = of_nat (length (xs @ a # ys))" "Prev H = Some (last (xs @ a # ys))"
    using list_atD [OF assms] by (metis append_is_Nil_conv list.distinct(1))
  have d: "distinct (base # xs @ a # ys)" and sx: "seg h base base xs (Some a)" and sa: "seg h base (last (base # xs)) (a # ys) None"
    using assms by (auto simp: list_at_def seg_append)
  obtain A where A: "h a = Some A" "Head A = Some base" "no_map A" "Prev A = Some (last (base # xs))" "Next A = first ys None"
    and sy: "seg h base a ys None" using sa by auto
  note run = ListUnThreadNode_def UnThreadHead_def ListGetHead_def ListDecrNoOfItems_def ListCountItems_def AddHits_def no_map_def Let_def kept_def
  show ?thesis
  proof (cases xs rule: rev_cases)
    case xs: Nil
    show ?thesis
    proof (cases ys)
      case Nil
      with xs H A d show ?thesis by (auto simp: run list_at_def head_ok_def)
    next
      case (Cons q r)
      then obtain Q where "h q = Some Q" "Head Q = Some base" "no_map Q" "Prev Q = Some a" "Next Q = first r None" "seg h base q r None"
        using sy by auto
      with xs Cons H A d show ?thesis by (auto simp: run list_at_def head_ok_def)
    qed
  next
    case xs: (snoc x p)
    then obtain P where P: "h p = Some P" "Head P = Some base" "no_map P" "Next P = Some a"
      "Prev P = Some (last (base # x))" and sp: "seg h base base x (Some p)"
      using sx by (auto simp: seg_append)
    have nf: "first x (Some p) \<noteq> Some a" using d xs by (cases x) auto
    show ?thesis
    proof (cases ys)
      case Nil
      with xs P H A d sp nf show ?thesis by (auto simp: run list_at_def head_ok_def seg_append first_append)
    next
      case (Cons q r)
      then obtain Q where "h q = Some Q" "Head Q = Some base" "no_map Q" "Prev Q = Some a" "Next Q = first r None" "seg h base q r None"
        using sy by auto
      with xs P sp Cons H A d nf show ?thesis by (auto simp: run list_at_def head_ok_def seg_append first_append)
    qed
  qed
qed

text \<open>A list without a limit that is not kept in order.\<close>

definition unlimited :: "heap \<Rightarrow> nat \<Rightarrow> bool" where
  "unlimited h base \<longleftrightarrow> (\<exists>H s. h base = Some H \<and> Stats H = Some s \<and> Max s = 0
     \<and> \<not> has_flag (NFlags H) LIST_FLAG_ORDERED \<and> \<not> has_flag (NFlags H) LIST_FLAG_SELFORG)"

lemma list_at_alloc: "list_at h base ps \<Longrightarrow> p = base \<or> p \<in> set ps \<Longrightarrow> \<exists>N. h p = Some N \<and> no_map N"
  by (metis list_atD list_at_def seg_node)

lemma kept_items:
  assumes "\<forall>p. map_option kept (h' p) = map_option kept (h p)" "\<forall>p \<in> set ps. h p \<noteq> None"
  shows "items h' ps = items h ps"
proof -
  have "Item (the (h' p)) = Item (the (h p))" if "p \<in> set ps" for p
  proof -
    obtain N where N: "h p = Some N" using assms(2) \<open>p \<in> set ps\<close> by auto
    have "map_option kept (h' p) = Some (kept N)" using assms(1) N by simp
    then obtain N' where "h' p = Some N'" "kept N' = kept N" by auto
    then show ?thesis using N by (simp add: kept_def)
  qed
  then show ?thesis by (simp add: items_def)
qed

lemma kept_unlimited:
  assumes "\<forall>p. map_option kept (h' p) = map_option kept (h p)" "unlimited h base"
  shows "unlimited h' base"
proof -
  obtain H s where H: "h base = Some H" "Stats H = Some s" "Max s = 0"
    "\<not> has_flag (NFlags H) LIST_FLAG_ORDERED" "\<not> has_flag (NFlags H) LIST_FLAG_SELFORG"
    using assms(2) by (auto simp: unlimited_def)
  have "map_option kept (h' base) = Some (kept H)" using assms(1) H by simp
  then obtain H' where "h' base = Some H'" "kept H' = kept H" by auto
  then show ?thesis using H by (auto simp: unlimited_def kept_def)
qed

lemma seg_same:
  assumes "seg h base pv ps nx" "h a = Some N" "Head N' = Head N" "Prev N' = Prev N" "Next N' = Next N" "NFlags N' = NFlags N"
  shows "seg (h(a \<mapsto> N')) base pv ps nx"
  using assms by (induction ps arbitrary: pv) (auto simp: no_map_def)

lemma list_at_same:
  assumes "list_at h base ps" "h a = Some N" "a \<noteq> base" "Head N' = Head N" "Prev N' = Prev N" "Next N' = Next N" "NFlags N' = NFlags N"
  shows "list_at (h(a \<mapsto> N')) base ps"
  using assms by (auto simp: list_at_def intro!: seg_same [where h = h and a = a and N = N])

lemma list_at_fresh:
  assumes "list_at h base ps" "h a = None"
  shows "list_at (h(a \<mapsto> N)) base ps"
proof -
  have "a \<noteq> base" "a \<notin> set ps" using list_at_alloc [OF assms(1), of a] assms(2) by auto
  then show ?thesis using assms(1) by (simp add: list_at_def)
qed

lemma unlimited_other: "a \<noteq> base \<Longrightarrow> unlimited (h(a := X)) base = unlimited h base"
  by (simp add: unlimited_def)

lemma items_other: "a \<notin> set ps \<Longrightarrow> items (h(a := X)) ps = items h ps"
  by (auto simp: items_def)

lemma items_append [simp]:
  "items h (xs @ ys) = items h xs @ items h ys" "items h (x # xs) = Item (the (h x)) # items h xs" "items h [] = []"
  by (simp_all add: items_def)

lemma ListInsertTypedItem_insert:
  assumes "list_at h base (xs @ ys)" "unlimited h base" "h a = None"
  shows "\<exists>h'. ListInsertTypedItem a now (Some (last (base # xs))) ty nm item h = Some (Some a, h')
    \<and> list_at h' base (xs @ a # ys) \<and> unlimited h' base \<and> items h' (xs @ a # ys) = items h xs @ item # items h ys
    \<and> (\<forall>p. p \<noteq> a \<longrightarrow> map_option kept (h' p) = map_option kept (h p))
    \<and> (\<exists>A. h' a = Some A \<and> Item A = item \<and> Tag A = (if StrValid nm then CopyStr None nm else None)
          \<and> (\<not> has_flag (NFlags (the (h base))) LIST_FLAG_DELETE \<longrightarrow> ItemType A = ty))"
proof -
  let ?h = "h(a \<mapsto> node_zero)" and ?prv = "last (base # xs)"
  have mem: "?prv = base \<or> ?prv \<in> set (xs @ ys)" by (cases "xs = []") auto
  have a: "a \<notin> set (base # xs @ ys)" using list_at_alloc [OF assms(1), of a] assms(3) by auto
  have 0: "list_at ?h base (xs @ ys)" using list_at_fresh assms(1,3) by blast
  obtain H s where H: "h base = Some H" "Stats H = Some s" "Max s = 0" "no_map H"
    using assms(2) list_at_alloc [OF assms(1), of base] by (auto simp: unlimited_def)
  have z: "no_map node_zero" by (simp add: no_map_def node_zero_def has_flag_def)
  obtain h1 where h1: "ListThreadNode ?prv a ?h = Some h1" "list_at h1 base (xs @ a # ys)"
    "\<forall>p. map_option kept (h1 p) = map_option kept (?h p)"
    using ListThreadNode_insert [OF 0 a _ z] by auto
  have u1: "unlimited h1 base" by (rule kept_unlimited [where h = ?h, OF h1(3)]) (use assms(2) a unlimited_other [of a base h "Some node_zero"] in auto)
  then obtain H1 where H1: "h1 base = Some H1" by (auto simp: unlimited_def)
  obtain A where A: "h1 a = Some A" using list_at_alloc [OF h1(2), of a] by auto
  define A' where "A' = A\<lparr>Item := item,
      ItemType := (if has_flag (NFlags H1) LIST_FLAG_DELETE then of_nat (StrLen nm) else ty),
      Tag := (if StrValid nm then CopyStr (Tag A) nm else Tag A),
      Stats := (if has_flag (NFlags H1) LIST_FLAG_STATS then Some (stats_zero\<lparr>Time := now\<rparr>) else Stats A)\<rparr>"
  have links: "Head A' = Head A" "Prev A' = Prev A" "Next A' = Next A" "NFlags A' = NFlags A" "Item A' = item" by (simp_all add: A'_def)
  have head: "ListGetHead (Some ?prv) h = Some (Some base)" using get_head_member [OF assms(1)] mem by blast
  have r: "ListInsertTypedItem a now (Some ?prv) ty nm item h = Some (Some a, h1(a \<mapsto> A'))"
    using H head h1(1) H1 A by (simp add: ListInsertTypedItem_def ListGetRoot_def no_map_def A'_def del: last.simps)
  have "a \<noteq> base" using a by simp
  then have "list_at (h1(a \<mapsto> A')) base (xs @ a # ys)" "unlimited (h1(a \<mapsto> A')) base"
    using list_at_same [OF h1(2) A _ links(1-4)] u1 by (simp_all add: unlimited_other)
  moreover have "items (h1(a \<mapsto> A')) (xs @ a # ys) = items h xs @ item # items h ys"
  proof -
    have al: "\<forall>p \<in> set (xs @ ys). ?h p \<noteq> None" using list_at_alloc [OF 0] by fastforce
    have "items h1 xs = items ?h xs" by (rule kept_items [where h = ?h, OF h1(3)]) (use al in auto)
    moreover have "items h1 ys = items ?h ys" by (rule kept_items [where h = ?h, OF h1(3)]) (use al in auto)
    ultimately show ?thesis using a links(5) by (simp add: items_other)
  qed
  moreover have "\<forall>p. p \<noteq> a \<longrightarrow> map_option kept ((h1(a \<mapsto> A')) p) = map_option kept (h p)" using h1(3) by simp
  moreover have "(h1(a \<mapsto> A')) a = Some A'" "Item A' = item" by (simp_all add: A'_def)
  moreover have "kept A = kept node_zero" using h1(3) A by (auto dest: spec [of _ a])
  then have "Tag A' = (if StrValid nm then CopyStr None nm else None)" by (simp add: A'_def kept_def node_zero_def)
  moreover have "kept H1 = kept H" using h1(3) H1 H(1) \<open>a \<noteq> base\<close> by (auto dest: spec [of _ base])
  then have "\<not> has_flag (NFlags (the (h base))) LIST_FLAG_DELETE \<longrightarrow> ItemType A' = ty" using H(1) by (simp add: A'_def kept_def)
  ultimately show ?thesis using r by blast
qed

lemma ListGetLast_last:
  assumes "list_at h base ps"
  shows "ListGetLast (Some base) h = Some (Some (last (base # ps)))"
proof -
  obtain H where "h base = Some H" "ps = [] \<Longrightarrow> Prev H \<in> {None, Some base}" "ps \<noteq> [] \<Longrightarrow> Prev H = Some (last ps)"
    using list_atD [OF assms] by metis
  then show ?thesis using get_head_member [OF assms, of base] by (cases "ps = []") (auto simp: ListGetLast_def)
qed

lemma has_flag_or: "has_flag w (f OR g) \<longleftrightarrow> has_flag w f \<or> has_flag w g"
  by (simp add: has_flag_def bit.conj_disj_distrib or_eq_0_iff)

lemma ListAddTypedItem_append:
  assumes "list_at h base ps" "unlimited h base" "h a = None"
  shows "\<exists>h'. ListAddTypedItem a now (Some base) ty nm item h = Some (Some a, h')
    \<and> list_at h' base (ps @ [a]) \<and> unlimited h' base \<and> items h' (ps @ [a]) = items h ps @ [item]
    \<and> (\<forall>p. p \<noteq> a \<longrightarrow> map_option kept (h' p) = map_option kept (h p))
    \<and> (\<exists>A. h' a = Some A \<and> Item A = item \<and> Tag A = (if StrValid nm then CopyStr None nm else None)
          \<and> (\<not> has_flag (NFlags (the (h base))) LIST_FLAG_DELETE \<longrightarrow> ItemType A = ty))"
proof -
  obtain H where "h base = Some H" "\<not> has_flag (NFlags H) (LIST_FLAG_MAP_HEAD OR LIST_FLAG_ORDERED)"
    using assms(2) list_at_alloc [OF assms(1), of base] by (auto simp: unlimited_def no_map_def has_flag_or)
  then have "ListAddTypedItem a now (Some base) ty nm item h = ListInsertTypedItem a now (Some (last (base # ps))) ty nm item h"
    using ListGetLast_last [OF assms(1)] by (simp add: ListAddTypedItem_def del: last.simps)
  moreover have "list_at h base (ps @ [])" using assms(1) by simp
  note ListInsertTypedItem_insert [OF this assms(2,3), of now ty nm item]
  then have "\<exists>h'. ListInsertTypedItem a now (Some (last (base # ps))) ty nm item h = Some (Some a, h')
    \<and> list_at h' base (ps @ [a]) \<and> unlimited h' base \<and> items h' (ps @ [a]) = items h ps @ [item]
    \<and> (\<forall>p. p \<noteq> a \<longrightarrow> map_option kept (h' p) = map_option kept (h p))
    \<and> (\<exists>A. h' a = Some A \<and> Item A = item \<and> Tag A = (if StrValid nm then CopyStr None nm else None)
          \<and> (\<not> has_flag (NFlags (the (h base))) LIST_FLAG_DELETE \<longrightarrow> ItemType A = ty))" unfolding items_append(3) .
  ultimately show ?thesis by (simp only:)
qed

lemma ListAddItem_append:
  assumes "list_at h base ps" "unlimited h base" "h a = None"
  shows "\<exists>h'. ListAddItem a now (Some base) item h = Some (Some a, h')
    \<and> list_at h' base (ps @ [a]) \<and> unlimited h' base \<and> items h' (ps @ [a]) = items h ps @ [item]"
  unfolding ListAddItem_def using ListAddTypedItem_append [OF assms, of now 0 "Some ''''" item] by blast

lemma ListGetNext_next:
  assumes "list_at h base (xs @ ys)"
  shows "ListGetNext (Some (last (base # xs))) h = Some (first ys None)"
proof -
  let ?p = "last (base # xs)"
  have mem: "?p = base \<or> ?p \<in> set (xs @ ys)" by (cases "xs = []") auto
  obtain N where N: "h ?p = Some N" "no_map N" using list_at_alloc [OF assms mem] by auto
  obtain H where H: "h base = Some H" "no_map H" using list_at_alloc [OF assms, of base] by auto
  have "Next N = first ys None"
  proof (cases xs rule: rev_cases)
    case Nil
    then show ?thesis using N list_atD [OF assms] by (metis append_Nil last_ConsL option.inject)
  next
    case (snoc x p)
    with assms N show ?thesis by (auto simp: list_at_def seg_append)
  qed
  with N H get_head_member [OF assms mem] show ?thesis
    by (auto simp: ListGetNext_def no_map_def has_flag_or simp del: last.simps)
qed


lemma FindItem_loop_find:
  "list_at h base (xs @ ys) \<Longrightarrow>
   FindItem_loop False item (first ys None) h = Some (find (\<lambda>p. Item (the (h p)) = item) ys, h)"
proof (induction ys arbitrary: xs)
  case Nil
  show ?case by (subst FindItem_loop.simps) simp
next
  case (Cons p ys)
  obtain N where N: "h p = Some N" using list_at_alloc [OF Cons.prems, of p] by auto
  have "list_at h base ((xs @ [p]) @ ys)" using Cons.prems by simp
  with Cons.IH [OF this] ListGetNext_next [OF this] N show ?case
    by (subst FindItem_loop.simps) simp
qed

lemma ListFindItem_find:
  assumes "list_at h base ps" "unlimited h base"
  shows "ListFindItem base item h = Some (if item = None then None else find (\<lambda>p. Item (the (h p)) = item) ps, h)"
proof -
  have "ListGetNext (Some base) h = Some (first ps None)" using ListGetNext_next [of h base "[]" ps] assms(1) by simp
  then show ?thesis
    using FindItem_loop_find [of h base "[]" ps item] assms by (auto simp: ListFindItem_def unlimited_def)
qed

lemma find_items:
  "find (\<lambda>p. Item (the (h p)) = item) ps = None \<Longrightarrow> item \<notin> set (items h ps)"
  "find (\<lambda>p. Item (the (h p)) = item) ps = Some p \<Longrightarrow>
   \<exists>xs ys. ps = xs @ p # ys \<and> item \<notin> set (items h xs) \<and> Item (the (h p)) = item"
proof -
  show "find (\<lambda>p. Item (the (h p)) = item) ps = None \<Longrightarrow> item \<notin> set (items h ps)"
    by (auto simp: items_def find_None_iff)
  show "find (\<lambda>p. Item (the (h p)) = item) ps = Some p \<Longrightarrow>
    \<exists>xs ys. ps = xs @ p # ys \<and> item \<notin> set (items h xs) \<and> Item (the (h p)) = item"
  proof (induction ps)
    case (Cons q ps)
    show ?case
    proof (cases "Item (the (h q)) = item")
      case True
      with Cons.prems show ?thesis by (intro exI [of _ "[]"] exI [of _ ps]) simp
    next
      case False
      with Cons obtain xs ys where "ps = xs @ p # ys" "item \<notin> set (items h xs)" "Item (the (h p)) = item" by auto
      with False show ?thesis by (intro exI [of _ "q # xs"] exI [of _ ys]) auto
    qed
  qed simp
qed

lemma list_at_free: "list_at h base ps \<Longrightarrow> a \<noteq> base \<Longrightarrow> a \<notin> set ps \<Longrightarrow> list_at (h(a := None)) base ps"
  by (simp add: list_at_def)

lemma ListDeleteNode_remove:
  assumes "list_at h base (xs @ a # ys)" "unlimited h base"
  shows "\<exists>h'. ListDeleteNode (Some a) h = Some (Item (the (h a)), h')
    \<and> list_at h' base (xs @ ys) \<and> unlimited h' base \<and> items h' (xs @ ys) = items h xs @ items h ys \<and> h' a = None"
proof -
  obtain h1 where h1: "ListUnThreadNode a h = Some h1" "list_at h1 base (xs @ ys)" "\<forall>p. map_option kept (h1 p) = map_option kept (h p)"
    using ListUnThreadNode_remove [OF assms(1)] by blast
  obtain A where A: "h a = Some A" using list_at_alloc [OF assms(1), of a] by auto
  have "map_option kept (h1 a) = Some (kept A)" using h1(3) A by simp
  then obtain A1 where A1: "h1 a = Some A1" "Item A1 = Item A" by (auto simp: kept_def)
  have a: "a \<noteq> base" "a \<notin> set (xs @ ys)" using assms(1) by (auto simp: list_at_def)
  have al: "\<forall>p \<in> set (xs @ ys). h p \<noteq> None" using list_at_alloc [OF assms(1)] by fastforce
  have "items h1 (xs @ ys) = items h (xs @ ys)" by (rule kept_items [OF h1(3) al])
  then have "items (h1(a := None)) (xs @ ys) = items h xs @ items h ys" using a by (simp add: items_other)
  moreover have "unlimited (h1(a := None)) base" using kept_unlimited [OF h1(3) assms(2)] a by (simp add: unlimited_other)
  moreover have "list_at (h1(a := None)) base (xs @ ys)" using list_at_free [OF h1(2) a] .
  ultimately show ?thesis using h1(1) A A1 by (simp add: ListDeleteNode_def)
qed

lemma GetNth_loop_nth:
  "list_at h base (xs @ ys) \<Longrightarrow> 0 \<le> c \<Longrightarrow>
   \<exists>k. GetNth_loop n c (first ys None) h = Some (k, if nat (n - c) < length ys then Some (ys ! nat (n - c)) else None)
     \<and> (k < n \<longrightarrow> length ys \<le> nat (n - c))"
proof (induction ys arbitrary: xs c)
  case Nil
  show ?case by (subst GetNth_loop.simps) simp
next
  case (Cons p ys)
  show ?case
  proof (cases "c < n")
    case True
    have l: "list_at h base ((xs @ [p]) @ ys)" using Cons.prems by simp
    have n: "nat (n - c) = Suc (nat (n - (c + 1)))" using True by simp
    obtain k where k: "GetNth_loop n (c + 1) (first ys None) h
        = Some (k, if nat (n - (c + 1)) < length ys then Some (ys ! nat (n - (c + 1))) else None)"
      "k < n \<longrightarrow> length ys \<le> nat (n - (c + 1))"
      using Cons.IH [OF l, of "c + 1"] Cons.prems(2) by auto
    have "GetNth_loop n c (first (p # ys) None) h = GetNth_loop n (c + 1) (first ys None) h"
      using True ListGetNext_next [OF l] by (subst GetNth_loop.simps) simp
    then show ?thesis using k n by auto
  next
    case False
    then show ?thesis by (subst GetNth_loop.simps) simp
  qed
qed

section \<open>Correctness\<close>

text \<open>
  C8. Adding an item to a list implements appending to the sequence of its items: the new node is the last
  one, the links in both directions, the pointer to the last node and the count are those of the longer list.
\<close>

theorem ListAddItem_refines:
  assumes "list_at h base ps" "unlimited h base" "h a = None"
  shows "\<exists>h'. ListAddItem a now (Some base) item h = Some (Some a, h')
    \<and> list_at h' base (ps @ [a]) \<and> unlimited h' base \<and> items h' (ps @ [a]) = items h ps @ [item]
    \<and> ListSize (Some base) h' = Some (of_nat (length ps + 1))"
  using ListAddItem_append [OF assms, of now item] ListSize_length [of _ base "ps @ [a]" base] by fastforce

text \<open>
  C7. Deleting an item implements the operation on sequences that the model of the TLS server uses: the first
  node that holds the item is unlinked and freed, its item is returned, and nothing changes when there is none or the item is \<open>NULL\<close>.
\<close>

theorem ListDeleteItem_refines:
  assumes "list_at h base ps" "unlimited h base"
  shows "\<exists>q h' ps'. ListDeleteItem_in base item h = Some (q, h') \<and> q = (if item \<in> set (items h ps) then item else None)
    \<and> list_at h' base ps' \<and> unlimited h' base \<and> items h' ps' = ListDeleteItem (items h ps) item"
proof (cases "item = None \<or> find (\<lambda>p. Item (the (h p)) = item) ps = None")
  case True
  then have "ListDeleteItem_in base item h = Some (None, h)" "ListDeleteItem (items h ps) item = items h ps"
    using ListFindItem_find [OF assms, of item] find_items(1) [of h item ps]
    by (auto simp: ListDeleteItem_in_def ListDeleteNode_def ListDeleteItem_def remove1_idem)
  moreover have "(if item \<in> set (items h ps) then item else None) = None"
    using True find_items(1) [of h item ps] by auto
  ultimately show ?thesis using assms by metis
next
  case False
  then obtain p where f: "find (\<lambda>p. Item (the (h p)) = item) ps = Some p" "item \<noteq> None" by auto
  obtain xs ys where s: "ps = xs @ p # ys" "item \<notin> set (items h xs)" "Item (the (h p)) = item" using find_items(2) [OF f(1)] by blast
  have del: "ListDeleteItem (items h ps) item = items h xs @ items h ys"
    using s f(2) by (simp add: ListDeleteItem_def remove1_append)
  obtain h' where h': "ListDeleteNode (Some p) h = Some (Item (the (h p)), h')" "list_at h' base (xs @ ys)" "unlimited h' base"
    "items h' (xs @ ys) = items h xs @ items h ys"
    using ListDeleteNode_remove [of h base xs p ys] assms s(1) by blast
  moreover have "ListDeleteItem_in base item h = ListDeleteNode (Some p) h"
    using ListFindItem_find [OF assms, of item] f by (simp add: ListDeleteItem_in_def)
  moreover have "item \<in> set (items h ps)" using s(1,3) by (simp add: items_def)
  ultimately show ?thesis using del s(3) by metis
qed

text \<open>
  \<open>ListGetNth\<close> is indexing from 0 with \<open>NULL\<close> behind the end; a negative index means the first item.
\<close>

theorem ListGetNth_index:
  assumes "list_at h base ps"
  shows "ListGetNth (Some base) n h = Some (if nat n < length ps then Some (ps ! nat n) else None)"
proof -
  have "ListGetNext (Some base) h = Some (first ps None)" using ListGetNext_next [of h base "[]" ps] assms by simp
  moreover obtain k where "GetNth_loop n 0 (first ps None) h = Some (k, if nat n < length ps then Some (ps ! nat n) else None)"
    "k < n \<longrightarrow> length ps \<le> nat n"
    using GetNth_loop_nth [of h base "[]" ps 0 n] assms by auto
  ultimately show ?thesis by (auto simp: ListGetNth_def)
qed

section \<open>A list\<close>

lemma ListInit_empty:
  assumes "\<not> has_flag fl LIST_FLAG_MAP_HEAD" "\<not> has_flag fl LIST_FLAG_MAP_CHAIN" "\<not> has_flag fl LIST_FLAG_ORDERED" "\<not> has_flag fl LIST_FLAG_SELFORG"
  shows "list_at (ListInit a fl h) a []" "unlimited (ListInit a fl h) a"
  using assms by (simp_all add: ListInit_def list_at_def head_ok_def no_map_def unlimited_def node_zero_def stats_zero_def)

definition two_items :: heap where
  "two_items = (case do { (p, h) \<leftarrow> ListAddItem 1 0 (Some 0) (Some 7) (ListInit 0 0 (\<lambda>_. None)); ListAddItem 2 0 (Some 0) (Some 8) h }
     of None \<Rightarrow> (\<lambda>_. None) | Some (p, h) \<Rightarrow> h)"

lemma two_items_list: "list_at two_items 0 [1, 2]" "unlimited two_items 0" "items two_items [1, 2] = [Some 7, Some 8]"
proof -
  let ?h = "ListInit 0 0 (\<lambda>_. None)"
  have e: "list_at ?h 0 []" "unlimited ?h 0" by (rule ListInit_empty; simp add: has_flag_def)+
  have "?h 1 = None" by (simp add: ListInit_def)
  from ListAddItem_append [OF e this, of 0 "Some 7"] obtain h1 where
    h1: "ListAddItem 1 0 (Some 0) (Some 7) ?h = Some (Some 1, h1)" "list_at h1 0 [1]" "unlimited h1 0" "items h1 [1] = [Some 7]"
    by auto
  have "h1 2 = None"
  proof -
    have "map_option (\<lambda>(q, g). g 2 = None) (ListAddItem 1 0 (Some 0) (Some 7) ?h) = Some True" by code_simp
    with h1(1) show ?thesis by simp
  qed
  from ListAddItem_append [OF h1(2,3) this, of 0 "Some 8"] h1 show
    "list_at two_items 0 [1, 2]" "unlimited two_items 0" "items two_items [1, 2] = [Some 7, Some 8]"
    by (auto simp: two_items_def)
qed

theorem ListAddItem_refines_witness:
  "\<exists>h'. ListAddItem 3 0 (Some 0) None two_items = Some (Some 3, h') \<and> items h' [1, 2, 3] = [Some 7, Some 8, None]"
proof -
  have "two_items 3 = None" by code_simp
  from ListAddItem_refines [OF two_items_list(1,2) this, of 0 None] two_items_list(3) show ?thesis by auto
qed

theorem ListDeleteItem_refines_witness:
  "\<exists>q h' ps'. ListDeleteItem_in 0 (Some 7) two_items = Some (q, h') \<and> list_at h' 0 ps' \<and> items h' ps' = [Some 8]"
  using ListDeleteItem_refines [OF two_items_list(1,2), of "Some 7"] two_items_list(3) by (auto simp: ListDeleteItem_def)

theorem ListGetNth_index_witness: "ListGetNth (Some 0) 1 two_items = Some (Some 2) \<and> ListGetNth (Some 0) 2 two_items = Some None"
  using ListGetNth_index [OF two_items_list(1), of 1] ListGetNth_index [OF two_items_list(1), of 2] by simp

end
