(* ===== verification/NamedLists.thy ===== *)
theory NamedLists
  imports Lists
begin

text \<open>
  \<open>List.c\<close>, continued: items with names, which \<open>net.c\<close> uses for the network devices.  The theory ends with
  the proof that looking up a name in such a list is \<open>ListHasItem\<close> of the theory \<open>Net\<close>.
\<close>

section \<open>Finding by name\<close>

definition LIST_FLAG_CASE :: "16 word" where "LIST_FLAG_CASE = 2"
definition LIST_FLAG_CACHE :: "16 word" where "LIST_FLAG_CACHE = 16"
definition LIST_FLAG_TIMEOUT :: "16 word" where "LIST_FLAG_TIMEOUT = 32"
definition LIST_FLAG_UNIQ :: "16 word" where "LIST_FLAG_UNIQ = 512"

text \<open>
  Ordered lists depend on the sign of \<open>strcmp\<close>, and lists with \<open>LIST_FLAG_TIMEOUT\<close> lose items while they are
  searched; both are outside the model.  \<open>strcmp\<close> on a \<open>NULL\<close> name is undefined.
\<close>

definition ListConsiderInsertPoint :: "nat \<Rightarrow> nat option \<Rightarrow> cstr \<Rightarrow> heap \<Rightarrow> bool option" where
  "ListConsiderInsertPoint base q nm h = (case q of None \<Rightarrow> Some False
     | Some p \<Rightarrow>
         if p = base then Some False
         else do {
           N \<leftarrow> h p;
           (case Tag N of None \<Rightarrow> Some False
            | Some t \<Rightarrow> do {
                H \<leftarrow> h base;
                (if has_flag (NFlags H) LIST_FLAG_ORDERED then None
                 else if has_flag (NFlags H) LIST_FLAG_DELETE \<and> StrLen nm \<noteq> unat (ItemType N) then Some False
                 else do { n \<leftarrow> nm; Some (if has_flag (NFlags H) LIST_FLAG_CASE then t = n else strcaseeq t n) }) }) })"

partial_function (option) FindInsert_loop :: "nat \<Rightarrow> cstr \<Rightarrow> nat option \<Rightarrow> nat option \<Rightarrow> heap \<Rightarrow> nat option option" where
  "FindInsert_loop base nm prv cur h =
     (case cur of None \<Rightarrow> Some prv
      | Some p \<Rightarrow> do {
          N \<leftarrow> h p;
          m \<leftarrow> ListConsiderInsertPoint base cur nm h;
          (if m then do {
             v \<leftarrow> prv;
             P \<leftarrow> h v;
             Some (if has_flag (NFlags P) LIST_FLAG_MAP_CHAIN \<or> prv = Head N then cur else prv) }
           else FindInsert_loop base nm cur (Next N) h) })"

definition ListFindNamedItemInsert :: "nat option \<Rightarrow> cstr \<Rightarrow> heap \<Rightarrow> nat option option" where
  "ListFindNamedItemInsert q nm h = (case q of None \<Rightarrow> Some None
     | Some root \<Rightarrow>
         if \<not> StrValid nm then Some q
         else do {
           R \<leftarrow> h root;
           (if has_flag (NFlags R) (LIST_FLAG_MAP_HEAD OR LIST_FLAG_TIMEOUT) then None
            else do {
              m \<leftarrow> ListConsiderInsertPoint root (Prev R) nm h;
              (if m then Some (Prev R)
               else do {
                 (prv, cur) \<leftarrow> (case (if has_flag (NFlags R) LIST_FLAG_CACHE then Side R else None) of None \<Rightarrow> Some (q, Next R)
                   | Some s \<Rightarrow> do { S \<leftarrow> h s; m \<leftarrow> ListConsiderInsertPoint root (Side R) nm h;
                                  Some (if m then (Prev S, Side R) else (q, Next R)) });
                 FindInsert_loop root nm prv cur h }) }) })"

partial_function (option) Rewind_loop :: "nat \<Rightarrow> cstr \<Rightarrow> nat option \<Rightarrow> heap \<Rightarrow> nat option option" where
  "Rewind_loop base nm node h =
     (case node of None \<Rightarrow> Some None
      | Some p \<Rightarrow> do {
          N \<leftarrow> h p;
          (if Prev N = Some base then Some node
           else do {
             m \<leftarrow> ListConsiderInsertPoint base (Prev N) nm h;
             (if m then Rewind_loop base nm (Prev N) h else Some node) }) })"

text \<open>The comparison of a node with the name, and what is recorded when it is found.\<close>

definition tag_match :: "ListNode \<Rightarrow> cstr \<Rightarrow> ListNode \<Rightarrow> bool" where
  "tag_match H nm N \<longleftrightarrow>
     (if has_flag (NFlags H) LIST_FLAG_DELETE \<and> StrLen nm \<noteq> unat (ItemType N) then False
      else if has_flag (NFlags H) LIST_FLAG_CASE then CompareStr_eq (Tag N) nm
      else CompareStrNoCase_eq (Tag N) nm)"

definition ListHit :: "ListNode \<Rightarrow> int \<Rightarrow> ListNode \<Rightarrow> ListNode" where
  "ListHit H now N = N\<lparr>Stats := map_option (\<lambda>s. s\<lparr>Hits := Hits s + 1,
     Time := (if has_flag (NFlags H) LIST_FLAG_TIMEOUT then Time s else now)\<rparr>) (Stats N)\<rparr>"

text \<open>The type -1 stands for any type.\<close>

partial_function (option) FindTyped_loop :: "nat \<Rightarrow> int \<Rightarrow> cstr \<Rightarrow> int \<Rightarrow> nat option \<Rightarrow> heap \<Rightarrow> (nat option \<times> heap) option" where
  "FindTyped_loop base type nm now node h =
     (case node of None \<Rightarrow> Some (None, h)
      | Some p \<Rightarrow> do {
          N \<leftarrow> h p;
          H \<leftarrow> h base;
          (if tag_match H nm N \<and> (type = -1 \<or> type = uint (ItemType N)) then do {
             h \<leftarrow> (if has_flag (NFlags H) LIST_FLAG_CACHE then upd base (\<lambda>B. B\<lparr>Side := node\<rparr>) h else Some h);
             h \<leftarrow> upd p (ListHit H now) h;
             h \<leftarrow> (if p \<noteq> base \<and> has_flag (NFlags H) LIST_FLAG_SELFORG \<and> \<not> has_flag (NFlags H) LIST_FLAG_ORDERED
                  then ListSwapItems (Prev N) node h else Some h);
             Some (node, h) }
           else if tag_match H nm N \<and> has_flag (NFlags H) LIST_FLAG_UNIQ then Some (None, h)
           else if has_flag (NFlags H) LIST_FLAG_ORDERED then None
           else do { nxt \<leftarrow> ListGetNext node h; FindTyped_loop base type nm now nxt h }) })"

definition ListFindTypedItem :: "int \<Rightarrow> nat option \<Rightarrow> int \<Rightarrow> cstr \<Rightarrow> heap \<Rightarrow> (nat option \<times> heap) option" where
  "ListFindTypedItem now q type nm h = (case q of None \<Rightarrow> Some (None, h)
     | Some _ \<Rightarrow> do {
         r \<leftarrow> ListFindNamedItemInsert q nm h;
         (case r of None \<Rightarrow> Some (None, h)
          | Some n \<Rightarrow> do {
              N \<leftarrow> h n;
              let node = (if r = Head N then Next N else r);
              (if node = None then Some (None, h)
               else (case Head N of None \<Rightarrow> Some (None, h)
                     | Some base \<Rightarrow> do {
                         node \<leftarrow> Rewind_loop base nm node h;
                         FindTyped_loop base type nm now node h })) }) })"

definition ListFindNamedItem :: "int \<Rightarrow> nat option \<Rightarrow> cstr \<Rightarrow> heap \<Rightarrow> (nat option \<times> heap) option" where
  "ListFindNamedItem now q nm h = ListFindTypedItem now q (-1) nm h"

definition ListAddNamedItem :: "nat \<Rightarrow> int \<Rightarrow> nat option \<Rightarrow> cstr \<Rightarrow> nat option \<Rightarrow> heap \<Rightarrow> (nat option \<times> heap) option" where
  "ListAddNamedItem a now q nm item h = ListAddTypedItem a now q 0 nm item h"

text \<open>The nodes whose tag matches.\<close>

definition named :: "heap \<Rightarrow> nat \<Rightarrow> cstr \<Rightarrow> nat \<Rightarrow> bool" where
  "named h base nm p \<longleftrightarrow> tag_match (the (h base)) nm (the (h p))"

definition searchable :: "heap \<Rightarrow> nat \<Rightarrow> bool" where
  "searchable h base \<longleftrightarrow> unlimited h base
     \<and> \<not> has_flag (NFlags (the (h base))) (LIST_FLAG_CACHE OR LIST_FLAG_TIMEOUT)"

lemma strcaseeq_Nil: "strcaseeq [] b \<longleftrightarrow> b = []" "strcaseeq a [] \<longleftrightarrow> a = []"
  by (auto simp: strcaseeq_def)

lemma consider_named:
  assumes "list_at h base ps" "searchable h base" "p \<in> set ps" "StrValid nm"
  shows "ListConsiderInsertPoint base (Some p) nm h = Some (named h base nm p)"
proof -
  obtain N where N: "h p = Some N" using list_at_alloc [OF assms(1), of p] assms(3) by auto
  obtain H where H: "h base = Some H" "\<not> has_flag (NFlags H) LIST_FLAG_ORDERED"
    using assms(2) by (auto simp: searchable_def unlimited_def)
  obtain n where n: "nm = Some n" "n \<noteq> []" using assms(4) by (cases nm) (auto simp: StrValid_def)
  have "p \<noteq> base" using assms(1,3) by (auto simp: list_at_def)
  then show ?thesis using N H n
    by (cases "Tag N") (auto simp: ListConsiderInsertPoint_def named_def tag_match_def CompareStr_eq_chars CompareStrNoCase_eq_chars strcaseeq_Nil)
qed

lemma consider_head: "ListConsiderInsertPoint base (Some base) nm h = Some False" "ListConsiderInsertPoint base None nm h = Some False"
  by (simp_all add: ListConsiderInsertPoint_def)

lemma list_at_node:
  assumes "list_at h base (xs @ p # ys)"
  obtains N where "h p = Some N" "Head N = Some base" "Prev N = Some (last (base # xs))" "Next N = first ys None" "no_map N"
  using assms by (auto simp: list_at_def seg_append)

lemma FindInsert_loop_first:
  assumes "searchable h base" "StrValid nm"
  shows "list_at h base (xs @ ys) \<Longrightarrow> \<forall>p \<in> set xs. \<not> named h base nm p \<Longrightarrow> xs @ ys \<noteq> [] \<Longrightarrow>
    \<exists>us r vs. FindInsert_loop base nm (Some (last (base # xs))) (first ys None) h = Some (Some r)
      \<and> xs @ ys = us @ r # vs \<and> (\<forall>p \<in> set us. \<not> named h base nm p)"
proof (induction ys arbitrary: xs)
  case Nil
  then have "xs @ [] = butlast xs @ last xs # []" by simp
  moreover have "FindInsert_loop base nm (Some (last (base # xs))) (first [] None) h = Some (Some (last xs))"
    using Nil by (subst FindInsert_loop.simps) simp
  ultimately show ?case using Nil by (metis in_set_butlastD)
next
  case (Cons p ys)
  obtain N where N: "h p = Some N" "Head N = Some base" "Next N = first ys None"
    using list_at_node [OF Cons.prems(1)] by metis
  have m: "ListConsiderInsertPoint base (Some p) nm h = Some (named h base nm p)"
    using consider_named [OF Cons.prems(1) assms(1) _ assms(2)] by simp
  show ?case
  proof (cases "named h base nm p")
    case True
    have mem: "last (base # xs) = base \<or> last (base # xs) \<in> set (xs @ p # ys)" by (cases "xs = []") auto
    obtain P where P: "h (last (base # xs)) = Some P" "no_map P" using list_at_alloc [OF Cons.prems(1) mem] by auto
    show ?thesis
    proof (cases "xs = []")
      case True
      with N m P \<open>named h base nm p\<close> show ?thesis
        by (subst FindInsert_loop.simps) (auto intro: exI [of _ "[]"])
    next
      case False
      then have s: "xs @ p # ys = butlast xs @ last xs # p # ys" by simp
      have "last xs \<noteq> base" using Cons.prems(1) False last_in_set by (fastforce simp: list_at_def)
      with N m P True False have "FindInsert_loop base nm (Some (last (base # xs))) (first (p # ys) None) h = Some (Some (last xs))"
        by (subst FindInsert_loop.simps) (auto simp: no_map_def)
      with s Cons.prems(2) show ?thesis by (metis in_set_butlastD)
    qed
  next
    case False
    have "list_at h base ((xs @ [p]) @ ys)" using Cons.prems by simp
    from Cons.IH [OF this] False Cons.prems(2) N m show ?thesis
      by (subst FindInsert_loop.simps) auto
  qed
qed

lemma ListFindNamedItemInsert_point:
  assumes "searchable h base" "StrValid nm" "list_at h base ps" "ps \<noteq> []"
  shows "\<exists>us r vs. ListFindNamedItemInsert (Some base) nm h = Some (Some r) \<and> ps = us @ r # vs
    \<and> ((\<forall>p \<in> set us. \<not> named h base nm p) \<or> named h base nm r)"
proof -
  obtain H where H: "h base = Some H" "Prev H = Some (last ps)" "Next H = first ps None" "no_map H"
    using assms(3,4) by (auto simp: list_at_def head_ok_def)
  have f: "\<not> has_flag (NFlags H) LIST_FLAG_CACHE" "\<not> has_flag (NFlags H) LIST_FLAG_TIMEOUT"
    using assms(1) H(1) by (auto simp: searchable_def has_flag_or)
  have m: "ListConsiderInsertPoint base (Some (last ps)) nm h = Some (named h base nm (last ps))"
    using consider_named [OF assms(3,1) _ assms(2)] assms(4) by simp
  show ?thesis
  proof (cases "named h base nm (last ps)")
    case True
    have "ps = butlast ps @ last ps # []" using assms(4) by simp
    moreover have "ListFindNamedItemInsert (Some base) nm h = Some (Some (last ps))"
      using H f m True assms(2) by (simp add: ListFindNamedItemInsert_def has_flag_or no_map_def)
    ultimately show ?thesis using True by blast
  next
    case False
    have "ListFindNamedItemInsert (Some base) nm h = FindInsert_loop base nm (Some base) (first ps None) h"
      using H f m False assms(2) by (simp add: ListFindNamedItemInsert_def has_flag_or no_map_def)
    with FindInsert_loop_first [OF assms(1,2), of "[]" ps] assms(3,4) show ?thesis by auto
  qed
qed

lemma Rewind_loop_back:
  assumes "searchable h base" "StrValid nm"
  shows "list_at h base (us @ r # vs) \<Longrightarrow>
    \<exists>us' r' vs'. Rewind_loop base nm (Some r) h = Some (Some r') \<and> us @ r # vs = us' @ r' # vs'
      \<and> set us' \<subseteq> set us \<and> r \<in> set (r' # vs')"
proof (induction us arbitrary: r vs rule: rev_induct)
  case Nil
  then obtain N where "h r = Some N" "Prev N = Some base" using list_at_node [of h base "[]" r vs] by auto
  then show ?case by (subst Rewind_loop.simps) force
next
  case (snoc u us)
  obtain N where N: "h r = Some N" "Prev N = Some u" using list_at_node [OF snoc.prems] by auto
  have "u \<noteq> base" using snoc.prems by (auto simp: list_at_def)
  moreover have m: "ListConsiderInsertPoint base (Some u) nm h = Some (named h base nm u)"
    using consider_named [OF snoc.prems assms(1) _ assms(2)] by simp
  moreover have "list_at h base (us @ u # r # vs)" using snoc.prems by simp
  from snoc.IH [OF this] obtain us' r' vs' where ih: "Rewind_loop base nm (Some u) h = Some (Some r')"
    "us @ u # r # vs = us' @ r' # vs'" "set us' \<subseteq> set us" "u \<in> set (r' # vs')" by blast
  have d: "distinct (us @ u # r # vs)" using snoc.prems by (simp add: list_at_def)
  have r: "r \<in> set (r' # vs')"
  proof (rule ccontr)
    assume "r \<notin> set (r' # vs')"
    moreover have "r \<in> set (us' @ r' # vs')" by (simp flip: ih(2))
    ultimately have "r \<in> set us" using ih(3) by auto
    with d show False by auto
  qed
  show ?case
  proof (cases "named h base nm u")
    case True
    with N m \<open>u \<noteq> base\<close> have "Rewind_loop base nm (Some r) h = Some (Some r')"
      by (subst Rewind_loop.simps) (simp add: ih(1))
    moreover have "set us' \<subseteq> set (us @ [u])" "(us @ [u]) @ r # vs = us' @ r' # vs'" using ih(2,3) by auto
    ultimately show ?thesis using r by blast
  next
    case False
    with N m \<open>u \<noteq> base\<close> have "Rewind_loop base nm (Some r) h = Some (Some r)"
      by (subst Rewind_loop.simps) simp
    then show ?thesis by (intro exI [of _ "us @ [u]"] exI [of _ r] exI [of _ vs]) simp
  qed
qed

lemma ListHit_same [simp]:
  "Head (ListHit H now N) = Head N" "Prev (ListHit H now N) = Prev N" "Next (ListHit H now N) = Next N"
  "NFlags (ListHit H now N) = NFlags N" "Item (ListHit H now N) = Item N" "Tag (ListHit H now N) = Tag N"
  by (simp_all add: ListHit_def)

definition found_in :: "heap \<Rightarrow> nat \<Rightarrow> cstr \<Rightarrow> nat list \<Rightarrow> nat option \<Rightarrow> bool" where
  "found_in h base nm ws q \<longleftrightarrow> (case q of None \<Rightarrow> \<forall>p \<in> set ws. \<not> named h base nm p | Some p \<Rightarrow> p \<in> set ws \<and> named h base nm p)"

text \<open>What a lookup leaves behind: the node that was found has been counted.\<close>

definition hit_at :: "nat option \<Rightarrow> nat \<Rightarrow> int \<Rightarrow> heap \<Rightarrow> heap" where
  "hit_at q base now h = (case q of None \<Rightarrow> h | Some p \<Rightarrow> h(p \<mapsto> ListHit (the (h base)) now (the (h p))))"

text \<open>A search by type, where all nodes are of that type.\<close>

definition typed :: "int \<Rightarrow> heap \<Rightarrow> nat list \<Rightarrow> bool" where
  "typed ty h ps \<longleftrightarrow> ty = -1 \<or> (\<forall>p \<in> set ps. uint (ItemType (the (h p))) = ty)"

lemma hit_at_list:
  assumes "list_at h base ps" "q = None \<or> (\<exists>p \<in> set ps. q = Some p)"
  shows "list_at (hit_at q base now h) base ps" "items (hit_at q base now h) ps = items h ps"
proof -
  have "list_at (hit_at q base now h) base ps \<and> items (hit_at q base now h) ps = items h ps"
  proof (cases q)
    case None
    then show ?thesis using assms by (simp add: hit_at_def)
  next
    case (Some p)
    then have p: "p \<in> set ps" using assms(2) by simp
    obtain N where N: "h p = Some N" using list_at_alloc [OF assms(1)] p by blast
    have "p \<noteq> base" using assms(1) p by (auto simp: list_at_def)
    then have "list_at (h(p \<mapsto> ListHit (the (h base)) now N)) base ps"
      using list_at_same [OF assms(1) N] by simp
    then show ?thesis using Some N by (simp add: hit_at_def items_def)
  qed
  then show "list_at (hit_at q base now h) base ps" "items (hit_at q base now h) ps = items h ps" by simp_all
qed

lemma FindTyped_loop_find:
  assumes "searchable h base"
  shows "list_at h base (us @ ws) \<Longrightarrow> typed ty h ws \<Longrightarrow>
    \<exists>q. FindTyped_loop base ty nm now (first ws None) h = Some (q, hit_at q base now h) \<and> found_in h base nm ws q"
proof (induction ws arbitrary: us)
  case Nil
  then show ?case by (subst FindTyped_loop.simps) (simp add: found_in_def hit_at_def)
next
  case (Cons p ws)
  obtain N where N: "h p = Some N" "Next N = first ws None" using list_at_node [OF Cons.prems(1)] by metis
  obtain H where H: "h base = Some H" "\<not> has_flag (NFlags H) LIST_FLAG_ORDERED" "\<not> has_flag (NFlags H) LIST_FLAG_SELFORG"
    "\<not> has_flag (NFlags H) LIST_FLAG_CACHE"
    using assms by (auto simp: searchable_def unlimited_def has_flag_or)
  have m: "tag_match H nm N = named h base nm p" using N H by (simp add: named_def)
  have ty: "ty = -1 \<or> ty = uint (ItemType N)" using Cons.prems(2) N by (auto simp: typed_def)
  show ?case
  proof (cases "named h base nm p")
    case True
    then have "FindTyped_loop base ty nm now (first (p # ws) None) h = Some (Some p, hit_at (Some p) base now h)"
      using N H m ty by (subst FindTyped_loop.simps) (simp add: hit_at_def)
    then show ?thesis using True by (auto simp: found_in_def)
  next
    case False
    have l: "list_at h base ((us @ [p]) @ ws)" using Cons.prems by simp
    have "ListGetNext (Some p) h = Some (first ws None)" using ListGetNext_next [OF l] by simp
    then have "FindTyped_loop base ty nm now (first (p # ws) None) h = FindTyped_loop base ty nm now (first ws None) h"
      using N H m False by (subst FindTyped_loop.simps) simp
    moreover have "found_in h base nm (p # ws) q" if "found_in h base nm ws q" for q
      using that False by (cases q) (simp_all add: found_in_def)
    moreover have "typed ty h ws" using Cons.prems(2) by (auto simp: typed_def)
    ultimately show ?thesis using Cons.IH [OF l] by metis
  qed
qed

lemma ListFindTypedItem_found:
  assumes "list_at h base ps" "searchable h base" "typed ty h ps"
  shows "\<exists>q. ListFindTypedItem now (Some base) ty nm h = Some (q, hit_at q base now h) \<and> found_in h base nm ps q"
proof (cases ps)
  case Nil
  obtain H where H: "h base = Some H" "Head H = Some base" "Next H = None" "no_map H" "Prev H = None \<or> Prev H = Some base"
    using assms(1) Nil by (auto simp: list_at_def head_ok_def)
  have f: "\<not> has_flag (NFlags H) LIST_FLAG_CACHE" "\<not> has_flag (NFlags H) LIST_FLAG_TIMEOUT"
    using assms(2) H(1) by (auto simp: searchable_def has_flag_or)
  have "ListFindNamedItemInsert (Some base) nm h = Some (Some base)"
    using H f consider_head FindInsert_loop.simps [of base nm "Some base" None h]
    by (auto simp: ListFindNamedItemInsert_def has_flag_or no_map_def)
  with H Nil show ?thesis by (simp add: ListFindTypedItem_def found_in_def hit_at_def)
next
  case (Cons p0 ps')
  have *: "\<exists>us r vs. ListFindTypedItem now (Some base) ty nm h = FindTyped_loop base ty nm now (Some r) h
    \<and> ps = us @ r # vs \<and> ((\<forall>p \<in> set us. \<not> named h base nm p) \<or> (\<exists>p \<in> set (r # vs). named h base nm p))"
  proof (cases "StrValid nm")
    case True
    then obtain us r vs where 1: "ListFindNamedItemInsert (Some base) nm h = Some (Some r)" "ps = us @ r # vs"
      "(\<forall>p \<in> set us. \<not> named h base nm p) \<or> named h base nm r"
      using ListFindNamedItemInsert_point [OF assms(2) True assms(1)] Cons by blast
    have l: "list_at h base (us @ r # vs)" using assms(1) 1 by simp
    obtain us' r' vs' where 2: "Rewind_loop base nm (Some r) h = Some (Some r')" "us @ r # vs = us' @ r' # vs'"
      "set us' \<subseteq> set us" "r \<in> set (r' # vs')" using Rewind_loop_back [OF assms(2) True l] by blast
    obtain N where "h r = Some N" "Head N = Some base" using list_at_node [OF l] by metis
    moreover have "r \<noteq> base" using l by (auto simp: list_at_def)
    ultimately have "ListFindTypedItem now (Some base) ty nm h = FindTyped_loop base ty nm now (Some r') h"
      using 1(1) 2(1) by (simp add: ListFindTypedItem_def)
    with 1 2 show ?thesis by (intro exI [of _ us'] exI [of _ r'] exI [of _ vs']) auto
  next
    case False
    obtain H where H: "h base = Some H" "Head H = Some base" "Next H = Some p0"
      using assms(1) Cons by (auto simp: list_at_def head_ok_def)
    obtain N where "h p0 = Some N" "Prev N = Some base" using list_at_node [of h base "[]" p0 ps'] assms(1) Cons by auto
    then have "Rewind_loop base nm (Some p0) h = Some (Some p0)" by (subst Rewind_loop.simps) simp
    then have "ListFindTypedItem now (Some base) ty nm h = FindTyped_loop base ty nm now (Some p0) h"
      using H False by (simp add: ListFindTypedItem_def ListFindNamedItemInsert_def)
    with Cons show ?thesis by (intro exI [of _ "[]"] exI [of _ p0] exI [of _ ps']) simp
  qed
  then obtain us r vs where r: "ListFindTypedItem now (Some base) ty nm h = FindTyped_loop base ty nm now (Some r) h" "ps = us @ r # vs"
    "(\<forall>p \<in> set us. \<not> named h base nm p) \<or> (\<exists>p \<in> set (r # vs). named h base nm p)" by blast
  have l: "list_at h base (us @ r # vs)" using assms(1) r(2) by simp
  have "typed ty h (r # vs)" using assms(3) r(2) by (auto simp: typed_def)
  from FindTyped_loop_find [OF assms(2) l this, of nm now] obtain q where
    "FindTyped_loop base ty nm now (Some r) h = Some (q, hit_at q base now h)" "found_in h base nm (r # vs) q" by auto
  moreover from this(2) r(3) have "found_in h base nm (us @ r # vs) q"
    by (auto simp: found_in_def split: option.splits)
  ultimately show ?thesis using r by auto
qed

lemma ListFindNamedItem_found:
  assumes "list_at h base ps" "searchable h base"
  shows "\<exists>q h'. ListFindNamedItem now (Some base) nm h = Some (q, h') \<and> list_at h' base ps
    \<and> items h' ps = items h ps \<and> found_in h base nm ps q"
proof -
  have "typed (-1) h ps" by (simp add: typed_def)
  from ListFindTypedItem_found [OF assms this, of now nm] obtain q where
    q: "ListFindNamedItem now (Some base) nm h = Some (q, hit_at q base now h)" "found_in h base nm ps q"
    by (auto simp: ListFindNamedItem_def)
  have "q = None \<or> (\<exists>p \<in> set ps. q = Some p)" using q(2) by (cases q) (auto simp: found_in_def)
  from hit_at_list [OF assms(1) this, of now] q show ?thesis by blast
qed

text \<open>
  C9. Looking up a name in a linked list that compares without regard to case implements \<open>ListHasItem\<close>, the
  lookup in a sequence that the model of \<open>net.c\<close> uses: a node is found exactly if some tag equals the name, it is one
  of those, and the list is as before.
\<close>

theorem ListFindNamedItem_refines:
  assumes "list_at h base ps" "searchable h base"
    "\<not> has_flag (NFlags (the (h base))) LIST_FLAG_CASE" "\<not> has_flag (NFlags (the (h base))) LIST_FLAG_DELETE"
    "map (\<lambda>p. Tag (the (h p))) ps = map (\<lambda>(t, _). if t = [] then None else Some t) Devs"
  shows "\<exists>q h'. ListFindNamedItem now (Some base) Iface h = Some (q, h') \<and> (q \<noteq> None \<longleftrightarrow> ListHasItem Devs Iface)
    \<and> (\<forall>p. q = Some p \<longrightarrow> p \<in> set ps \<and> CompareStrNoCase_eq (Tag (the (h p))) Iface)
    \<and> list_at h' base ps \<and> items h' ps = items h ps"
proof -
  have named: "named h base Iface p \<longleftrightarrow> CompareStrNoCase_eq (Tag (the (h p))) Iface" for p
    using assms(3,4) by (simp add: named_def tag_match_def)
  let ?tag = "\<lambda>(t, _). if t = [] then None else Some t"
  have "ListHasItem Devs Iface \<longleftrightarrow> (\<exists>t \<in> set (map ?tag Devs). CompareStrNoCase_eq t Iface)"
    unfolding ListHasItem_def list_ex_iff set_map by (simp only: bex_simps case_prod_unfold)
  also have "\<dots> \<longleftrightarrow> (\<exists>p \<in> set ps. named h base Iface p)"
    unfolding assms(5) [symmetric] set_map by (simp only: bex_simps named)
  finally have has: "ListHasItem Devs Iface \<longleftrightarrow> (\<exists>p \<in> set ps. named h base Iface p)" .
  obtain q h' where "ListFindNamedItem now (Some base) Iface h = Some (q, h')" "list_at h' base ps"
    "items h' ps = items h ps" "found_in h base Iface ps q" using ListFindNamedItem_found [OF assms(1,2)] by blast
  then show ?thesis by (cases q) (auto simp: has found_in_def named)
qed

definition two_named :: heap where
  "two_named = [0 \<mapsto> node_zero\<lparr>Next := Some 1, Prev := Some 2, Head := Some 0, Stats := Some (stats_zero\<lparr>Hits := 2\<rparr>)\<rparr>,
     1 \<mapsto> node_zero\<lparr>Next := Some 2, Prev := Some 0, Head := Some 0, Tag := Some ''lo''\<rparr>,
     2 \<mapsto> node_zero\<lparr>Prev := Some 1, Head := Some 0, Tag := Some ''tun0''\<rparr>]"

lemma two_named_list: "list_at two_named 0 [1, 2]" "searchable two_named 0"
  by (simp_all add: two_named_def list_at_def head_ok_def no_map_def searchable_def unlimited_def node_zero_def stats_zero_def has_flag_def)

theorem ListFindNamedItem_refines_witness:
  "\<exists>h'. ListFindNamedItem 0 (Some 0) (Some ''TUN0'') two_named = Some (Some 2, h') \<and> list_at h' 0 [1, 2]"
proof -
  have c: "\<not> has_flag (NFlags (the (two_named 0))) LIST_FLAG_CASE" "\<not> has_flag (NFlags (the (two_named 0))) LIST_FLAG_DELETE"
    "map (\<lambda>p. Tag (the (two_named p))) [1, 2] = map (\<lambda>(t, _). if t = [] then None else Some t) [(''lo'', []), (''tun0'', [])]"
    by (simp_all add: two_named_def node_zero_def has_flag_def)
  have "ListHasItem [(''lo'', []), (''tun0'', [])] (Some ''TUN0'')" by code_simp
  moreover have "\<not> CompareStrNoCase_eq (Tag (the (two_named 1))) (Some ''TUN0'')" by code_simp
  ultimately show ?thesis using ListFindNamedItem_refines [OF two_named_list c, of 0 "Some ''TUN0''"] by auto
qed

end
