(* ===== verification/Vars.thy ===== *)
theory Vars
  imports NamedLists
begin

text \<open>
  \<open>Vars.c\<close>: variables as the items of a linked list.  The values are strings in a store of their own,
  \<open>strings\<close>, and the item of a node is the address of its value.  The theory \<open>World\<close> models such lists as
  sequences of names and values (\<open>var_lookup\<close>, \<open>var_update\<close>), which is shown to be what the code computes.
\<close>

section \<open>Operations\<close>

type_synonym strings = "nat \<Rightarrow> string option"

text \<open>\<open>CopyStr\<close> into an item: \<open>a\<close> is where \<open>realloc\<close> puts the string.\<close>

definition CopyItem :: "nat \<Rightarrow> nat option \<Rightarrow> cstr \<Rightarrow> strings \<Rightarrow> strings" where
  "CopyItem a old data sm = (case old of None \<Rightarrow> sm | Some p \<Rightarrow> sm(p := None))(a \<mapsto> chars data)"

definition FreeItem :: "nat option \<Rightarrow> strings \<Rightarrow> strings" where
  "FreeItem old sm = (case old of None \<Rightarrow> sm | Some p \<Rightarrow> sm(p := None))"

definition ListNodeSetTime :: "nat \<Rightarrow> int \<Rightarrow> heap \<Rightarrow> heap option" where
  "ListNodeSetTime p t h =
     upd p (\<lambda>N. N\<lparr>Stats := Some ((case Stats N of None \<Rightarrow> stats_zero | Some s \<Rightarrow> s)\<lparr>Time := t\<rparr>)\<rparr>) h"

text \<open>\<open>b\<close> is the address of a node that is added, \<open>a\<close> that of the copy of the data.\<close>

definition SetDetailVar :: "nat \<Rightarrow> nat \<Rightarrow> int \<Rightarrow> nat option \<Rightarrow> cstr \<Rightarrow> cstr \<Rightarrow> int \<Rightarrow> int \<Rightarrow> heap \<Rightarrow> strings
    \<Rightarrow> (nat option \<times> heap \<times> strings) option" where
  "SetDetailVar b a now q nm data type time h sm = (case q of None \<Rightarrow> Some (None, h, sm)
     | Some p \<Rightarrow> do {
         L \<leftarrow> h p;
         (node, h) \<leftarrow> (if \<not> has_flag (NFlags L) LIST_FLAG_UNIQ then ListFindTypedItem now q type nm h else Some (None, h));
         (node, h, sm) \<leftarrow> (case node of
             Some n \<Rightarrow> do { N \<leftarrow> h n; h \<leftarrow> upd n (\<lambda>N. N\<lparr>Item := Some a\<rparr>) h; Some (node, h, CopyItem a (Item N) data sm) }
           | None \<Rightarrow> do { (node, h) \<leftarrow> ListAddTypedItem b now q (of_int type) nm (Some a) h; Some (node, h, CopyItem a None data sm) });
         (if time \<noteq> 0 then do { n \<leftarrow> node; h \<leftarrow> ListNodeSetTime n time h; Some (node, h, sm) } else Some (node, h, sm)) })"

definition SetTypedVar :: "nat \<Rightarrow> nat \<Rightarrow> int \<Rightarrow> nat option \<Rightarrow> cstr \<Rightarrow> cstr \<Rightarrow> int \<Rightarrow> heap \<Rightarrow> strings
    \<Rightarrow> (nat option \<times> heap \<times> strings) option" where
  "SetTypedVar b a now q nm data type h sm = SetDetailVar b a now q nm data type 0 h sm"

definition SetVar_in :: "nat \<Rightarrow> nat \<Rightarrow> int \<Rightarrow> nat option \<Rightarrow> cstr \<Rightarrow> cstr \<Rightarrow> heap \<Rightarrow> strings
    \<Rightarrow> (nat option \<times> heap \<times> strings) option" where
  "SetVar_in b a now q nm data h sm = SetDetailVar b a now q nm data 0 0 h sm"

text \<open>Lists whose variables expire are outside the model.\<close>

definition FindTypedVar :: "int \<Rightarrow> nat option \<Rightarrow> cstr \<Rightarrow> int \<Rightarrow> heap \<Rightarrow> (nat option \<times> heap) option" where
  "FindTypedVar now q nm type h =
     do { (node, h) \<leftarrow> ListFindTypedItem now q type nm h;
          (if node = None then Some (None, h)
           else do { p \<leftarrow> q; L \<leftarrow> h p; (if has_flag (NFlags L) LIST_FLAG_TIMEOUT then None else Some (node, h)) }) }"

definition GetTypedVar :: "int \<Rightarrow> nat option \<Rightarrow> cstr \<Rightarrow> int \<Rightarrow> heap \<Rightarrow> strings \<Rightarrow> (cstr \<times> heap) option" where
  "GetTypedVar now q nm type h sm =
     do { (node, h) \<leftarrow> FindTypedVar now q nm type h;
          (case node of None \<Rightarrow> Some (Some [], h)
           | Some n \<Rightarrow> do { N \<leftarrow> h n;
               (case Item N of None \<Rightarrow> Some (None, h) | Some a \<Rightarrow> do { v \<leftarrow> sm a; Some (Some v, h) }) }) }"

definition GetVar_in :: "int \<Rightarrow> nat option \<Rightarrow> cstr \<Rightarrow> heap \<Rightarrow> strings \<Rightarrow> (cstr \<times> heap) option" where
  "GetVar_in now q nm h sm = GetTypedVar now q nm (-1) h sm"

definition AppendVar :: "nat \<Rightarrow> nat \<Rightarrow> int \<Rightarrow> nat option \<Rightarrow> cstr \<Rightarrow> cstr \<Rightarrow> heap \<Rightarrow> strings
    \<Rightarrow> (nat option \<times> heap \<times> strings) option" where
  "AppendVar b a now q nm data h sm =
     do { (v, h) \<leftarrow> GetVar_in now q nm h sm;
          SetVar_in b a now q nm (MCopyStr None [v, data, Some '' '']) h sm }"

definition UnsetTypedVar :: "int \<Rightarrow> nat option \<Rightarrow> cstr \<Rightarrow> int \<Rightarrow> heap \<Rightarrow> strings \<Rightarrow> (heap \<times> strings) option" where
  "UnsetTypedVar now q nm type h sm =
     (if q = None then Some (h, sm)
      else do { (node, h) \<leftarrow> FindTypedVar now q nm type h;
                (case node of None \<Rightarrow> Some (h, sm)
                 | Some n \<Rightarrow> do { N \<leftarrow> h n; (_, h) \<leftarrow> ListDeleteNode node h; Some (h, FreeItem (Item N) sm) }) })"

partial_function (option) ClearVars_loop :: "nat option \<Rightarrow> heap \<Rightarrow> strings \<Rightarrow> (heap \<times> strings) option" where
  "ClearVars_loop cur h sm = (case cur of None \<Rightarrow> Some (h, sm)
     | Some p \<Rightarrow> do {
         N \<leftarrow> h p;
         let sm = FreeItem (Item N) sm;
         (_, h) \<leftarrow> ListDeleteNode cur h;
         nxt \<leftarrow> ListGetNext cur h;
         ClearVars_loop nxt h sm })"

definition ClearVars :: "nat option \<Rightarrow> heap \<Rightarrow> strings \<Rightarrow> (heap \<times> strings) option" where
  "ClearVars q h sm = (if q = None then Some (h, sm) else do { cur \<leftarrow> ListGetNext q h; ClearVars_loop cur h sm })"

section \<open>Sequences of variables\<close>

definition same_names :: "(string \<times> string) \<Rightarrow> (string \<times> string) \<Rightarrow> bool" where
  "same_names x y \<longleftrightarrow> strcaseeq (fst x) (fst y)"

definition names_differ :: "(string \<times> string) list \<Rightarrow> bool" where
  "names_differ vs \<longleftrightarrow> sorted_wrt (\<lambda>x y. \<not> same_names x y) vs"

lemma var_hit:
  "names_differ vs \<Longrightarrow> i < length vs \<Longrightarrow> strcaseeq (fst (vs ! i)) k \<Longrightarrow>
   var_update vs k v = vs[i := (fst (vs ! i), v)] \<and> var_lookup vs k = Some (snd (vs ! i))"
proof (induction vs arbitrary: i)
  case (Cons x vs)
  obtain n u where x: "x = (n, u)" by (cases x)
  show ?case
  proof (cases i)
    case 0
    with Cons.prems x show ?thesis by simp
  next
    case (Suc j)
    then have j: "j < length vs" "strcaseeq (fst (vs ! j)) k" using Cons.prems by simp_all
    have "\<not> strcaseeq n (fst (vs ! j))" using Cons.prems(1) j(1) x by (auto simp: names_differ_def same_names_def)
    then have "\<not> strcaseeq n k" using j(2) strcaseeq_trans strcaseeq_sym by metis
    moreover have "names_differ vs" using Cons.prems(1) by (simp add: names_differ_def)
    ultimately show ?thesis using Cons.IH [OF _ j] x Suc by simp
  qed
qed simp

lemma var_miss:
  "\<forall>x \<in> set vs. \<not> strcaseeq (fst x) k \<Longrightarrow> var_update vs k v = vs @ [(k, v)] \<and> var_lookup vs k = None"
  by (induction vs) auto

lemma names_differ_update: "names_differ vs \<Longrightarrow> i < length vs \<Longrightarrow> names_differ (vs[i := (fst (vs ! i), v)])"
  unfolding names_differ_def sorted_wrt_iff_nth_less same_names_def by (auto simp: nth_list_update)

lemma names_differ_append:
  "names_differ vs \<Longrightarrow> \<forall>x \<in> set vs. \<not> strcaseeq (fst x) k \<Longrightarrow> names_differ (vs @ [(k, v)])"
  by (auto simp: names_differ_def sorted_wrt_append same_names_def)

section \<open>Variables of a list\<close>

definition var_node :: "heap \<Rightarrow> strings \<Rightarrow> nat \<Rightarrow> string \<times> string \<Rightarrow> bool" where
  "var_node h sm p x \<longleftrightarrow> (\<exists>N a. h p = Some N \<and> Tag N = Some (fst x) \<and> fst x \<noteq> [] \<and> ItemType N = 0
     \<and> Item N = Some a \<and> sm a = Some (snd x))"

definition plain_head :: "heap \<Rightarrow> nat \<Rightarrow> bool" where
  "plain_head h base \<longleftrightarrow> searchable h base
     \<and> \<not> has_flag (NFlags (the (h base))) (LIST_FLAG_CASE OR LIST_FLAG_DELETE OR LIST_FLAG_UNIQ)"

definition vars_at :: "heap \<Rightarrow> strings \<Rightarrow> nat \<Rightarrow> nat list \<Rightarrow> (string \<times> string) list \<Rightarrow> bool" where
  "vars_at h sm base ps vs \<longleftrightarrow> list_at h base ps \<and> plain_head h base \<and> list_all2 (var_node h sm) ps vs
     \<and> distinct (items h ps) \<and> names_differ vs"

lemma vars_at_named:
  assumes "vars_at h sm base ps vs" "i < length ps"
  shows "named h base (Some k) (ps ! i) \<longleftrightarrow> strcaseeq (fst (vs ! i)) k"
proof -
  obtain N where "h (ps ! i) = Some N" "Tag N = Some (fst (vs ! i))"
    using assms by (auto simp: vars_at_def list_all2_conv_all_nth var_node_def)
  with assms(1) show ?thesis
    by (simp add: vars_at_def plain_head_def named_def tag_match_def has_flag_or CompareStrNoCase_eq_chars chars_def)
qed

lemma vars_at_typed: "vars_at h sm base ps vs \<Longrightarrow> typed 0 h ps"
  by (fastforce simp: vars_at_def typed_def list_all2_conv_all_nth var_node_def in_set_conv_nth)

lemma vars_at_found [consumes 2, case_names none some]:
  assumes "vars_at h sm base ps vs" "found_in h base (Some k) ps q"
  obtains "q = None" "\<forall>x \<in> set vs. \<not> strcaseeq (fst x) k"
  | i where "q = Some (ps ! i)" "i < length ps" "strcaseeq (fst (vs ! i)) k"
proof (cases q)
  case None
  have len: "length ps = length vs" using assms(1) by (auto simp: vars_at_def dest: list_all2_lengthD)
  have "\<not> strcaseeq (fst x) k" if x: "x \<in> set vs" for x
  proof -
    obtain i where i: "i < length ps" "vs ! i = x" using x len by (metis in_set_conv_nth)
    have "\<not> named h base (Some k) (ps ! i)" using assms(2) None i(1) by (simp add: found_in_def)
    then show ?thesis using vars_at_named [OF assms(1) i(1)] i(2) by simp
  qed
  then show thesis using that(1) None by blast
next
  case (Some p)
  then obtain i where "i < length ps" "ps ! i = p" using assms(2) by (auto simp: found_in_def in_set_conv_nth)
  then show thesis using that(2) [of i] vars_at_named [OF assms(1), of i k] assms(2) Some by (auto simp: found_in_def)
qed

lemma plain_head_other: "p \<noteq> base \<Longrightarrow> plain_head (h(p := X)) base = plain_head h base"
  by (simp add: plain_head_def searchable_def unlimited_def)

lemma vars_at_index:
  assumes "vars_at h sm base ps vs" "i < length ps"
  obtains N a where "h (ps ! i) = Some N" "Tag N = Some (fst (vs ! i))" "fst (vs ! i) \<noteq> []" "ItemType N = 0"
    "Item N = Some a" "sm a = Some (snd (vs ! i))" "ps ! i \<noteq> base" "i < length vs"
proof -
  have "ps ! i \<in> set ps" using assms(2) by simp
  then have "ps ! i \<noteq> base" using assms(1) by (auto simp: vars_at_def list_at_def)
  with assms that show thesis by (auto simp: vars_at_def list_all2_conv_all_nth var_node_def)
qed

lemma vars_at_hit:
  assumes "vars_at h sm base ps vs" "i < length ps"
  shows "vars_at (hit_at (Some (ps ! i)) base now h) sm base ps vs"
proof -
  obtain N where N: "h (ps ! i) = Some N" "ps ! i \<noteq> base" using vars_at_index [OF assms] by metis
  have mem: "Some (ps ! i) = None \<or> (\<exists>p \<in> set ps. Some (ps ! i) = Some p)" using assms(2) by simp
  let ?h = "hit_at (Some (ps ! i)) base now h"
  have l: "list_at h base ps" using assms(1) by (simp add: vars_at_def)
  have same: "var_node ?h sm p x = var_node h sm p x" for p x
    using N(1) by (auto simp: var_node_def hit_at_def ListHit_def)
  have "plain_head ?h base = plain_head h base" unfolding hit_at_def option.case using plain_head_other [OF N(2)] .
  then show ?thesis
    using assms(1) hit_at_list [OF l mem, of now] unfolding vars_at_def same by simp
qed

lemma vars_at_replace:
  assumes "vars_at h sm base ps vs" "i < length ps" "h (ps ! i) = Some N" "sm a = None \<or> Item N = Some a"
  shows "vars_at (h(ps ! i \<mapsto> N\<lparr>Item := Some a\<rparr>)) (CopyItem a (Item N) data sm) base ps (vs[i := (fst (vs ! i), chars data)])"
proof -
  let ?h = "h(ps ! i \<mapsto> N\<lparr>Item := Some a\<rparr>)" and ?sm = "CopyItem a (Item N) data sm" and ?x = "(fst (vs ! i), chars data)"
  obtain N' old where N: "h (ps ! i) = Some N'" "Tag N' = Some (fst (vs ! i))" "fst (vs ! i) \<noteq> []" "ItemType N' = 0"
    "Item N' = Some old" "sm old = Some (snd (vs ! i))" "ps ! i \<noteq> base" "i < length vs"
    using vars_at_index [OF assms(1,2)] .
  then have [simp]: "N' = N" using assms(3) by simp
  have l: "list_at h base ps" and len: "length ps = length vs"
    using assms(1) by (auto simp: vars_at_def dest: list_all2_lengthD)
  have d: "distinct ps" using l by (simp add: list_at_def)
  have other: "ps ! j \<noteq> ps ! i" if "j < length ps" "j \<noteq> i" for j using d that assms(2) by (simp add: nth_eq_iff_index_eq)
  have item: "\<exists>M c. h (ps ! j) = Some M \<and> Item M = Some c \<and> c \<noteq> a \<and> c \<noteq> old \<and> sm c = Some (snd (vs ! j))"
    if j: "j < length ps" "j \<noteq> i" for j
  proof -
    obtain M c where M: "h (ps ! j) = Some M" "Item M = Some c" "sm c = Some (snd (vs ! j))"
      using vars_at_index [OF assms(1) j(1)] by metis
    have "items h ps ! j \<noteq> items h ps ! i"
      using assms(1,2) j nth_eq_iff_index_eq [of "items h ps" j i] by (simp add: vars_at_def items_def del: nth_map)
    then have "c \<noteq> old" using M N(1,5) j(1) assms(2) by (simp add: items_def)
    moreover have "c \<noteq> a" using assms(4) M(3) N(5) \<open>c \<noteq> old\<close> by auto
    ultimately show ?thesis using M by blast
  qed
  have nodes: "list_all2 (var_node ?h ?sm) ps (vs[i := ?x])"
    unfolding list_all2_conv_all_nth
  proof (intro conjI allI impI)
    fix j assume j: "j < length ps"
    show "var_node ?h ?sm (ps ! j) (vs[i := ?x] ! j)"
    proof (cases "j = i")
      case True
      then show ?thesis using N by (simp add: var_node_def CopyItem_def)
    next
      case False
      obtain M c where "h (ps ! j) = Some M" "Tag M = Some (fst (vs ! j))" "fst (vs ! j) \<noteq> []" "ItemType M = 0" "Item M = Some c"
        using vars_at_index [OF assms(1) j] by metis
      with item [OF j False] other [OF j False] False N(5) show ?thesis by (auto simp: var_node_def CopyItem_def)
    qed
  qed (use len in simp)
  have "items ?h ps = (items h ps)[i := Some a]"
    using other assms(2) by (intro nth_equalityI) (auto simp: items_def nth_list_update)
  moreover have "Some a \<notin> set (items h ps) - {items h ps ! i}"
  proof
    assume "Some a \<in> set (items h ps) - {items h ps ! i}"
    then obtain j where "j < length (items h ps)" "items h ps ! j = Some a" "items h ps ! j \<noteq> items h ps ! i"
      by (auto simp only: in_set_conv_nth Diff_iff singleton_iff)
    then have "j < length ps" "items h ps ! j = Some a" "j \<noteq> i" by (auto simp: items_def)
    then show False using item [of j] by (auto simp: items_def)
  qed
  ultimately have "distinct (items ?h ps)" using assms(1) by (simp add: vars_at_def distinct_list_update)
  moreover have "list_at ?h base ps" using list_at_same [OF l assms(3) N(7)] by simp
  moreover have "plain_head ?h base" using assms(1) plain_head_other [OF N(7)] by (simp add: vars_at_def)
  moreover have "names_differ (vs[i := ?x])" using names_differ_update assms(1,2) len by (simp add: vars_at_def)
  ultimately show ?thesis using nodes by (simp add: vars_at_def)
qed

lemma kept_node:
  assumes "map_option kept (h' p) = map_option kept (h p)" "h p = Some N"
  obtains N' where "h' p = Some N'" "Item N' = Item N" "Tag N' = Tag N" "ItemType N' = ItemType N" "NFlags N' = NFlags N"
  using assms by (cases "h' p") (auto simp: kept_def)

lemma vars_at_append:
  assumes "vars_at h sm base ps vs" "h b = None" "sm a = None" "k \<noteq> []" "\<forall>x \<in> set vs. \<not> strcaseeq (fst x) k"
  obtains h' where "ListAddTypedItem b now (Some base) 0 (Some k) (Some a) h = Some (Some b, h')"
    "vars_at h' (CopyItem a None data sm) base (ps @ [b]) (vs @ [(k, chars data)])"
proof -
  have l: "list_at h base ps" "unlimited h base" "\<not> has_flag (NFlags (the (h base))) LIST_FLAG_DELETE"
    using assms(1) by (auto simp: vars_at_def plain_head_def searchable_def has_flag_or)
  obtain h' A where h': "ListAddTypedItem b now (Some base) 0 (Some k) (Some a) h = Some (Some b, h')"
    "list_at h' base (ps @ [b])" "unlimited h' base" "items h' (ps @ [b]) = items h ps @ [Some a]"
    "\<forall>p. p \<noteq> b \<longrightarrow> map_option kept (h' p) = map_option kept (h p)"
    "h' b = Some A" "Item A = Some a" "Tag A = Some k" "ItemType A = 0"
    using ListAddTypedItem_append [OF l(1,2) assms(2), of now 0 "Some k" "Some a"] l(3) assms(4)
    by (auto simp: StrValid_def CopyStr_def CatStr_def CatStrLen_def chars_def StrLen_def)
  have b: "b \<notin> set ps" "b \<noteq> base" using h'(2) by (auto simp: list_at_def)
  have "plain_head h' base"
  proof -
    obtain H where H: "h base = Some H" using l(2) by (auto simp: unlimited_def)
    obtain H' where "h' base = Some H'" "NFlags H' = NFlags H" using kept_node [where h = h and h' = h' and p = base, OF _ H] h'(5) b(2) by metis
    then show ?thesis using assms(1) H h'(3) by (simp add: vars_at_def plain_head_def searchable_def)
  qed
  moreover have "list_all2 (var_node h' (CopyItem a None data sm)) (ps @ [b]) (vs @ [(k, chars data)])"
  proof -
    have "var_node h' (CopyItem a None data sm) p x" if "p \<in> set ps" "var_node h sm p x" for p x
    proof -
      obtain N c where N: "h p = Some N" "Tag N = Some (fst x)" "fst x \<noteq> []" "ItemType N = 0" "Item N = Some c" "sm c = Some (snd x)"
        using \<open>var_node h sm p x\<close> by (auto simp: var_node_def)
      moreover have "p \<noteq> b" using that(1) b(1) by auto
      then obtain N' where "h' p = Some N'" "Item N' = Item N" "Tag N' = Tag N" "ItemType N' = ItemType N"
        using kept_node [where h = h and h' = h' and p = p, OF _ N(1)] h'(5) by metis
      ultimately show ?thesis using assms(3) by (auto simp: var_node_def CopyItem_def)
    qed
    then have "list_all2 (var_node h' (CopyItem a None data sm)) ps vs"
      using assms(1) by (auto simp: vars_at_def intro: list.rel_mono_strong)
    moreover have "var_node h' (CopyItem a None data sm) b (k, chars data)"
      using h'(6-9) assms(4) by (simp add: var_node_def CopyItem_def)
    ultimately show ?thesis by (simp add: list_all2_appendI)
  qed
  moreover have "distinct (items h' (ps @ [b]))"
  proof -
    have "Some a \<notin> set (items h ps)"
      using assms(1,3) by (fastforce simp: vars_at_def list_all2_conv_all_nth var_node_def items_def in_set_conv_nth)
    then show ?thesis using assms(1) unfolding h'(4) by (simp add: vars_at_def)
  qed
  moreover have "names_differ (vs @ [(k, chars data)])" using names_differ_append assms(1,5) by (simp add: vars_at_def)
  ultimately show thesis using that h'(1,2) by (simp add: vars_at_def)
qed

section \<open>Properties\<close>

text \<open>
  Setting a variable implements \<open>var_update\<close>, the operation on sequences by which the theory \<open>World\<close> models it: the
  list stays well formed and holds the updated sequence, whether the name was there (in any case) or is new.
\<close>

theorem SetVar_refines:
  assumes "vars_at h sm base ps vs" "h b = None" "sm a = None" "k \<noteq> []"
  shows "\<exists>n h' sm' ps'. SetVar_in b a now (Some base) (Some k) data h sm = Some (Some n, h', sm')
    \<and> vars_at h' sm' base ps' (var_update vs k (chars data))"
proof -
  obtain H where H: "h base = Some H" "\<not> has_flag (NFlags H) LIST_FLAG_UNIQ"
    using assms(1) by (auto simp: vars_at_def plain_head_def searchable_def unlimited_def has_flag_or)
  have l: "list_at h base ps" "searchable h base" using assms(1) by (auto simp: vars_at_def plain_head_def)
  obtain q where q: "ListFindTypedItem now (Some base) 0 (Some k) h = Some (q, hit_at q base now h)" "found_in h base (Some k) ps q"
    using ListFindTypedItem_found [OF l vars_at_typed [OF assms(1)]] by metis
  from assms(1) q(2) show ?thesis
  proof (cases rule: vars_at_found)
    case none
    obtain h' where h': "ListAddTypedItem b now (Some base) 0 (Some k) (Some a) h = Some (Some b, h')"
      "vars_at h' (CopyItem a None data sm) base (ps @ [b]) (vs @ [(k, chars data)])"
      using vars_at_append [OF assms none(2)] by metis
    have "SetVar_in b a now (Some base) (Some k) data h sm = Some (Some b, h', CopyItem a None data sm)"
      using H q(1) none(1) h'(1) by (simp add: SetVar_in_def SetDetailVar_def hit_at_def)
    then show ?thesis using h'(2) var_miss [OF none(2), of "chars data"] by auto
  next
    case (some i)
    let ?h = "hit_at q base now h"
    have v: "vars_at ?h sm base ps vs" using vars_at_hit [OF assms(1) some(2)] some(1) by simp
    obtain N where N: "?h (ps ! i) = Some N" using vars_at_index [OF v some(2)] by metis
    let ?h' = "?h(ps ! i \<mapsto> N\<lparr>Item := Some a\<rparr>)" and ?sm = "CopyItem a (Item N) data sm"
    have i: "i < length vs" using vars_at_index [OF v some(2)] by metis
    have "SetVar_in b a now (Some base) (Some k) data h sm = Some (Some (ps ! i), ?h', ?sm)"
      using H q(1) some(1) N by (simp add: SetVar_in_def SetDetailVar_def)
    moreover have "vars_at ?h' ?sm base ps (vs[i := (fst (vs ! i), chars data)])"
      using vars_at_replace [OF v some(2) N] assms(3) by blast
    moreover have "var_update vs k (chars data) = vs[i := (fst (vs ! i), chars data)]"
      using var_hit [OF _ i some(3)] assms(1) by (simp add: vars_at_def)
    ultimately show ?thesis by metis
  qed
qed

text \<open>
  Reading a variable implements \<open>var_lookup\<close>, with the empty string for a name that is not there, and leaves the
  variables as they are.
\<close>

theorem GetVar_refines:
  assumes "vars_at h sm base ps vs"
  shows "\<exists>h'. GetVar_in now (Some base) (Some k) h sm = Some (Some (GetVar (Some vs) k), h') \<and> vars_at h' sm base ps vs"
proof -
  obtain H where H: "h base = Some H" "\<not> has_flag (NFlags H) LIST_FLAG_TIMEOUT"
    using assms by (auto simp: vars_at_def plain_head_def searchable_def unlimited_def has_flag_or)
  have l: "list_at h base ps" "searchable h base" using assms by (auto simp: vars_at_def plain_head_def)
  have ty: "typed (-1) h ps" by (simp add: typed_def)
  obtain q where q: "ListFindTypedItem now (Some base) (-1) (Some k) h = Some (q, hit_at q base now h)" "found_in h base (Some k) ps q"
    using ListFindTypedItem_found [OF l ty] by metis
  from assms q(2) show ?thesis
  proof (cases rule: vars_at_found)
    case none
    then have "GetVar_in now (Some base) (Some k) h sm = Some (Some [], h)"
      using q(1) by (simp add: GetVar_in_def GetTypedVar_def FindTypedVar_def hit_at_def)
    then show ?thesis using assms var_miss [OF none(2)] by (simp add: GetVar_def chars_def)
  next
    case (some i)
    let ?h = "hit_at q base now h"
    have v: "vars_at ?h sm base ps vs" using vars_at_hit [OF assms some(2)] some(1) by simp
    obtain N c where N: "?h (ps ! i) = Some N" "Item N = Some c" "sm c = Some (snd (vs ! i))" "i < length vs"
      using vars_at_index [OF v some(2)] by metis
    have "?h base = Some H" using vars_at_index [OF assms some(2)] some(1) H(1) by (auto simp: hit_at_def)
    then have "GetVar_in now (Some base) (Some k) h sm = Some (Some (snd (vs ! i)), ?h)"
      using q(1) some(1) N H by (simp add: GetVar_in_def GetTypedVar_def FindTypedVar_def)
    moreover have "var_lookup vs k = Some (snd (vs ! i))" using var_hit [OF _ N(4) some(3)] assms by (simp add: vars_at_def)
    ultimately show ?thesis using v by (simp add: GetVar_def chars_def)
  qed
qed

text \<open>
  C14. Variables on the heap implement the sequences by which the theory \<open>World\<close> models them: a name, in any case, is
  given a value in place or added at the end, the list stays well formed, and every name then reads as that value or as
  what it was before.
\<close>

theorem Vars_refine:
  assumes "vars_at h sm base ps vs" "h b = None" "sm a = None" "k \<noteq> []"
  shows "\<exists>n h' sm' ps'. SetVar_in b a now (Some base) (Some k) data h sm = Some (Some n, h', sm')
    \<and> vars_at h' sm' base ps' (var_update vs k (chars data))
    \<and> (\<forall>j. \<exists>h''. GetVar_in now (Some base) (Some j) h' sm'
         = Some (Some (if strcaseeq k j then chars data else GetVar (Some vs) j), h''))"
proof -
  obtain n h' sm' ps' where s: "SetVar_in b a now (Some base) (Some k) data h sm = Some (Some n, h', sm')"
    "vars_at h' sm' base ps' (var_update vs k (chars data))"
    using SetVar_refines [OF assms] by blast
  moreover have "GetVar (Some (var_update vs k (chars data))) j = (if strcaseeq k j then chars data else GetVar (Some vs) j)" for j
    by (simp add: GetVar_def var_lookup_update chars_def)
  then have "\<exists>h''. GetVar_in now (Some base) (Some j) h' sm'
      = Some (Some (if strcaseeq k j then chars data else GetVar (Some vs) j), h'')" for j
    using GetVar_refines [OF s(2), of now j] by metis
  ultimately show ?thesis by blast
qed

text \<open>
  \<open>ClearVars\<close> goes on from a node it has just freed: on every list with at least one variable it uses freed memory.
\<close>

theorem ClearVars_use_after_free:
  assumes "list_at h base (p # ps)" "unlimited h base"
  shows "ClearVars (Some base) h sm = None"
proof -
  have "ListGetNext (Some (last (base # []))) h = Some (first (p # ps) None)"
    by (rule ListGetNext_next) (use assms(1) in simp)
  then have cur: "ListGetNext (Some base) h = Some (Some p)" by simp
  have "list_at h base ([] @ p # ps)" using assms(1) by simp
  from ListDeleteNode_remove [OF this assms(2)] obtain r h' where "ListDeleteNode (Some p) h = Some (r, h')" "h' p = None" by blast
  then have "ClearVars_loop (Some p) h sm = None"
    by (subst ClearVars_loop.simps) (simp add: ListGetNext_def Let_def split: option.split)
  with cur show ?thesis by (simp add: ClearVars_def)
qed

section \<open>An example\<close>

definition one_var :: heap where
  "one_var = [0 \<mapsto> node_zero\<lparr>Next := Some 1, Prev := Some 1, Head := Some 0, Stats := Some (stats_zero\<lparr>Hits := 1\<rparr>)\<rparr>,
     1 \<mapsto> node_zero\<lparr>Prev := Some 0, Head := Some 0, Tag := Some ''sudo'', Item := Some 5\<rparr>]"

definition one_value :: strings where "one_value = [5 \<mapsto> ''/bin/sudo'']"

lemma one_var_vars: "vars_at one_var one_value 0 [1] [(''sudo'', ''/bin/sudo'')]"
  by (simp add: vars_at_def one_var_def one_value_def list_at_def head_ok_def no_map_def plain_head_def searchable_def unlimited_def node_zero_def
      stats_zero_def has_flag_def var_node_def items_def names_differ_def)

lemma Vars_refine_witness:
  "(\<exists>n h' sm' ps'. SetVar_in 2 6 0 (Some 0) (Some ''SUDO'') (Some ''/opt/sudo'') one_var one_value = Some (Some n, h', sm')
    \<and> vars_at h' sm' 0 ps' [(''sudo'', ''/opt/sudo'')])
   \<and> (\<exists>n h' sm' ps'. SetVar_in 2 6 0 (Some 0) (Some ''ip'') (Some ''/sbin/ip'') one_var one_value = Some (Some n, h', sm')
    \<and> vars_at h' sm' 0 ps' [(''sudo'', ''/bin/sudo''), (''ip'', ''/sbin/ip'')])"
proof -
  have f: "one_var 2 = None" "one_value 6 = None" by (simp_all add: one_var_def one_value_def)
  have u: "var_update [(''sudo'', ''/bin/sudo'')] ''SUDO'' (chars (Some ''/opt/sudo'')) = [(''sudo'', ''/opt/sudo'')]"
    "var_update [(''sudo'', ''/bin/sudo'')] ''ip'' (chars (Some ''/sbin/ip'')) = [(''sudo'', ''/bin/sudo''), (''ip'', ''/sbin/ip'')]"
    by code_simp+
  show ?thesis
    using Vars_refine [OF one_var_vars f, of "''SUDO''" 0 "Some ''/opt/sudo''"]
      Vars_refine [OF one_var_vars f, of "''ip''" 0 "Some ''/sbin/ip''"] unfolding u by (meson list.discI)
qed

lemma ClearVars_use_after_free_witness: "ClearVars (Some 0) one_var one_value = None"
proof -
  have "list_at one_var 0 [1]" "unlimited one_var 0" using one_var_vars by (simp_all add: vars_at_def plain_head_def searchable_def)
  then show ?thesis by (rule ClearVars_use_after_free)
qed

end
