(* ===== verification/Streams.thy ===== *)
theory Streams
  imports Ppp
begin

text \<open>
  \<open>Stream.c\<close>: the buffers of a stream, and how bytes get from a descriptor into the input buffer and from the
  output buffer to a descriptor.  A stream is the record \<open>STREAM\<close>; its last four fields are not part of
  the C structure but stand for the descriptors: what arrives, in the terms of the theory \<open>World\<close>, what has
  been written, and what the coming calls of \<open>write\<close> return.  An access outside a buffer is undefined,
  \<^term>\<open>None\<close>.  The positions are \<open>unsigned int\<close>; they stay below the size of the buffer, so they
  are natural numbers here.

  Streams over TLS, UDP and websockets and processing modules (compression) are outside the model: where the
  code tests for them, the result is undefined as well.
\<close>

section \<open>Data\<close>

definition STREAM_BYTES_READ :: int where "STREAM_BYTES_READ = 1"
definition STREAM_TIMEOUT :: int where "STREAM_TIMEOUT = 0"
definition STREAM_CLOSED :: int where "STREAM_CLOSED = -1"
definition STREAM_NODATA :: int where "STREAM_NODATA = -2"
definition STREAM_DATA_ERROR :: int where "STREAM_DATA_ERROR = -4"

definition FLUSH_LINE :: cint where "FLUSH_LINE = 1"
definition FLUSH_BLOCK :: cint where "FLUSH_BLOCK = 2"
definition FLUSH_ALWAYS :: cint where "FLUSH_ALWAYS = 4"
definition FLUSH_BUFFER :: cint where "FLUSH_BUFFER = 8"
definition SF_RDONLY :: cint where "SF_RDONLY = 16"
definition SF_WRONLY :: cint where "SF_WRONLY = 32"
definition SF_MMAP :: cint where "SF_MMAP = 512"
definition SF_NONBLOCK :: cint where "SF_NONBLOCK = 16384"

definition LU_SS_DATA_ERROR :: cint where "LU_SS_DATA_ERROR = 16"
definition LU_SS_WRITE_ERROR :: cint where "LU_SS_WRITE_ERROR = 32"
definition LU_SS_EMBARGOED :: cint where "LU_SS_EMBARGOED = 64"
definition LU_SS_SSL :: cint where "LU_SS_SSL = 4096"
definition LU_SS_MSG_READ :: cint where "LU_SS_MSG_READ = 32768"

datatype ESTREAMType =
    STREAM_TYPE_FILE | STREAM_TYPE_PIPE | STREAM_TYPE_TTY | STREAM_TYPE_UNIX
    | STREAM_TYPE_UNIX_DGRAM | STREAM_TYPE_TCP | STREAM_TYPE_UDP | STREAM_TYPE_SSL
    | STREAM_TYPE_HTTP | STREAM_TYPE_CHUNKED_HTTP | STREAM_TYPE_MESSAGEBUS | STREAM_TYPE_UNIX_SERVER
    | STREAM_TYPE_TCP_SERVER | STREAM_TYPE_UNIX_ACCEPT | STREAM_TYPE_TCP_ACCEPT | STREAM_TYPE_TPROXY
    | STREAM_TYPE_UPROXY | STREAM_TYPE_SSH | STREAM_TYPE_WS | STREAM_TYPE_WSS
    | STREAM_TYPE_HTTP_SERVER | STREAM_TYPE_HTTP_ACCEPT | STREAM_TYPE_WS_SERVER | STREAM_TYPE_WS_ACCEPT
    | STREAM_TYPE_WS_SERVICE

record STREAM =
  S_Type :: ESTREAMType
  S_Flags :: cint
  S_State :: cint
  S_Timeout :: nat
  S_BlockSize :: nat
  S_BuffSize :: nat
  S_StartPoint :: nat
  S_InStart :: nat
  S_InEnd :: nat
  S_OutEnd :: nat
  S_InputBuff :: string
  S_OutputBuff :: string
  S_in_open :: bool
  S_out_open :: bool
  fd_in :: "input list"
  fd_signal :: bool
  fd_out :: string
  fd_results :: "int list"

text \<open>Reading and writing \<open>n\<close> bytes of a buffer at a position.\<close>

definition peek :: "nat \<Rightarrow> nat \<Rightarrow> string \<Rightarrow> string option" where
  "peek pos n buf = (if pos + n \<le> length buf then Some (take n (drop pos buf)) else None)"

definition poke :: "nat \<Rightarrow> string \<Rightarrow> string \<Rightarrow> string option" where
  "poke pos d buf = (if pos + length d \<le> length buf then Some (take pos buf @ d @ drop (pos + length d) buf) else None)"

definition memmove :: "nat \<Rightarrow> nat \<Rightarrow> nat \<Rightarrow> string \<Rightarrow> string option" where
  "memmove dest src n buf = do { d \<leftarrow> peek src n buf; poke dest d buf }"

section \<open>Buffers\<close>

text \<open>\<open>STREAMReAllocBuffer\<close> of a plain stream; what \<open>realloc\<close> adds is never read before it is written.\<close>

definition resized :: "nat \<Rightarrow> string \<Rightarrow> string" where
  "resized n buf = take n buf @ replicate (n - length buf) CHR 0x00"

definition STREAMReAllocBuffer :: "nat \<Rightarrow> STREAM \<Rightarrow> STREAM" where
  "STREAMReAllocBuffer n S =
     (if has_flag (S_Flags S) SF_MMAP then S
      else S\<lparr>S_InputBuff := (if S_Type S \<noteq> STREAM_TYPE_HTTP \<and> has_flag (S_Flags S) SF_WRONLY then S_InputBuff S else resized n (S_InputBuff S)),
             S_OutputBuff := (if S_Type S \<noteq> STREAM_TYPE_HTTP \<and> has_flag (S_Flags S) SF_RDONLY then S_OutputBuff S else resized n (S_OutputBuff S)),
             S_BuffSize := n,
             S_InStart := (if S_InStart S > n then 0 else S_InStart S),
             S_InEnd := (if S_InEnd S > n then 0 else S_InEnd S),
             S_OutEnd := (if S_OutEnd S > n then 0 else S_OutEnd S)\<rparr>)"

definition BUFSIZ :: nat where "BUFSIZ = 8192"

definition STREAM_zero :: STREAM where
  "STREAM_zero = \<lparr>S_Type = STREAM_TYPE_FILE, S_Flags = 0, S_State = 0, S_Timeout = 0, S_BlockSize = 0, S_BuffSize = 0, S_StartPoint = 0, S_InStart = 0,
     S_InEnd = 0, S_OutEnd = 0, S_InputBuff = [], S_OutputBuff = [], S_in_open = False, S_out_open = False, fd_in = [],
     fd_signal = False, fd_out = [], fd_results = []\<rparr>"

text \<open>\<open>timeout\<close> is the value of \<open>STREAM:Timeout\<close>, if the program has set it.\<close>

definition STREAMCreate :: "nat option \<Rightarrow> STREAM" where
  "STREAMCreate timeout =
     (let S = STREAMReAllocBuffer BUFSIZ STREAM_zero
      in S\<lparr>S_Timeout := (case timeout of None \<Rightarrow> 3000 | Some t \<Rightarrow> t), S_Flags := S_Flags S OR FLUSH_ALWAYS\<rparr>)"

section \<open>Filling the input buffer\<close>

text \<open>
  \<open>select\<close> for reading: data or the end of the input make the descriptor readable; a pause is longer than
  the timeout; a signal interrupts the call.
\<close>

definition STREAMWaitForBytes :: "STREAM \<Rightarrow> (int \<times> STREAM) option" where
  "STREAMWaitForBytes S =
     (if has_flag (S_State S) (LU_SS_SSL OR LU_SS_MSG_READ) then None
      else if S_Timeout S > 0
      then (case fd_in S of
              Pause # is \<Rightarrow> Some (STREAM_TIMEOUT, S\<lparr>fd_in := is\<rparr>)
            | Interrupt # is \<Rightarrow> Some (STREAM_TIMEOUT, S\<lparr>fd_in := is, fd_signal := True\<rparr>)
            | _ \<Rightarrow> Some (1, S))
      else Some (1, S))"

text \<open>\<open>read\<close> takes what has arrived, waits if nothing has, and is restarted after a signal.\<close>

fun fd_read :: "nat \<Rightarrow> input list \<Rightarrow> string \<times> input list \<times> bool" where
  "fd_read n [] = ([], [], False)"
| "fd_read n (Bytes d # is) = (take n d, (if length d \<le> n then is else Bytes (drop n d) # is), False)"
| "fd_read n (Pause # is) = fd_read n is"
| "fd_read n (Interrupt # is) = (case fd_read n is of (d, is', s) \<Rightarrow> (d, is', True))"

definition STREAMPullBytes :: "nat \<Rightarrow> STREAM \<Rightarrow> int \<times> string \<times> STREAM" where
  "STREAMPullBytes n S =
     (case fd_read n (fd_in S) of (d, is, s) \<Rightarrow>
        (if length d < 1 then -1 else int (length d), d, S\<lparr>fd_in := is, fd_signal := (fd_signal S \<or> s)\<rparr>))"

text \<open>Without processing modules: \<open>InLen\<close> is -1 for a flush.\<close>

definition STREAMReadThroughProcessors :: "string \<Rightarrow> int \<Rightarrow> STREAM \<Rightarrow> (int \<times> STREAM) option" where
  "STREAMReadThroughProcessors d InLen S =
     (let state = (if InLen < 0 then InLen else 0); len = (if InLen < 0 then 0 else nat InLen)
      in do {
        S \<leftarrow> (if \<not> has_flag (S_State S) LU_SS_DATA_ERROR \<and> len > 0
             then (let S = (if S_InEnd S + len > S_BuffSize S then STREAMReAllocBuffer (S_InEnd S + len) S else S)
                   in do { p \<leftarrow> peek 0 len d;
                           buf \<leftarrow> poke (S_InEnd S) p (S_InputBuff S);
                           Some (S\<lparr>S_InputBuff := buf, S_InEnd := S_InEnd S + len\<rparr>) })
             else Some S);
        Some (if len = 0 \<and> state < 0 then state
              else if len = 0 \<and> has_flag (S_State S) LU_SS_DATA_ERROR then STREAM_DATA_ERROR
              else 1, S) })"

text \<open>The memmove that makes room, and the read that follows it.\<close>

definition ReadChars_compact :: "STREAM \<Rightarrow> STREAM option" where
  "ReadChars_compact S =
     (let val = S_InEnd S - S_InStart S;
          S = (if val > 0 then S else S\<lparr>S_InEnd := 0, S_InStart := 0\<rparr>)
      in if S_InStart S > S_BuffSize S div 2 \<or> (S_InEnd S \<ge> S_BuffSize S \<and> S_InStart S > 0)
         then do { buf \<leftarrow> memmove 0 (S_InStart S) val (S_InputBuff S);
                   Some (S\<lparr>S_InputBuff := buf, S_InStart := 0, S_InEnd := val\<rparr>) }
         else Some S)"

definition ReadChars_fill :: "STREAM \<Rightarrow> (int \<times> STREAM) option" where
  "ReadChars_fill S =
     do {
       (read_result, S) \<leftarrow> STREAMWaitForBytes S;
       (bytes_read, tmpBuff, S) \<leftarrow> (if read_result = 1
          then (if S_Type S \<in> {STREAM_TYPE_WS, STREAM_TYPE_WSS, STREAM_TYPE_WS_SERVICE, STREAM_TYPE_UDP} then None
                else Some (STREAMPullBytes (S_BuffSize S - S_InEnd S) S))
          else Some (0, [], S));
       let read_result = (if read_result = 1 then (if bytes_read \<ge> 0 then 1 else bytes_read) else read_result);
       (if read_result \<ge> 0 then STREAMReadThroughProcessors tmpBuff bytes_read S
        else do { (b, S) \<leftarrow> STREAMReadThroughProcessors [] (-1) S; Some (if b > 0 then b else read_result, S) })
     }"

definition STREAMReadCharsToBuffer :: "STREAM \<Rightarrow> (int \<times> STREAM) option" where
  "STREAMReadCharsToBuffer S =
     (if has_flag (S_State S) LU_SS_EMBARGOED then Some (0, S)
      else if S_InEnd S > S_InStart S \<and> (S_Type S = STREAM_TYPE_UDP \<or> has_flag (S_Flags S) SF_MMAP) then Some (1, S)
      else if has_flag (S_Flags S) SF_MMAP then Some (STREAM_CLOSED, S)
      else do {
        S \<leftarrow> ReadChars_compact S;
        (if S_InEnd S \<ge> S_BuffSize S then Some (1, S) else ReadChars_fill S) })"

section \<open>Reading from the buffer\<close>

definition STREAMTransferBytesOut :: "nat \<Rightarrow> STREAM \<Rightarrow> (string \<times> STREAM) option" where
  "STREAMTransferBytesOut DestSize S =
     (let bytes = min (S_InEnd S - S_InStart S) DestSize
      in if bytes < 1 then Some ([], S)
         else do { d \<leftarrow> peek (S_InStart S) bytes (S_InputBuff S); Some (d, S\<lparr>S_InStart := S_InStart S + bytes\<rparr>) })"

text \<open>
  \<open>poll\<close> is what \<open>FDCheckForBytes\<close> answers: whether more could be read at once.  The arguments of the loop
  are the state and what has been copied to the buffer of the caller.
\<close>

partial_function (option) ReadMessage_loop ::
  "(input list \<Rightarrow> bool) \<Rightarrow> nat \<Rightarrow> int \<Rightarrow> string \<Rightarrow> STREAM \<Rightarrow> (int \<times> string \<times> STREAM) option" where
  "ReadMessage_loop poll Buffsize state Buffer S =
     (if length Buffer < Buffsize
      then do {
        (state, stop, S) \<leftarrow> (if S_InStart S \<ge> S_InEnd S
           then do { (result, S) \<leftarrow> STREAMReadCharsToBuffer S;
                     Some (if result > 0 then (STREAM_BYTES_READ, False, S) else (result, True, S)) }
           else Some (state, False, S));
        (if stop then Some (state, Buffer, S)
         else do {
           (d, S) \<leftarrow> STREAMTransferBytesOut (Buffsize - length Buffer) S;
           (if \<not> poll (fd_in S) then Some (state, Buffer @ d, S)
            else ReadMessage_loop poll Buffsize state (Buffer @ d) S) }) }
      else Some (state, Buffer, S))"

definition STREAMReadMessage :: "(input list \<Rightarrow> bool) \<Rightarrow> nat \<Rightarrow> STREAM \<Rightarrow> (int \<times> string \<times> STREAM) option" where
  "STREAMReadMessage poll Buffsize S = ReadMessage_loop poll Buffsize STREAM_NODATA [] S"

text \<open>The result of \<open>STREAMReadBytes\<close>, and the bytes.\<close>

definition StreamReadBytes :: "(input list \<Rightarrow> bool) \<Rightarrow> nat \<Rightarrow> STREAM \<Rightarrow> (int \<times> string \<times> STREAM) option" where
  "StreamReadBytes poll Buffsize S =
     do { (state, Buffer, S) \<leftarrow> STREAMReadMessage poll Buffsize S;
          Some (if state = STREAM_BYTES_READ then int (length Buffer)
                else if length Buffer > 0 then int (length Buffer) else state, Buffer, S) }"

definition STREAMReadChar :: "(input list \<Rightarrow> bool) \<Rightarrow> STREAM \<Rightarrow> (int \<times> STREAM) option" where
  "STREAMReadChar poll S =
     do { (result, Buffer, S) \<leftarrow> StreamReadBytes poll 1 S;
          Some (if result < 0 then result else if result = 0 then STREAM_NODATA else of_char (Buffer ! 0), S) }"

text \<open>\<open>RetStr\<close> is what has been transferred already; the result is \<open>NULL\<close> when the stream is closed.\<close>

partial_function (option) ReadToTerminator_loop :: "char \<Rightarrow> string \<Rightarrow> bool \<Rightarrow> STREAM \<Rightarrow> (cstr \<times> STREAM) option" where
  "ReadToTerminator_loop Term RetStr IsClosed S =
     do {
       let avail = S_InEnd S - S_InStart S;
       bytes \<leftarrow> peek (S_InStart S) avail (S_InputBuff S);
       (if avail = 0 \<and> IsClosed then Some (if length RetStr > 0 then Some RetStr else None, S)
        else do {
          let found = (Term \<in> set bytes);
          let len = (if avail = 0 then 0
                     else if found then Suc (length (takeWhile (\<lambda>c. c \<noteq> Term) bytes))
                     else if IsClosed then avail
                     else if S_InStart S > 0 then 0
                     else if S_InEnd S \<ge> S_BuffSize S then avail else 0);
          (if len = 0
           then do {
             (result, S) \<leftarrow> STREAMReadCharsToBuffer S;
             (if result = STREAM_CLOSED then ReadToTerminator_loop Term RetStr True S
              else if result = STREAM_TIMEOUT then Some (Some RetStr, S)
              else ReadToTerminator_loop Term RetStr IsClosed S) }
           else do {
             (d, S) \<leftarrow> STREAMTransferBytesOut len S;
             (if found then Some (Some (RetStr @ d), S) else ReadToTerminator_loop Term (RetStr @ d) IsClosed S) }) })
     }"

definition STREAMReadToTerminator :: "char \<Rightarrow> STREAM \<Rightarrow> (cstr \<times> STREAM) option" where
  "STREAMReadToTerminator Term S = ReadToTerminator_loop Term [] False S"

definition StreamReadLine :: "STREAM \<Rightarrow> (cstr \<times> STREAM) option" where
  "StreamReadLine S = STREAMReadToTerminator (CHR 0x0A) S"

partial_function (option) ReadToMulti_loop ::
  "(input list \<Rightarrow> bool) \<Rightarrow> string \<Rightarrow> string \<Rightarrow> STREAM \<Rightarrow> (int \<times> string \<times> STREAM) option" where
  "ReadToMulti_loop poll Terms RetStr S =
     do {
       (inchar, S) \<leftarrow> STREAMReadChar poll S;
       (if inchar > -1
        then (if inchar > 0
              then (let RetStr = AddCharToBuffer RetStr (length RetStr) (char_of inchar)
                    in if char_of inchar \<in> set Terms then Some (inchar, RetStr, S)
                       else ReadToMulti_loop poll Terms RetStr S)
              else ReadToMulti_loop poll Terms RetStr S)
        else Some (inchar, RetStr, S)) }"

definition StreamReadToMultiTerminator :: "(input list \<Rightarrow> bool) \<Rightarrow> string \<Rightarrow> STREAM \<Rightarrow> (cstr \<times> STREAM) option" where
  "StreamReadToMultiTerminator poll Terms S =
     do { (inchar, RetStr, S) \<leftarrow> ReadToMulti_loop poll Terms [] S;
          Some (if (inchar = STREAM_CLOSED \<or> inchar = STREAM_DATA_ERROR) \<and> RetStr = [] then None else Some RetStr, S) }"

text \<open>
  \<open>MaxSize\<close> is the setting \<open>MaxDocumentSize\<close>, 40960000 unless it is changed; without it the size is not
  initialised for a stream whose size is not known.
\<close>

partial_function (option) ReadDocument_loop :: "(input list \<Rightarrow> bool) \<Rightarrow> nat \<Rightarrow> string \<Rightarrow> STREAM \<Rightarrow> (string \<times> STREAM) option" where
  "ReadDocument_loop poll Size RetStr S =
     (if length RetStr < Size
      then do {
        (result, d, S) \<leftarrow> STREAMReadMessage poll (Size - length RetStr) S;
        (if result \<noteq> STREAM_BYTES_READ then Some (RetStr @ d, S) else ReadDocument_loop poll Size (RetStr @ d) S) }
      else Some (RetStr, S))"

definition StreamReadDocument :: "(input list \<Rightarrow> bool) \<Rightarrow> nat \<Rightarrow> STREAM \<Rightarrow> (string \<times> STREAM) option" where
  "StreamReadDocument poll MaxSize S = (if MaxSize = 0 then None else ReadDocument_loop poll MaxSize [] S)"

definition STREAMPeekChar :: "STREAM \<Rightarrow> (int \<times> STREAM) option" where
  "STREAMPeekChar S =
     do { (result, S) \<leftarrow> (if S_InStart S \<ge> S_InEnd S then STREAMReadCharsToBuffer S else Some (1, S));
          (if result < 1 then Some (result, S)
           else do { c \<leftarrow> peek (S_InStart S) 1 (S_InputBuff S); Some (of_char (c ! 0), S) }) }"

definition STREAMPeekBytes :: "nat \<Rightarrow> STREAM \<Rightarrow> (int \<times> string \<times> STREAM) option" where
  "STREAMPeekBytes Buffsize S =
     do { (result, S) \<leftarrow> (if S_InStart S \<ge> S_InEnd S then STREAMReadCharsToBuffer S else Some (1, S));
          (if S_InStart S \<ge> S_InEnd S \<and> result \<in> {STREAM_CLOSED, STREAM_TIMEOUT, STREAM_DATA_ERROR} then Some (result, [], S)
           else do { let len = min (S_InEnd S - S_InStart S) Buffsize;
                     d \<leftarrow> peek (S_InStart S) len (S_InputBuff S);
                     Some (int len, d, S) }) }"

text \<open>
  \<open>STREAMInsertBytes\<close> puts bytes in front of what has not been read: into the room of what has been, or, if
  that is too small, at the start of the buffer.  \<open>memmove\<close> gets its arguments as they are written there.
\<close>

definition STREAMInsertBytes :: "string \<Rightarrow> STREAM \<Rightarrow> STREAM option" where
  "STREAMInsertBytes bytes S =
     (let len = length bytes
      in if S_InStart S > len
         then do { buf \<leftarrow> poke (S_InStart S - len) bytes (S_InputBuff S);
                   Some (S\<lparr>S_InputBuff := buf, S_InStart := S_InStart S - len\<rparr>) }
         else do {
           let val = len + S_InEnd S - S_InStart S;
           let S = (if val > S_BuffSize S then STREAMReAllocBuffer val (S\<lparr>S_BuffSize := val\<rparr>) else S);
           buf \<leftarrow> memmove (S_InStart S) len (S_InEnd S - S_InStart S) (S_InputBuff S);
           buf \<leftarrow> poke 0 bytes buf;
           Some (S\<lparr>S_InputBuff := buf, S_InStart := 0, S_InEnd := val\<rparr>) })"

text \<open>\<open>Buffer\<close> is what has been stored for the caller; a timeout is not the end.\<close>

partial_function (option) ReadBytesToTerm_loop ::
  "(input list \<Rightarrow> bool) \<Rightarrow> nat \<Rightarrow> char \<Rightarrow> string \<Rightarrow> STREAM \<Rightarrow> (int \<times> string \<times> STREAM) option" where
  "ReadBytesToTerm_loop poll BuffSize Term Buffer S =
     do {
       (inchar, S) \<leftarrow> STREAMReadChar poll S;
       (if inchar = STREAM_CLOSED then Some (inchar, Buffer, S)
        else if inchar > -1
        then (let Buffer = Buffer @ [char_of inchar]
              in if length Buffer > BuffSize then None
                 else if char_of inchar = Term \<or> length Buffer = BuffSize then Some (inchar, Buffer, S)
                 else ReadBytesToTerm_loop poll BuffSize Term Buffer S)
        else ReadBytesToTerm_loop poll BuffSize Term Buffer S) }"

definition STREAMReadBytesToTerm ::
  "(input list \<Rightarrow> bool) \<Rightarrow> nat \<Rightarrow> char \<Rightarrow> STREAM \<Rightarrow> (int \<times> string \<times> STREAM) option" where
  "STREAMReadBytesToTerm poll BuffSize Term S =
     do { (inchar, Buffer, S) \<leftarrow> ReadBytesToTerm_loop poll BuffSize Term [] S;
          Some (if Buffer = [] \<and> inchar = STREAM_CLOSED then STREAM_CLOSED else int (length Buffer), Buffer, S) }"

text \<open>
  \<open>STREAMReadToString\<close>: \<open>match\<close> counts the characters of \<open>Term\<close> that have just been read.  \<open>char\<close> is
  signed, what is read is not.
\<close>

definition signed_char :: "char \<Rightarrow> int" where
  "signed_char c = (if of_char c < (128 :: int) then of_char c else of_char c - 256)"

partial_function (option) ReadToString_loop ::
  "(input list \<Rightarrow> bool) \<Rightarrow> string \<Rightarrow> nat \<Rightarrow> string \<Rightarrow> STREAM \<Rightarrow> (bool \<times> string \<times> STREAM) option" where
  "ReadToString_loop poll Term match RetStr S =
     do {
       (inchar, S) \<leftarrow> STREAMReadChar poll S;
       (if inchar = -1 then Some (False, RetStr, S)
        else do {
          let RetStr = (if inchar > -1 then AddCharToBuffer RetStr (length RetStr) (char_of inchar) else RetStr);
          let match = (if Term \<noteq> [] then (let match = (if signed_char (Term ! match) \<noteq> inchar then 0 else match)
                                         in if signed_char (Term ! match) = inchar then Suc match else match)
                       else match);
          (if Term \<noteq> [] \<and> match = length Term then Some (True, RetStr, S)
           else ReadToString_loop poll Term match RetStr S) }) }"

definition STREAMReadToString ::
  "(input list \<Rightarrow> bool) \<Rightarrow> string \<Rightarrow> STREAM \<Rightarrow> (bool \<times> string \<times> STREAM) option" where
  "STREAMReadToString poll Term S = ReadToString_loop poll Term 0 [] S"

section \<open>Writing\<close>

definition STREAMSetTimeout :: "nat \<Rightarrow> STREAM \<Rightarrow> STREAM" where
  "STREAMSetTimeout val S = S\<lparr>S_Timeout := val\<rparr>"

definition STREAMSetFlushType :: "cint \<Rightarrow> nat \<Rightarrow> nat \<Rightarrow> STREAM \<Rightarrow> STREAM" where
  "STREAMSetFlushType Type StartPoint BlockSize S =
     S\<lparr>S_Flags := (S_Flags S AND NOT (FLUSH_ALWAYS OR FLUSH_LINE OR FLUSH_BLOCK OR FLUSH_BUFFER)) OR Type,
       S_StartPoint := StartPoint, S_BlockSize := BlockSize\<rparr>"

text \<open>
  One wait and one \<open>write\<close>.  Their results come from \<open>fd_results\<close>: negative for an error, 0 for a wait that
  timed out or a write that was interrupted or would block, else how many bytes the descriptor takes; when the
  list is empty it takes all.
\<close>

definition PIPE_BUF :: nat where "PIPE_BUF = 4096"

definition STREAMBasicSendBytes :: "string \<Rightarrow> STREAM \<Rightarrow> int \<times> STREAM" where
  "STREAMBasicSendBytes Data S =
     (let Data = (if S_Type S = STREAM_TYPE_PIPE then take PIPE_BUF Data else Data);
          r = (case fd_results S of [] \<Rightarrow> int (length Data) | x # xs \<Rightarrow> x);
          S = S\<lparr>fd_results := tl (fd_results S)\<rparr>
      in if r < 0 then (STREAM_CLOSED, S)
         else if r = 0 then (STREAM_TIMEOUT, S)
         else (let n = min (nat r) (length Data) in (int n, S\<lparr>fd_out := fd_out S @ take n Data\<rparr>)))"

text \<open>\<open>STREAMInternalPushBytes\<close>, which is only called with the output buffer as its data.\<close>

partial_function (option) PushBytes_loop :: "nat \<Rightarrow> nat \<Rightarrow> STREAM \<Rightarrow> (int \<times> nat \<times> STREAM) option" where
  "PushBytes_loop DataLen count S =
     (if count < DataLen
      then do {
        d \<leftarrow> peek count (DataLen - count) (S_OutputBuff S);
        (let (result, S) = STREAMBasicSendBytes d S
         in if result < 0 then Some (result, count, S)
            else if has_flag (S_Flags S) SF_NONBLOCK then Some (result, count + nat result, S)
            else PushBytes_loop DataLen (count + nat result) S) }
      else Some (0, count, S))"

definition STREAMInternalPushBytes :: "nat \<Rightarrow> STREAM \<Rightarrow> (int \<times> STREAM) option" where
  "STREAMInternalPushBytes DataLen S =
     (if \<not> S_out_open S then Some (STREAM_CLOSED, S)
      else if has_flag (S_State S) LU_SS_SSL \<or> S_Type S \<in> {STREAM_TYPE_WS, STREAM_TYPE_WSS, STREAM_TYPE_WS_SERVICE} then None
      else do {
        let DataLen = (if has_flag (S_Flags S) FLUSH_BLOCK then min (S_BlockSize S) (S_OutEnd S) else DataLen);
        (result, count, S) \<leftarrow> PushBytes_loop DataLen 0 S;
        let S = S\<lparr>S_OutEnd := S_OutEnd S - count\<rparr>;
        buf \<leftarrow> (if S_OutEnd S > 0 then memmove 0 count (S_OutEnd S) (S_OutputBuff S) else Some (S_OutputBuff S));
        let S = S\<lparr>S_OutputBuff := buf\<rparr>;
        Some (if result < 0 then result else int count, S) })"

text \<open>What \<open>SF_FULL_FLUSH\<close> does to the descriptor (\<open>fsync\<close>, socket options) is not seen here.\<close>

definition StreamFlush :: "STREAM \<Rightarrow> (int \<times> STREAM) option" where
  "StreamFlush S =
     do { (val, S) \<leftarrow> STREAMInternalPushBytes (S_OutEnd S) S;
          Some (val, if S_OutEnd S = 0 then S\<lparr>S_OutputBuff := replicate (length (S_OutputBuff S)) (CHR 0x00)\<rparr> else S) }"

definition STREAMClear :: "STREAM \<Rightarrow> STREAM option" where
  "STREAMClear S =
     do { (_, S) \<leftarrow> StreamFlush S;
          Some (S\<lparr>S_InStart := 0, S_InEnd := 0, S_InputBuff := replicate (length (S_InputBuff S)) (CHR 0x00)\<rparr>) }"

definition QueueBytes_flushes :: "STREAM \<Rightarrow> bool" where
  "QueueBytes_flushes S \<longleftrightarrow> S_OutEnd S > S_StartPoint S
     \<and> (S_OutEnd S \<ge> S_BuffSize S \<or> has_flag (S_Flags S) FLUSH_ALWAYS
        \<or> has_flag (S_Flags S) FLUSH_BLOCK \<and> S_OutEnd S > S_BlockSize S)"

partial_function (option) QueueBytes_loop :: "string \<Rightarrow> nat \<Rightarrow> STREAM \<Rightarrow> (int \<times> STREAM) option" where
  "QueueBytes_loop bytes queued S =
     do {
       let avail = min (S_BuffSize S - S_OutEnd S) (length bytes);
       buf \<leftarrow> poke (S_OutEnd S) (take avail bytes) (S_OutputBuff S);
       let S = S\<lparr>S_OutputBuff := buf, S_OutEnd := S_OutEnd S + avail\<rparr>;
       let bytes = drop avail bytes;
       let queued = queued + avail;
       (result, S) \<leftarrow> (if QueueBytes_flushes S
          then do { (result, S) \<leftarrow> STREAMInternalPushBytes (S_OutEnd S) S;
                    Some (result, if result < 1 then S else S\<lparr>S_StartPoint := 0\<rparr>) }
          else Some (1, S));
       (if result < 1 \<or> bytes = [] then Some (if result < 0 \<and> result \<noteq> STREAM_TIMEOUT then result else int queued, S)
        else QueueBytes_loop bytes queued S) }"

text \<open>Without processing modules.\<close>

definition StreamWriteBytes :: "string \<Rightarrow> STREAM \<Rightarrow> (int \<times> STREAM) option" where
  "StreamWriteBytes Data S =
     (if \<not> S_out_open S \<or> has_flag (S_State S) LU_SS_WRITE_ERROR then Some (STREAM_CLOSED, S)
      else do {
        (result, S) \<leftarrow> (if length Data > 0 then QueueBytes_loop Data 0 S
           else if S_OutEnd S > S_StartPoint S then STREAMInternalPushBytes (S_OutEnd S) S else Some (0, S));
        Some (if result < 0 then result else int (length Data), S) })"

definition StreamWriteString :: "cstr \<Rightarrow> STREAM \<Rightarrow> (int \<times> STREAM) option" where
  "StreamWriteString Buffer S = (if StrEnd Buffer then Some (0, S) else StreamWriteBytes (chars Buffer) S)"

definition StreamWriteLine :: "cstr \<Rightarrow> STREAM \<Rightarrow> (int \<times> STREAM) option" where
  "StreamWriteLine Buffer S =
     (if StrEnd Buffer then Some (0, S)
      else do {
        (result, S) \<leftarrow> StreamWriteBytes (chars Buffer) S;
        (if result < 0 then Some (result, S)
         else if has_flag (S_Flags S) FLUSH_LINE then StreamFlush S else Some (result, S)) })"

section \<open>Opening\<close>

definition SF_CREATE :: cint where "SF_CREATE = 64"
definition STREAM_APPEND :: cint where "STREAM_APPEND = 128"
definition SF_TRUNC :: cint where "SF_TRUNC = 256"
definition SF_WRLOCK :: cint where "SF_WRLOCK = 1024"
definition SF_RDLOCK :: cint where "SF_RDLOCK = 2048"
definition SF_FOLLOW :: cint where "SF_FOLLOW = 4096"
definition SF_SECURE :: cint where "SF_SECURE = 8192"
definition SF_EXCL :: cint where "SF_EXCL = 32768"
definition SF_ERROR :: cint where "SF_ERROR = 65536"
definition SF_EXEC_INHERIT :: cint where "SF_EXEC_INHERIT = 131072"
definition SF_AUTORECOVER :: cint where "SF_AUTORECOVER = 262144"
definition SF_SORTED :: cint where "SF_SORTED = 1048576"
definition STREAM_IMMUTABLE :: cint where "STREAM_IMMUTABLE = 2097152"
definition STREAM_APPENDONLY :: cint where "STREAM_APPENDONLY = 4194304"
definition SF_COMPRESSED :: cint where "SF_COMPRESSED = 8388608"
definition SF_TMPNAME :: cint where "SF_TMPNAME = 16777216"
definition SF_ENCRYPT :: cint where "SF_ENCRYPT = 33554432"
definition SF_FULL_FLUSH :: cint where "SF_FULL_FLUSH = 67108864"

text \<open>The mode at the start of the configuration of \<open>STREAMOpen\<close>, up to the first space.\<close>

definition ParseConfig_char :: "char \<Rightarrow> cint \<Rightarrow> cint" where
  "ParseConfig_char c flags =
     (if c = CHR ''r'' then (if has_flag flags SF_WRONLY then flags AND NOT (SF_RDONLY OR SF_WRONLY) else flags OR SF_RDONLY)
      else if c = CHR ''w''
      then (if has_flag flags SF_RDONLY then flags AND NOT (SF_RDONLY OR SF_WRONLY) else flags OR SF_WRONLY OR SF_CREATE OR SF_TRUNC)
      else if c = CHR ''a'' then flags OR STREAM_APPEND OR SF_CREATE
      else if c = CHR ''c'' then flags OR SF_CREATE
      else if c = CHR ''A'' then flags OR STREAM_APPENDONLY
      else if c = CHR ''e'' then flags OR SF_ENCRYPT
      else if c = CHR ''E'' then flags OR SF_ERROR
      else if c = CHR ''f'' then flags OR SF_FULL_FLUSH
      else if c = CHR ''F'' then flags OR SF_FOLLOW
      else if c = CHR ''l'' then flags OR SF_RDLOCK
      else if c = CHR ''L'' then flags OR SF_WRLOCK
      else if c = CHR ''m'' then flags OR SF_MMAP
      else if c = CHR ''n'' then flags OR SF_NONBLOCK
      else if c = CHR ''s'' then flags OR SF_SECURE
      else if c = CHR ''i'' then flags OR SF_EXEC_INHERIT
      else if c = CHR ''I'' then flags OR STREAM_IMMUTABLE
      else if c = CHR ''R'' then flags OR SF_AUTORECOVER
      else if c = CHR ''S'' then flags OR SF_SORTED
      else if c = CHR ''t'' then flags OR SF_TMPNAME
      else if c = CHR ''x'' then flags OR SF_EXCL
      else if c = CHR ''z'' then flags OR SF_COMPRESSED
      else if c = CHR ''+'' then flags AND NOT (SF_RDONLY OR SF_WRONLY)
      else flags)"

definition STREAMParseConfig :: "cstr \<Rightarrow> cint" where
  "STREAMParseConfig Config =
     (if StrValid Config then fold ParseConfig_char (takeWhile (\<lambda>c. \<not> isspace c) (chars Config)) 0 else 0)"

text \<open>The last of a chain of URLs, for the kinds that may have proxies.\<close>

definition STREAMExtractMasterURL :: "string \<Rightarrow> string" where
  "STREAMExtractMasterURL URL =
     (if \<exists>p \<in> set [''cmd:'', ''file:'', ''mmap:'', ''stdin:'', ''stdout:'', ''stdio:'']. strneq URL p (length p) then URL
      else rev (takeWhile (\<lambda>c. c \<noteq> CHR ''|'') (rev URL)))"

lemma access_bits: "has_flag w SF_RDONLY \<longleftrightarrow> bit w 4" "has_flag w SF_WRONLY \<longleftrightarrow> bit w 5"
  using has_flag_exp [of w 4] has_flag_exp [of w 5] by (simp_all add: SF_RDONLY_def SF_WRONLY_def)

lemma ParseConfig_char_access:
  "\<not> (has_flag flags SF_RDONLY \<and> has_flag flags SF_WRONLY) \<Longrightarrow>
   \<not> (has_flag (ParseConfig_char c flags) SF_RDONLY \<and> has_flag (ParseConfig_char c flags) SF_WRONLY)"
  unfolding ParseConfig_char_def access_bits
  by (auto simp: bit_simps SF_RDONLY_def SF_WRONLY_def SF_CREATE_def SF_TRUNC_def STREAM_APPEND_def STREAM_APPENDONLY_def SF_ENCRYPT_def
      SF_ERROR_def SF_FULL_FLUSH_def SF_FOLLOW_def SF_RDLOCK_def SF_WRLOCK_def SF_MMAP_def SF_NONBLOCK_def SF_SECURE_def
      SF_EXEC_INHERIT_def STREAM_IMMUTABLE_def SF_AUTORECOVER_def SF_SORTED_def SF_TMPNAME_def SF_EXCL_def SF_COMPRESSED_def)

lemma STREAMParseConfig_access:
  "\<not> (has_flag (STREAMParseConfig Config) SF_RDONLY \<and> has_flag (STREAMParseConfig Config) SF_WRONLY)"
proof -
  have "\<not> (has_flag f SF_RDONLY \<and> has_flag f SF_WRONLY) \<Longrightarrow>
      \<not> (has_flag (fold ParseConfig_char cs f) SF_RDONLY \<and> has_flag (fold ParseConfig_char cs f) SF_WRONLY)" for cs f
    using ParseConfig_char_access by (induction cs arbitrary: f) auto
  from this [of 0] show ?thesis by (simp add: STREAMParseConfig_def has_flag_def)
qed

text \<open>The modes the program uses.\<close>

lemma STREAMParseConfig_modes:
  "STREAMParseConfig (Some ''r'') = SF_RDONLY" "STREAMParseConfig (Some ''w'') = SF_WRONLY OR SF_CREATE OR SF_TRUNC"
  "STREAMParseConfig (Some ''rw'') = 0"
  by code_simp+

end
