(* ===== verification/StreamReads.thy ===== *)
theory StreamReads
  imports Streams
begin

text \<open>
  Reading from the buffers of the theory \<open>Streams\<close>.  \<open>taken\<close> says what one call of
  \<open>STREAMReadCharsToBuffer\<close> does; the reading loops are then shown to end and to implement the functions
  \<open>read_to_terminator\<close> and \<open>read_to_multi\<close> by which the theory \<open>World\<close> specifies them, by a simulation
  (\<open>ahead\<close>) that lets the specification run ahead of the buffer.
\<close>

section \<open>The contents of the input buffer\<close>

definition inbuf :: "STREAM \<Rightarrow> string" where
  "inbuf S = take (S_InEnd S - S_InStart S) (drop (S_InStart S) (S_InputBuff S))"

text \<open>A stream whose positions are in order, of the kind that is modelled, and that waits with a timeout.\<close>

definition stream_ok :: "STREAM \<Rightarrow> bool" where
  "stream_ok S \<longleftrightarrow> S_InStart S \<le> S_InEnd S \<and> S_InEnd S \<le> S_BuffSize S \<and> length (S_InputBuff S) = S_BuffSize S \<and> 0 < S_BuffSize S"

definition readable :: "STREAM \<Rightarrow> bool" where
  "readable S \<longleftrightarrow> stream_ok S \<and> S_Type S \<notin> {STREAM_TYPE_WS, STREAM_TYPE_WSS, STREAM_TYPE_WS_SERVICE, STREAM_TYPE_UDP} \<and> S_Timeout S > 0 \<and> \<not> has_flag (S_Flags S) SF_MMAP
     \<and> \<not> has_flag (S_State S) (LU_SS_SSL OR LU_SS_MSG_READ OR LU_SS_EMBARGOED OR LU_SS_DATA_ERROR)"

lemma has_flag_or2 [simp]: "has_flag w (f OR g) \<longleftrightarrow> has_flag w f \<or> has_flag w g" for w :: "32 word"
  by (auto simp: has_flag_def bit_eq_iff bit_simps)

lemma inbuf_length [simp]: "stream_ok S \<Longrightarrow> length (inbuf S) = S_InEnd S - S_InStart S"
  by (auto simp: inbuf_def stream_ok_def)

lemma peek_inbuf: "stream_ok S \<Longrightarrow> peek (S_InStart S) (S_InEnd S - S_InStart S) (S_InputBuff S) = Some (inbuf S)"
  by (auto simp: peek_def inbuf_def stream_ok_def)

text \<open>What every reading operation leaves alone.\<close>

definition same_stream :: "STREAM \<Rightarrow> STREAM \<Rightarrow> bool" where
  "same_stream S S' \<longleftrightarrow> S_Type S' = S_Type S \<and> S_Flags S' = S_Flags S \<and> S_State S' = S_State S \<and> S_Timeout S' = S_Timeout S \<and> S_BuffSize S' = S_BuffSize S"

lemma readable_same: "readable S \<Longrightarrow> same_stream S S' \<Longrightarrow> stream_ok S' \<Longrightarrow> readable S'"
  by (auto simp: readable_def same_stream_def)

lemma same_stream_trans: "same_stream S S' \<Longrightarrow> same_stream S' S'' \<Longrightarrow> same_stream S S''"
  by (simp add: same_stream_def)

lemma compact_ok:
  assumes "stream_ok S"
  obtains S' where "ReadChars_compact S = Some S'" "stream_ok S'" "inbuf S' = inbuf S" "same_stream S S'"
    "fd_in S' = fd_in S" "fd_signal S' = fd_signal S" "S_InEnd S' \<ge> S_BuffSize S' \<longleftrightarrow> length (inbuf S) = S_BuffSize S"
    "inbuf S = [] \<Longrightarrow> S_InEnd S' = 0"
proof -
  let ?val = "S_InEnd S - S_InStart S"
  define T where "T = (if ?val > 0 then S else S\<lparr>S_InEnd := 0, S_InStart := 0\<rparr>)"
  have T: "stream_ok T" "inbuf T = inbuf S" "same_stream S T" "fd_in T = fd_in S" "fd_signal T = fd_signal S"
    "S_InEnd T - S_InStart T = ?val" "S_BuffSize T = S_BuffSize S" "?val = 0 \<Longrightarrow> S_InEnd T = 0"
    using assms by (auto simp: T_def stream_ok_def inbuf_def same_stream_def)
  have empty: "?val = 0" if "inbuf S = []" using inbuf_length [OF assms] that by simp
  have compact: "ReadChars_compact S = (if S_InStart T > S_BuffSize T div 2 \<or> (S_InEnd T \<ge> S_BuffSize T \<and> S_InStart T > 0)
     then do { buf \<leftarrow> memmove 0 (S_InStart T) ?val (S_InputBuff T); Some (T\<lparr>S_InputBuff := buf, S_InStart := 0, S_InEnd := ?val\<rparr>) }
     else Some T)"
    unfolding ReadChars_compact_def Let_def T_def by (rule refl)
  show thesis
  proof (cases "S_InStart T > S_BuffSize T div 2 \<or> (S_InEnd T \<ge> S_BuffSize T \<and> S_InStart T > 0)")
    case True
    define buf where "buf = inbuf S @ drop ?val (S_InputBuff T)"
    have mm: "memmove 0 (S_InStart T) ?val (S_InputBuff T) = Some buf"
      using T(1,2) peek_inbuf [OF T(1)] T(6) inbuf_length [OF T(1)]
      by (auto simp: memmove_def poke_def buf_def stream_ok_def)
    have len: "length buf = S_BuffSize S"
      using T(1,7) inbuf_length [OF assms] assms by (auto simp: buf_def stream_ok_def)
    let ?S = "T\<lparr>S_InputBuff := buf, S_InStart := 0, S_InEnd := ?val\<rparr>"
    have "ReadChars_compact S = Some ?S"
      unfolding compact using True mm by simp
    moreover have "stream_ok ?S" using T len assms by (auto simp: stream_ok_def)
    moreover have "inbuf ?S = inbuf S" unfolding inbuf_def [of ?S] using inbuf_length [OF assms] by (simp add: buf_def)
    ultimately show thesis using T inbuf_length [OF assms] assms empty
      by (intro that [of ?S]) (auto simp: same_stream_def stream_ok_def)
  next
    case False
    then have "ReadChars_compact S = Some T" unfolding compact by (simp only: if_False)
    with T False inbuf_length [OF assms] empty show thesis
      by (intro that [of T]) (auto simp: stream_ok_def)
  qed
qed

lemma processors_append:
  assumes "readable S" "d \<noteq> []" "S_InEnd S + length d \<le> S_BuffSize S"
  obtains S' where "STREAMReadThroughProcessors d (int (length d)) S = Some (1, S')" "stream_ok S'"
    "inbuf S' = inbuf S @ d" "same_stream S S'" "fd_in S' = fd_in S" "fd_signal S' = fd_signal S"
proof -
  define buf where "buf = take (S_InEnd S) (S_InputBuff S) @ d @ drop (S_InEnd S + length d) (S_InputBuff S)"
  have ok: "stream_ok S" using assms(1) by (simp add: readable_def)
  then have p: "poke (S_InEnd S) d (S_InputBuff S) = Some buf" using assms(3) by (simp add: poke_def buf_def stream_ok_def)
  let ?S = "S\<lparr>S_InputBuff := buf, S_InEnd := S_InEnd S + length d\<rparr>"
  have "STREAMReadThroughProcessors d (int (length d)) S = Some (1, ?S)"
    using assms p by (simp add: STREAMReadThroughProcessors_def readable_def peek_def Let_def)
  moreover have "stream_ok ?S" using ok assms(3) by (auto simp: stream_ok_def buf_def)
  moreover have "inbuf ?S = inbuf S @ d"
    using ok by (auto simp: inbuf_def buf_def stream_ok_def drop_take)
  ultimately show thesis by (intro that [of ?S]) (simp_all add: same_stream_def)
qed

text \<open>
  One call of \<open>STREAMReadCharsToBuffer\<close>: a full buffer stays as it is, otherwise the next input is taken.  Its
  result is 1 also when the wait timed out or was interrupted.
\<close>

definition taken :: "STREAM \<Rightarrow> int \<Rightarrow> STREAM \<Rightarrow> bool" where
  "taken S r S' \<longleftrightarrow> (case fd_in S of
       [] \<Rightarrow> r = -1 \<and> inbuf S' = inbuf S \<and> fd_in S' = [] \<and> fd_signal S' = fd_signal S
     | Bytes d # is \<Rightarrow> r = 1 \<and> fd_signal S' = fd_signal S \<and> (\<exists>n>0. (inbuf S = [] \<longrightarrow> S_BuffSize S \<le> n)
         \<and> inbuf S' = inbuf S @ take n d \<and> fd_in S' = (if length d \<le> n then is else Bytes (drop n d) # is))
     | Pause # is \<Rightarrow> r = 1 \<and> inbuf S' = inbuf S \<and> fd_in S' = is \<and> fd_signal S' = fd_signal S
     | Interrupt # is \<Rightarrow> r = 1 \<and> inbuf S' = inbuf S \<and> fd_in S' = is \<and> fd_signal S')"

lemma processors_nothing:
  "readable S \<Longrightarrow> STREAMReadThroughProcessors d 0 S = Some (1, S)"
  "readable S \<Longrightarrow> STREAMReadThroughProcessors d (-1) S = Some (-1, S)"
  by (simp_all add: STREAMReadThroughProcessors_def readable_def)

lemma fill_taken:
  assumes "readable S" "S_InEnd S < S_BuffSize S" "\<And>d is. fd_in S = Bytes d # is \<Longrightarrow> d \<noteq> []"
    "inbuf S = [] \<Longrightarrow> S_InEnd S = 0"
  obtains r S' where "ReadChars_fill S = Some (r, S')" "stream_ok S'" "same_stream S S'" "taken S r S'"
proof -
  let ?n = "S_BuffSize S - S_InEnd S"
  have w: "STREAMWaitForBytes S = (case fd_in S of Pause # is \<Rightarrow> Some (STREAM_TIMEOUT, S\<lparr>fd_in := is\<rparr>)
      | Interrupt # is \<Rightarrow> Some (STREAM_TIMEOUT, S\<lparr>fd_in := is, fd_signal := True\<rparr>) | _ \<Rightarrow> Some (1, S))"
    using assms(1) by (simp add: STREAMWaitForBytes_def readable_def)
  have ok: "stream_ok S" using assms(1) by (simp add: readable_def)
  have plain: "S_Type S \<notin> {STREAM_TYPE_WS, STREAM_TYPE_WSS, STREAM_TYPE_WS_SERVICE, STREAM_TYPE_UDP}" using assms(1) by (simp add: readable_def)
  have idle: "readable (S\<lparr>fd_in := is, fd_signal := s\<rparr>)" for "is" s
    using assms(1) by (auto simp: readable_def stream_ok_def)
  have same: "same_stream S (S\<lparr>fd_in := is, fd_signal := s\<rparr>)" "inbuf (S\<lparr>fd_in := is, fd_signal := s\<rparr>) = inbuf S"
    "stream_ok (S\<lparr>fd_in := is, fd_signal := s\<rparr>)" for "is" s
    using ok by (simp_all add: same_stream_def inbuf_def stream_ok_def)
  note goal = that
  have step: thesis if "ReadChars_fill S = Some (r, T)" "T = S\<lparr>fd_in := xs, fd_signal := s\<rparr>" "taken S r T" for r T xs s
    using goal [OF that(1) _ _ that(3)] same(1,3) unfolding that(2) by blast
  have silent: "STREAMReadThroughProcessors d 0 (S\<lparr>fd_in := xs, fd_signal := s\<rparr>) = Some (1, S\<lparr>fd_in := xs, fd_signal := s\<rparr>)"
    "STREAMReadThroughProcessors d (-1) (S\<lparr>fd_in := xs, fd_signal := s\<rparr>) = Some (-1, S\<lparr>fd_in := xs, fd_signal := s\<rparr>)" for d xs s
    by (intro processors_nothing idle)+
  show thesis
  proof (cases "fd_in S")
    case Nil
    let ?S = "S\<lparr>fd_in := [], fd_signal := fd_signal S\<rparr>"
    have "ReadChars_fill S = Some (-1, ?S)"
      using Nil w plain silent(2) [where d = "[]" and xs = "[]" and s = "fd_signal S"]
      by (simp add: ReadChars_fill_def STREAMPullBytes_def Let_def)
    moreover have "taken S (-1) ?S" using Nil same(2) by (simp add: taken_def inbuf_def)
    ultimately show thesis using step [OF _ refl] by blast
  next
    case (Cons i "is")
    show thesis
    proof (cases i)
      case (Bytes d)
      let ?d = "take ?n d" and ?is = "if length d \<le> ?n then is else Bytes (drop ?n d) # is"
      let ?S = "S\<lparr>fd_in := ?is, fd_signal := fd_signal S\<rparr>"
      have d: "?d \<noteq> []" "S_InEnd ?S + length ?d \<le> S_BuffSize ?S" "0 < ?n" using assms(2,3) Cons Bytes by auto
      obtain S' where S': "STREAMReadThroughProcessors ?d (int (length ?d)) ?S = Some (1, S')" "stream_ok S'"
        "inbuf S' = inbuf ?S @ ?d" "same_stream ?S S'" "fd_in S' = fd_in ?S" "fd_signal S' = fd_signal ?S"
        using processors_append [OF idle d(1,2)] by metis
      have "ReadChars_fill S = Some (1, S')"
        using Cons Bytes w plain S'(1) d(1) by (simp add: ReadChars_fill_def STREAMPullBytes_def Let_def Suc_le_eq)
      moreover have "same_stream S S'" using same(1) S'(4) same_stream_trans by blast
      moreover have "inbuf S' = inbuf S @ ?d" "fd_in S' = ?is" "fd_signal S' = fd_signal S"
        using S'(3,5,6) same(2) [of "fd_signal S" ?is] by simp_all
      then have "taken S 1 S'" using d(3) assms(4) Cons Bytes unfolding taken_def
        by (simp only: list.case input.case) (intro conjI refl exI [of _ ?n]; simp)
      ultimately show thesis using that S'(2) by blast
    next
      case Pause
      let ?S = "S\<lparr>fd_in := is, fd_signal := fd_signal S\<rparr>"
      have "ReadChars_fill S = Some (1, ?S)"
        using Cons Pause w plain silent(1) [where d = "[]" and xs = "is" and s = "fd_signal S"]
        by (simp add: ReadChars_fill_def STREAM_TIMEOUT_def Let_def)
      moreover have "taken S 1 ?S" using Cons Pause by (simp add: taken_def inbuf_def)
      ultimately show thesis using step [OF _ refl] by blast
    next
      case Interrupt
      let ?S = "S\<lparr>fd_in := is, fd_signal := True\<rparr>"
      have "ReadChars_fill S = Some (1, ?S)"
        using Cons Interrupt w plain silent(1) [where d = "[]" and xs = "is" and s = True]
        by (simp add: ReadChars_fill_def STREAM_TIMEOUT_def Let_def)
      moreover have "taken S 1 ?S" using Cons Interrupt by (simp add: taken_def inbuf_def)
      ultimately show thesis using step [OF _ refl] by blast
    qed
  qed
qed

lemma STREAMReadCharsToBuffer_step:
  assumes "readable S" "length (inbuf S) < S_BuffSize S" "\<And>d is. fd_in S = Bytes d # is \<Longrightarrow> d \<noteq> []"
  obtains r S' where "STREAMReadCharsToBuffer S = Some (r, S')" "readable S'" "same_stream S S'" "taken S r S'"
proof -
  have ok: "stream_ok S" using assms(1) by (simp add: readable_def)
  obtain T where T: "ReadChars_compact S = Some T" "stream_ok T" "inbuf T = inbuf S" "same_stream S T"
    "fd_in T = fd_in S" "fd_signal T = fd_signal S" "S_InEnd T \<ge> S_BuffSize T \<longleftrightarrow> length (inbuf S) = S_BuffSize S"
    "inbuf S = [] \<Longrightarrow> S_InEnd T = 0"
    using compact_ok [OF ok] by metis
  have "readable T" "S_InEnd T < S_BuffSize T" using readable_same [OF assms(1) T(4,2)] T(7) assms(2) by auto
  then obtain r S' where S': "ReadChars_fill T = Some (r, S')" "stream_ok S'" "same_stream T S'" "taken T r S'"
    using fill_taken [of T] assms(3) T(3,5,8) by metis
  have "STREAMReadCharsToBuffer S = Some (r, S')"
    using assms(1) T(1) S'(1) \<open>S_InEnd T < S_BuffSize T\<close> by (simp add: STREAMReadCharsToBuffer_def readable_def)
  moreover have "same_stream S S'" using T(4) S'(3) same_stream_trans by blast
  moreover have bs: "S_BuffSize T = S_BuffSize S" using T(4) by (simp add: same_stream_def)
  have "taken S r S'" using S'(4) unfolding taken_def T(3,5,6) bs .
  ultimately show thesis using that readable_same [OF assms(1) _ S'(2)] by blast
qed

lemma STREAMTransferBytesOut_take:
  assumes "stream_ok S"
  obtains S' where "STREAMTransferBytesOut n S = Some (take n (inbuf S), S')" "stream_ok S'" "inbuf S' = drop n (inbuf S)"
    "same_stream S S'" "fd_in S' = fd_in S" "fd_signal S' = fd_signal S"
proof (cases "min (S_InEnd S - S_InStart S) n < 1")
  case True
  then have "take n (inbuf S) = []" "drop n (inbuf S) = inbuf S"
    using inbuf_length [OF assms] by (auto simp: min_def split: if_split_asm)
  with True assms show thesis by (intro that [of S]) (auto simp: STREAMTransferBytesOut_def same_stream_def)
next
  case False
  let ?k = "min (S_InEnd S - S_InStart S) n"
  let ?S = "S\<lparr>S_InStart := S_InStart S + ?k\<rparr>"
  have "peek (S_InStart S) ?k (S_InputBuff S) = Some (take n (inbuf S))"
    using assms by (auto simp: peek_def inbuf_def stream_ok_def min.commute)
  then have "STREAMTransferBytesOut n S = Some (take n (inbuf S), ?S)"
    unfolding STREAMTransferBytesOut_def Let_def by (simp only: False if_False) simp
  moreover have "stream_ok ?S" using assms by (auto simp: stream_ok_def)
  moreover have "inbuf ?S = drop n (inbuf S)"
    using assms by (auto simp: inbuf_def stream_ok_def drop_take min_def add.commute)
  ultimately show thesis by (intro that [of ?S]) (simp_all add: same_stream_def)
qed



section \<open>Reading to a terminator\<close>

lemma ReadToTerminator_step:
  assumes "stream_ok S"
  shows "ReadToTerminator_loop t acc c S =
    (if inbuf S = [] \<and> c then Some (if acc = [] then None else Some acc, S)
     else if t \<in> set (inbuf S)
     then do { (d, S) \<leftarrow> STREAMTransferBytesOut (Suc (length (takeWhile (\<lambda>x. x \<noteq> t) (inbuf S)))) S; Some (Some (acc @ d), S) }
     else if inbuf S \<noteq> [] \<and> (c \<or> S_InStart S = 0 \<and> S_InEnd S \<ge> S_BuffSize S)
     then do { (d, S) \<leftarrow> STREAMTransferBytesOut (length (inbuf S)) S; ReadToTerminator_loop t (acc @ d) c S }
     else do { (r, S) \<leftarrow> STREAMReadCharsToBuffer S;
               if r = STREAM_CLOSED then ReadToTerminator_loop t acc True S
               else if r = STREAM_TIMEOUT then Some (Some acc, S) else ReadToTerminator_loop t acc c S })"
proof -
  have a: "S_InEnd S - S_InStart S = length (inbuf S)" using assms by simp
  have z: "length (inbuf S) = 0 \<longleftrightarrow> inbuf S = []" by simp
  show ?thesis
    by (subst ReadToTerminator_loop.simps)
      (use peek_inbuf [OF assms] in \<open>auto simp: a Let_def simp del: inbuf_length\<close>)
qed

text \<open>The buffer \<open>b\<close> and the inputs \<open>is\<close> of the theory \<open>World\<close>: there a chunk may have been moved to the buffer whole
  of which \<open>STREAMReadCharsToBuffer\<close> has only taken the part that had room.\<close>

definition ahead :: "STREAM \<Rightarrow> string \<Rightarrow> input list \<Rightarrow> bool" where
  "ahead S b is \<longleftrightarrow> (\<exists>e. b = inbuf S @ e \<and> fd_in S = (if e = [] then is else Bytes e # is))"

definition chunks :: "STREAM \<Rightarrow> bool" where "chunks S \<longleftrightarrow> Bytes [] \<notin> set (fd_in S)"

lemma ahead_exact: "ahead S (inbuf S) (fd_in S)"
  by (auto simp: ahead_def)

text \<open>The inputs after one read, and what the reading functions of \<open>World\<close> have in the buffer then.\<close>

lemma taken_chunks: "taken S r S' \<Longrightarrow> chunks S \<Longrightarrow> chunks S'"
  by (auto simp: taken_def chunks_def split: list.splits input.splits if_splits)

definition fd_size :: "STREAM \<Rightarrow> nat" where "fd_size S = stream_size [] (fd_in S)"

lemma taken_size: "taken S r S' \<Longrightarrow> fd_in S \<noteq> [] \<Longrightarrow> fd_size S' < fd_size S"
  by (auto simp: taken_def fd_size_def stream_size_def input_size_def split: list.splits input.splits if_splits)

lemma taken_cases [consumes 3, case_names closed more chunk pause signal]:
  assumes "taken S r S'" "ahead S b is" "chunks S"
  obtains "r = -1" "is = []" "b = inbuf S" "inbuf S' = inbuf S" "fd_in S = []" "fd_in S' = []" "fd_signal S' = fd_signal S"
  | "r = 1" "fd_in S \<noteq> []" "ahead S' b is" "fd_signal S' = fd_signal S" "inbuf S' \<noteq> []"
  | d is' where "r = 1" "fd_in S \<noteq> []" "is = Bytes d # is'" "ahead S' (b @ d) is'" "fd_signal S' = fd_signal S" "b = inbuf S" "inbuf S' \<noteq> []"
  | is' where "r = 1" "fd_in S \<noteq> []" "is = Pause # is'" "ahead S' b is'" "fd_signal S' = fd_signal S" "b = inbuf S" "inbuf S' = inbuf S"
  | is' where "r = 1" "fd_in S \<noteq> []" "is = Interrupt # is'" "ahead S' b is'" "fd_signal S'" "b = inbuf S" "inbuf S' = inbuf S"
proof -
  obtain e where e: "b = inbuf S @ e" "fd_in S = (if e = [] then is else Bytes e # is)" using assms(2) by (auto simp: ahead_def)
  show thesis
  proof (cases "fd_in S")
    case Nil
    then show thesis using assms(1) e by (intro that(1)) (auto simp: taken_def split: if_split_asm)
  next
    case (Cons i is1)
    show thesis
    proof (cases i)
      case (Bytes d)
      obtain n where n: "r = 1" "fd_signal S' = fd_signal S" "inbuf S' = inbuf S @ take n d"
        "fd_in S' = (if length d \<le> n then is1 else Bytes (drop n d) # is1)" "0 < n"
        using assms(1) Cons Bytes by (auto simp: taken_def)
      have ne: "inbuf S' \<noteq> []" using n(3,5) assms(3) Cons Bytes by (auto simp: chunks_def)
      have ah: "ahead S' (inbuf S @ d) is1"
        unfolding ahead_def using n(3,4) by (intro exI [of _ "drop n d"]) simp
      show thesis
      proof (cases "e = []")
        case True
        with e n(1,2) ah ne Cons Bytes show thesis by (intro that(3) [of d is1]) auto
      next
        case False
        with e n(1,2) ah ne Cons Bytes show thesis by (intro that(2)) auto
      qed
    next
      case Pause
      then have e0: "e = []" using e(2) Cons by (simp split: if_split_asm)
      have t: "r = 1" "inbuf S' = inbuf S" "fd_in S' = is1" "fd_signal S' = fd_signal S" using assms(1) Cons Pause by (simp_all add: taken_def)
      have "ahead S' b is1" using t(2,3) e(1) e0 unfolding ahead_def by (intro exI [of _ "[]"]) simp
      then show thesis using t e e0 Cons Pause by (intro that(4) [of is1]) auto
    next
      case Interrupt
      then have e0: "e = []" using e(2) Cons by (simp split: if_split_asm)
      have t: "r = 1" "inbuf S' = inbuf S" "fd_in S' = is1" "fd_signal S'" using assms(1) Cons Interrupt by (simp_all add: taken_def)
      have "ahead S' b is1" using t(2,3) e(1) e0 unfolding ahead_def by (intro exI [of _ "[]"]) simp
      then show thesis using t e e0 Cons Interrupt by (intro that(5) [of is1]) auto
    qed
  qed
qed

lemma ReadToTerminator_closed:
  assumes "stream_ok S" "t \<notin> set (inbuf S)"
  shows "\<exists>S'. ReadToTerminator_loop t acc True S = Some (if acc @ inbuf S = [] then None else Some (acc @ inbuf S), S')
    \<and> stream_ok S' \<and> same_stream S S' \<and> inbuf S' = [] \<and> fd_in S' = fd_in S \<and> fd_signal S' = fd_signal S"
proof (cases "inbuf S = []")
  case True
  then show ?thesis using assms(1) by (intro exI [of _ S]) (simp add: ReadToTerminator_step same_stream_def)
next
  case False
  obtain T where T: "STREAMTransferBytesOut (length (inbuf S)) S = Some (take (length (inbuf S)) (inbuf S), T)" "stream_ok T"
    "inbuf T = drop (length (inbuf S)) (inbuf S)" "same_stream S T" "fd_in T = fd_in S" "fd_signal T = fd_signal S"
    using STREAMTransferBytesOut_take [OF assms(1)] by metis
  have "ReadToTerminator_loop t acc True S = ReadToTerminator_loop t (acc @ inbuf S) True T"
    using False assms T(1) by (simp add: ReadToTerminator_step [of S] del: inbuf_length)
  also have "\<dots> = Some (Some (acc @ inbuf S), T)"
    using T(2,3) False by (simp add: ReadToTerminator_step del: inbuf_length)
  finally show ?thesis using T False by auto
qed

definition same_result :: "'a \<Rightarrow> STREAM \<Rightarrow> bool \<Rightarrow> 'a \<times> string \<times> input list \<times> bool \<Rightarrow> bool" where
  "same_result r S' s x \<longleftrightarrow> (case x of (r', b', is', s') \<Rightarrow> r = r' \<and> ahead S' b' is' \<and> fd_signal S' = (s \<or> s'))"

lemma takeWhile_found: "t \<in> set b \<Longrightarrow> take (Suc (length (takeWhile (\<lambda>x. x \<noteq> t) b))) b = takeWhile (\<lambda>x. x \<noteq> t) b @ [t]"
  "t \<in> set b \<Longrightarrow> drop (Suc (length (takeWhile (\<lambda>x. x \<noteq> t) b))) b = drop 1 (dropWhile (\<lambda>x. x \<noteq> t) b)"
  by (induction b) auto

lemma read_to_terminator_found:
  assumes "t \<notin> set acc" "t \<in> set b"
  shows "read_to_terminator t (acc @ b @ e) is =
    (Some (acc @ takeWhile (\<lambda>x. x \<noteq> t) b @ [t]), drop 1 (dropWhile (\<lambda>x. x \<noteq> t) b) @ e, is, False)"
proof -
  have "takeWhile (\<lambda>x. x \<noteq> t) (acc @ b @ e) = acc @ takeWhile (\<lambda>x. x \<noteq> t) b"
    "dropWhile (\<lambda>x. x \<noteq> t) (acc @ b @ e) = dropWhile (\<lambda>x. x \<noteq> t) b @ e"
    using assms by (auto simp: takeWhile_append dropWhile_append)
  moreover obtain y ys where "dropWhile (\<lambda>x. x \<noteq> t) b = y # ys"
    using assms(2) by (cases "dropWhile (\<lambda>x. x \<noteq> t) b") (auto simp: dropWhile_eq_Nil_conv)
  ultimately show ?thesis using assms(2) by (cases "is") auto
qed

lemma ReadToTerminator_loop_refines:
  assumes "readable S" "chunks S" "ahead S b is" "t \<notin> set acc"
  shows "\<exists>r S'. ReadToTerminator_loop t acc False S = Some (r, S') \<and> readable S' \<and> chunks S'
    \<and> same_result r S' (fd_signal S) (read_to_terminator t (acc @ b) is)"
  using assms
proof (induction "2 * fd_size S + (if inbuf S = [] then 0 else 1)" arbitrary: S b "is" acc rule: less_induct)
  case less
  have ok: "stream_ok S" using less.prems(1) by (simp add: readable_def)
  obtain e where e: "b = inbuf S @ e" "fd_in S = (if e = [] then is else Bytes e # is)"
    using less.prems(3) by (auto simp: ahead_def)
  consider "t \<in> set (inbuf S)" | "t \<notin> set (inbuf S)" "inbuf S \<noteq> []" "S_InStart S = 0 \<and> S_InEnd S \<ge> S_BuffSize S"
    | "t \<notin> set (inbuf S)" "\<not> (inbuf S \<noteq> [] \<and> S_InStart S = 0 \<and> S_InEnd S \<ge> S_BuffSize S)" by blast
  then show ?case
  proof cases
    case 1
    let ?n = "Suc (length (takeWhile (\<lambda>x. x \<noteq> t) (inbuf S)))"
    obtain T where T: "STREAMTransferBytesOut ?n S = Some (take ?n (inbuf S), T)" "stream_ok T"
      "inbuf T = drop ?n (inbuf S)" "same_stream S T" "fd_in T = fd_in S" "fd_signal T = fd_signal S"
      using STREAMTransferBytesOut_take [OF ok] by metis
    have "ReadToTerminator_loop t acc False S = Some (Some (acc @ take ?n (inbuf S)), T)"
      using 1 T(1) by (auto simp: ReadToTerminator_step [OF ok])
    moreover have "ahead T (drop ?n (inbuf S) @ e) is" using e(2) T(3,5) by (auto simp: ahead_def)
    ultimately show ?thesis
      using T readable_same [OF less.prems(1) T(4,2)] less.prems(2) e(1)
        read_to_terminator_found [OF less.prems(4) 1, of e "is"] takeWhile_found [OF 1]
      by (auto simp: same_result_def chunks_def)
  next
    case 2
    let ?n = "length (inbuf S)"
    obtain T where T: "STREAMTransferBytesOut ?n S = Some (take ?n (inbuf S), T)" "stream_ok T"
      "inbuf T = drop ?n (inbuf S)" "same_stream S T" "fd_in T = fd_in S" "fd_signal T = fd_signal S"
      using STREAMTransferBytesOut_take [OF ok] by metis
    have s: "ReadToTerminator_loop t acc False S = ReadToTerminator_loop t (acc @ inbuf S) False T"
      using 2 T(1) by (simp add: ReadToTerminator_step [OF ok] del: inbuf_length)
    have "\<exists>r S'. ReadToTerminator_loop t (acc @ inbuf S) False T = Some (r, S') \<and> readable S' \<and> chunks S'
      \<and> same_result r S' (fd_signal T) (read_to_terminator t ((acc @ inbuf S) @ e) is)"
    proof (rule less.hyps)
      show "2 * fd_size T + (if inbuf T = [] then 0 else 1) < 2 * fd_size S + (if inbuf S = [] then 0 else 1)"
        using T(3,5) 2(2) by (simp add: fd_size_def)
      show "readable T" using readable_same [OF less.prems(1) T(4,2)] .
      show "chunks T" "ahead T e is" using T(3,5) less.prems(2) e(2) by (auto simp: chunks_def ahead_def)
      show "t \<notin> set (acc @ inbuf S)" using 2(1) less.prems(4) by simp
    qed
    then show ?thesis using s e(1) T(6) by simp
  next
    case 3
    have "length (inbuf S) < S_BuffSize S"
      using 3(2) ok inbuf_length [OF ok] by (cases "inbuf S = []") (auto simp: stream_ok_def simp del: inbuf_length)
    moreover have "\<And>d is. fd_in S = Bytes d # is \<Longrightarrow> d \<noteq> []" using less.prems(2) by (auto simp: chunks_def)
    ultimately obtain r T where T: "STREAMReadCharsToBuffer S = Some (r, T)" "readable T" "same_stream S T" "taken S r T"
      using STREAMReadCharsToBuffer_step [OF less.prems(1)] by metis
    have s: "ReadToTerminator_loop t acc False S = (if r = -1 then ReadToTerminator_loop t acc True T
        else if r = 0 then Some (Some acc, T) else ReadToTerminator_loop t acc False T)"
      using 3 T(1) by (auto simp: ReadToTerminator_step [OF ok] STREAM_CLOSED_def STREAM_TIMEOUT_def)
    have small: "2 * fd_size T + (if inbuf T = [] then 0 else 1) < 2 * fd_size S + (if inbuf S = [] then 0 else 1)"
      if "fd_in S \<noteq> []" using taken_size [OF T(4) that] by auto
    note IH = less.hyps [OF small T(2) taken_chunks [OF T(4) less.prems(2)] _ less.prems(4)]
    show ?thesis using T(4) less.prems(3,2)
    proof (cases rule: taken_cases)
      case closed
      obtain S' where S': "ReadToTerminator_loop t acc True T = Some (if acc @ inbuf T = [] then None else Some (acc @ inbuf T), S')"
        "stream_ok S'" "same_stream T S'" "inbuf S' = []" "fd_in S' = fd_in T" "fd_signal S' = fd_signal T"
        using ReadToTerminator_closed [of T t acc] T(2) 3(1) closed(4) by (auto simp: readable_def)
      have "read_to_terminator t (acc @ b) [] = (if acc @ b = [] then None else Some (acc @ b), [], [], False)"
        using 3(1) less.prems(4) closed(3) by simp
      then show ?thesis
        using s S' closed readable_same [OF T(2) S'(3,2)] by (auto simp: same_result_def ahead_def chunks_def)
    next
      case more
      then show ?thesis using s IH [of b "is"] by simp
    next
      case (chunk d is')
      have "read_to_terminator t (acc @ b) is = read_to_terminator t (acc @ b @ d) is'"
        using chunk(3,6) 3(1) less.prems(4) by simp
      then show ?thesis using chunk s IH [of "b @ d" is'] by simp
    next
      case (pause is')
      have "read_to_terminator t (acc @ b) is = read_to_terminator t (acc @ b) is'"
        using pause(3,6) 3(1) less.prems(4) by simp
      then show ?thesis using pause s IH [of b is'] by simp
    next
      case (signal is')
      obtain x y z u where x: "read_to_terminator t (acc @ b) is' = (x, y, z, u)" by (metis prod_cases4)
      have "read_to_terminator t (acc @ b) is = (x, y, z, True)"
        using signal(3,6) 3(1) less.prems(4) x by simp
      then show ?thesis using signal s IH [of b is'] x by (auto simp: same_result_def)
    qed
  qed
qed

section \<open>Reading bytes\<close>

definition stream_left :: "STREAM \<Rightarrow> string" where "stream_left S = inbuf S @ unread (fd_in S)"

definition left_size :: "STREAM \<Rightarrow> nat" where "left_size S = length (inbuf S) + fd_size S"

lemma taken_left: "taken S r S' \<Longrightarrow> stream_left S' = stream_left S"
  by (auto simp: taken_def stream_left_def split: list.splits input.splits if_splits)

lemma taken_left_size: "taken S r S' \<Longrightarrow> left_size S' \<le> left_size S"
  by (auto simp: taken_def left_size_def fd_size_def stream_size_def input_size_def split: list.splits input.splits if_splits)

text \<open>
  One round of \<open>STREAMReadMessage\<close>: the buffer is filled if it is empty, and the loop ends there if the
  stream is closed; otherwise what there is goes to the caller.
\<close>

definition filled :: "STREAM \<Rightarrow> STREAM \<Rightarrow> bool" where
  "filled S T \<longleftrightarrow> (inbuf S \<noteq> [] \<and> T = S) \<or> (inbuf S = [] \<and> fd_in S \<noteq> [] \<and> taken S 1 T)"

lemma ReadMessage_round:
  assumes "readable S" "chunks S" "length B < n"
  obtains (closed) S' where "inbuf S = []" "fd_in S = []" "ReadMessage_loop poll n st B S = Some (-1, B, S')"
      "readable S'" "inbuf S' = []" "fd_in S' = []" "fd_signal S' = fd_signal S"
  | (more) T S' where "filled S T" "readable S'" "chunks S'" "inbuf S' = drop (n - length B) (inbuf T)"
      "fd_in S' = fd_in T" "fd_signal S' = fd_signal T" "let st' = (if inbuf S = [] then STREAM_BYTES_READ else st); B' = B @ take (n - length B) (inbuf T) in
       ReadMessage_loop poll n st B S = (if \<not> poll (fd_in T) then Some (st', B', S') else ReadMessage_loop poll n st' B' S')"
proof (cases "inbuf S = []")
  case False
  have ok: "stream_ok S" using assms(1) by (simp add: readable_def)
  obtain S' where S': "STREAMTransferBytesOut (n - length B) S = Some (take (n - length B) (inbuf S), S')" "stream_ok S'"
    "inbuf S' = drop (n - length B) (inbuf S)" "same_stream S S'" "fd_in S' = fd_in S" "fd_signal S' = fd_signal S"
    using STREAMTransferBytesOut_take [OF ok] by metis
  have "\<not> S_InEnd S \<le> S_InStart S" using False inbuf_length [OF ok] by (auto simp del: inbuf_length)
  then have "ReadMessage_loop poll n st B S = (if \<not> poll (fd_in S) then Some (st, B @ take (n - length B) (inbuf S), S')
      else ReadMessage_loop poll n st (B @ take (n - length B) (inbuf S)) S')"
    using assms(3) S'(1,5) by (subst ReadMessage_loop.simps) simp
  with False S' readable_same [OF assms(1) S'(4,2)] assms(2) show thesis
    by (intro more [of S S']) (simp_all add: filled_def chunks_def)
next
  case True
  have ok: "stream_ok S" using assms(1) by (simp add: readable_def)
  have e: "S_InEnd S \<le> S_InStart S" using True inbuf_length [OF ok] by (auto simp del: inbuf_length)
  have "length (inbuf S) < S_BuffSize S" using True ok by (simp add: stream_ok_def del: inbuf_length)
  moreover have "\<And>d is. fd_in S = Bytes d # is \<Longrightarrow> d \<noteq> []" using assms(2) by (auto simp: chunks_def)
  ultimately obtain r T where T: "STREAMReadCharsToBuffer S = Some (r, T)" "readable T" "same_stream S T" "taken S r T"
    using STREAMReadCharsToBuffer_step [OF assms(1)] by metis
  show thesis
  proof (cases "fd_in S = []")
    case True
    then have r: "r = -1" "inbuf T = inbuf S" "fd_in T = []" "fd_signal T = fd_signal S" using T(4) by (simp_all add: taken_def)
    have "ReadMessage_loop poll n st B S = Some (-1, B, T)"
      using assms(3) e T(1) r(1) by (subst ReadMessage_loop.simps) simp
    with True \<open>inbuf S = []\<close> r T(2) show thesis by (intro closed [of T]) simp_all
  next
    case False
    then have r: "r = 1" using T(4) by (auto simp: taken_def split: list.splits input.splits)
    obtain S' where S': "STREAMTransferBytesOut (n - length B) T = Some (take (n - length B) (inbuf T), S')" "stream_ok S'"
      "inbuf S' = drop (n - length B) (inbuf T)" "same_stream T S'" "fd_in S' = fd_in T" "fd_signal S' = fd_signal T"
      using STREAMTransferBytesOut_take T(2) by (metis readable_def)
    have "ReadMessage_loop poll n st B S = (if \<not> poll (fd_in T) then Some (STREAM_BYTES_READ, B @ take (n - length B) (inbuf T), S')
        else ReadMessage_loop poll n STREAM_BYTES_READ (B @ take (n - length B) (inbuf T)) S')"
      using assms(3) e T(1) r S'(1,5) by (subst ReadMessage_loop.simps) simp
    with False True S' readable_same [OF T(2) S'(4,2)] taken_chunks [OF T(4) assms(2)] T(4) r show thesis
      by (intro more [of T S']) (simp_all add: filled_def chunks_def)
  qed
qed

lemma filled_left: "filled S T \<Longrightarrow> stream_left T = stream_left S"
  using taken_left by (auto simp: filled_def)

lemma filled_shrinks: "filled S T \<Longrightarrow> chunks S \<Longrightarrow> 0 < k \<Longrightarrow> length (drop k (inbuf T)) + fd_size T < left_size S"
  by (auto simp: filled_def taken_def chunks_def left_size_def fd_size_def stream_size_def input_size_def
      split: list.splits input.splits if_splits)

lemma ReadMessage_loop_keeps:
  assumes "readable S" "chunks S" "length B \<le> n"
  shows "\<exists>st' d S'. ReadMessage_loop poll n st B S = Some (st', B @ d, S') \<and> length (B @ d) \<le> n \<and> readable S' \<and> chunks S'
    \<and> d @ stream_left S' = stream_left S \<and> (st' = st \<or> st' = STREAM_BYTES_READ \<or> st' = STREAM_CLOSED \<and> stream_left S' = [])"
  using assms
proof (induction "left_size S" arbitrary: S B st rule: less_induct)
  case less
  show ?case
  proof (cases "length B < n")
    case False
    with less.prems show ?thesis by (subst ReadMessage_loop.simps) (auto intro!: exI [of _ "[]"])
  next
    case True
    show ?thesis using less.prems(1,2) True
    proof (cases rule: ReadMessage_round [where poll = poll and st = st])
      case (closed S')
      then show ?thesis using less.prems(3)
        by (auto simp: stream_left_def chunks_def STREAM_CLOSED_def intro!: exI [of _ "[]"])
    next
      case (more T S')
      let ?d = "take (n - length B) (inbuf T)" and ?st = "if inbuf S = [] then STREAM_BYTES_READ else st"
      have left: "?d @ stream_left S' = stream_left S"
        unfolding stream_left_def more(4,5) append_assoc [symmetric] append_take_drop_id
        using filled_left [OF more(1)] by (simp add: stream_left_def)
      have small: "left_size S' < left_size S"
        using filled_shrinks [OF more(1) less.prems(2), of "n - length B"] True more(4,5) by (simp add: left_size_def fd_size_def)
      have len: "length (B @ ?d) \<le> n" using less.prems(3) by simp
      show ?thesis
      proof (cases "poll (fd_in T)")
        case False
        with more(7) left len more(2,3) show ?thesis by (intro exI [of _ ?st] exI [of _ ?d] exI [of _ S']) (simp add: Let_def)
      next
        case poll: True
        obtain st' d S'' where IH: "ReadMessage_loop poll n ?st (B @ ?d) S' = Some (st', (B @ ?d) @ d, S'')"
          "length ((B @ ?d) @ d) \<le> n" "readable S''" "chunks S''" "d @ stream_left S'' = stream_left S'"
          "st' = ?st \<or> st' = STREAM_BYTES_READ \<or> st' = STREAM_CLOSED \<and> stream_left S'' = []"
          using less.hyps [OF small more(2,3) len, of ?st] by blast
        have run: "ReadMessage_loop poll n st B S = Some (st', B @ ?d @ d, S'')"
          using more(7) poll IH(1) by (simp add: Let_def)
        have "(?d @ d) @ stream_left S'' = stream_left S" using IH(5) left by simp
        moreover have "st' = st \<or> st' = STREAM_BYTES_READ \<or> st' = STREAM_CLOSED \<and> stream_left S'' = []" using IH(6) by (auto split: if_split_asm)
        ultimately show ?thesis using run IH(2,3,4) by (intro exI [of _ st'] exI [of _ "?d @ d"] exI [of _ S'']) simp
      qed
    qed
  qed
qed

lemma StreamReadBytes_keeps:
  assumes "readable S" "chunks S" "0 < n"
  shows "\<exists>r d S'. StreamReadBytes poll n S = Some (r, d, S') \<and> length d \<le> n \<and> d @ stream_left S' = stream_left S
    \<and> (d \<noteq> [] \<longrightarrow> r = int (length d)) \<and> (r = STREAM_CLOSED \<longrightarrow> stream_left S = []) \<and> readable S' \<and> chunks S'"
proof -
  obtain st d S' where "ReadMessage_loop poll n STREAM_NODATA [] S = Some (st, [] @ d, S')" "length ([] @ d) \<le> n" "readable S'" "chunks S'"
    "d @ stream_left S' = stream_left S" "st = STREAM_NODATA \<or> st = STREAM_BYTES_READ \<or> st = STREAM_CLOSED \<and> stream_left S' = []"
    using ReadMessage_loop_keeps [OF assms(1,2), of "[]" n poll STREAM_NODATA] by auto
  then show ?thesis
    by (auto simp: StreamReadBytes_def STREAMReadMessage_def STREAM_NODATA_def STREAM_CLOSED_def STREAM_BYTES_READ_def)
qed

section \<open>Reading one character after the other\<close>

lemma StreamReadBytes_once:
  assumes "readable S" "chunks S" "0 < n" "\<And>xs. \<not> poll xs"
  obtains (closed) S' where "inbuf S = []" "fd_in S = []" "StreamReadBytes poll n S = Some (STREAM_CLOSED, [], S')"
      "readable S'" "inbuf S' = []" "fd_in S' = []" "fd_signal S' = fd_signal S"
  | (more) T S' where "filled S T" "StreamReadBytes poll n S = Some (int (length (take n (inbuf T))), take n (inbuf T), S')"
      "readable S'" "chunks S'" "inbuf S' = drop n (inbuf T)" "fd_in S' = fd_in T" "fd_signal S' = fd_signal T"
proof -
  have "length [] < n" using assms(3) by simp
  with assms(1,2) show thesis
  proof (cases rule: ReadMessage_round [where poll = poll and st = STREAM_NODATA])
    case (closed S')
    then show thesis
      by (intro that(1) [of S']) (simp_all add: StreamReadBytes_def STREAMReadMessage_def STREAM_CLOSED_def STREAM_BYTES_READ_def)
  next
    case (more T S')
    then have "ReadMessage_loop poll n STREAM_NODATA [] S = Some (if inbuf S = [] then STREAM_BYTES_READ else STREAM_NODATA, take n (inbuf T), S')"
      using assms(4) by (simp add: Let_def)
    then have "StreamReadBytes poll n S = Some (int (length (take n (inbuf T))), take n (inbuf T), S')"
      using more(1) assms(3) by (auto simp: StreamReadBytes_def STREAMReadMessage_def filled_def STREAM_BYTES_READ_def STREAM_NODATA_def)
    with more show thesis by (intro that(2) [of T S']) simp_all
  qed
qed

lemma STREAMReadChar_cases:
  assumes "readable S" "chunks S" "\<And>xs. \<not> poll xs"
  obtains (closed) S' where "inbuf S = []" "fd_in S = []" "STREAMReadChar poll S = Some (STREAM_CLOSED, S')"
      "readable S'" "inbuf S' = []" "fd_in S' = []" "fd_signal S' = fd_signal S"
  | (idle) T S' where "filled S T" "inbuf T = []" "STREAMReadChar poll S = Some (STREAM_NODATA, S')" "readable S'" "chunks S'"
      "inbuf S' = []" "fd_in S' = fd_in T" "fd_signal S' = fd_signal T"
  | (char) T c cs S' where "filled S T" "inbuf T = c # cs" "STREAMReadChar poll S = Some (of_char c, S')" "readable S'" "chunks S'"
      "inbuf S' = cs" "fd_in S' = fd_in T" "fd_signal S' = fd_signal T"
  using assms(1,2) zero_less_one assms(3)
proof (cases rule: StreamReadBytes_once [where poll = poll and n = 1])
  case (closed S')
  then show thesis by (intro that(1) [of S']) (simp_all add: STREAMReadChar_def STREAM_CLOSED_def)
next
  case (more T S')
  show thesis
  proof (cases "inbuf T")
    case Nil
    with more show thesis by (intro that(2) [of T S']) (simp_all add: STREAMReadChar_def)
  next
    case (Cons c cs)
    with more show thesis by (intro that(3) [of T c cs S']) (simp_all add: STREAMReadChar_def)
  qed
qed

lemma filled_cases [consumes 3, case_names same chunk pause signal]:
  assumes "filled S T" "ahead S b is" "chunks S"
  obtains "ahead T b is" "fd_signal T = fd_signal S" "inbuf T \<noteq> []"
  | d is' where "is = Bytes d # is'" "ahead T d is'" "fd_signal T = fd_signal S" "b = []" "inbuf T \<noteq> []"
  | is' where "is = Pause # is'" "ahead T [] is'" "fd_signal T = fd_signal S" "b = []" "inbuf T = []"
  | is' where "is = Interrupt # is'" "ahead T [] is'" "fd_signal T" "b = []" "inbuf T = []"
proof (cases "inbuf S = []")
  case False
  with assms show thesis by (intro that(1)) (auto simp: filled_def)
next
  case True
  then have "taken S 1 T" using assms(1) by (simp add: filled_def)
  then show thesis using assms(2,3)
    by (cases rule: taken_cases) (use True that in auto)
qed

lemma ahead_nil: "ahead S b is \<Longrightarrow> chunks S \<Longrightarrow> inbuf S = [] \<Longrightarrow> fd_in S = [] \<Longrightarrow> b = [] \<and> is = []"
  by (auto simp: ahead_def split: if_split_asm)

lemma read_to_multi_Cons: "read_to_multi ts acc (c # b) is =
    (if c = CHR 0x00 then read_to_multi ts acc b is
     else if c \<in> set ts then (Some (acc @ [c]), b, is, False) else read_to_multi ts (acc @ [c]) b is)"
  by (cases "is") (auto split: prod.splits input.splits)

lemma AddCharToBuffer_end: "AddCharToBuffer acc (length acc) c = acc @ [c]"
  by (simp add: AddCharToBuffer_def)

lemma of_char_zero: "(of_char c :: int) = 0 \<longleftrightarrow> c = CHR 0x00"
proof -
  have "(of_char (CHR 0x00) :: int) = 0" by simp
  then show ?thesis by (metis of_char_eq_iff)
qed

lemma of_char_pos: "c \<noteq> CHR 0x00 \<Longrightarrow> (0::int) < of_char c" "(-1::int) < of_char c"
proof -
  have "(0::int) \<le> of_char c" by (metis of_nat_of_char of_nat_0_le_iff)
  then show "c \<noteq> CHR 0x00 \<Longrightarrow> (0::int) < of_char c" "(-1::int) < of_char c" using of_char_zero [of c] by auto
qed

lemma ReadToMulti_loop_refines:
  assumes "readable S" "chunks S" "ahead S b is" "\<And>xs. \<not> poll xs"
  shows "\<exists>i r S'. ReadToMulti_loop poll ts acc S = Some (i, r, S') \<and> readable S' \<and> chunks S' \<and>
    same_result (if (i = STREAM_CLOSED \<or> i = STREAM_DATA_ERROR) \<and> r = [] then None else Some r) S' (fd_signal S) (read_to_multi ts acc b is)"
  using assms(1-3)
proof (induction "left_size S" arbitrary: S b "is" acc rule: less_induct)
  case less
  from less.prems(1,2) assms(4) show ?case
  proof (cases rule: STREAMReadChar_cases [where poll = poll])
    case (closed S')
    then have "b = []" "is = []" using ahead_nil [OF less.prems(3,2)] by simp_all
    moreover have "ReadToMulti_loop poll ts acc S = Some (STREAM_CLOSED, acc, S')"
      using closed(3) by (subst ReadToMulti_loop.simps) (simp add: STREAM_CLOSED_def)
    ultimately show ?thesis using closed by (auto simp: same_result_def ahead_def chunks_def)
  next
    case (idle T S')
    have run: "ReadToMulti_loop poll ts acc S = Some (STREAM_NODATA, acc, S')"
      using idle(3) by (subst ReadToMulti_loop.simps) (simp add: STREAM_NODATA_def)
    from idle(1) less.prems(3,2) show ?thesis
      by (cases rule: filled_cases)
        (use run idle in \<open>auto simp: same_result_def ahead_def STREAM_NODATA_def STREAM_CLOSED_def STREAM_DATA_ERROR_def\<close>)
  next
    case (char T c cs S')
    have small: "left_size S' < left_size S"
      using filled_shrinks [OF char(1) less.prems(2), of 1] char(2,6,7) by (simp add: left_size_def fd_size_def)
    have step: "ReadToMulti_loop poll ts acc S =
        (if c = CHR 0x00 then ReadToMulti_loop poll ts acc S'
         else if c \<in> set ts then Some (of_char c, acc @ [c], S') else ReadToMulti_loop poll ts (acc @ [c]) S')"
      using char(3) of_char_pos [of c]
      by (subst ReadToMulti_loop.simps) (auto simp: Let_def AddCharToBuffer_end of_char_zero)
    obtain e is' where e: "ahead S' (cs @ e) is'" "read_to_multi ts acc b is = read_to_multi ts acc (c # cs @ e) is'"
    proof -
      from char(1) less.prems(3,2) show thesis
      proof (cases rule: filled_cases)
        case same
        then obtain e where "b = c # cs @ e" "fd_in T = (if e = [] then is else Bytes e # is)" using char(2) by (auto simp: ahead_def)
        then show thesis using char(6,7) by (intro that [of e "is"]) (auto simp: ahead_def)
      next
        case (chunk d is')
        then obtain e where "d = c # cs @ e" "fd_in T = (if e = [] then is' else Bytes e # is')" using char(2) by (auto simp: ahead_def)
        then show thesis using char(6,7) chunk(1,4) by (intro that [of e is']) (auto simp: ahead_def)
      qed (use char(2) in simp_all)
    qed
    have sig: "fd_signal S' = fd_signal S"
      using char(1,2,8) by (auto simp: filled_def taken_def split: list.splits input.splits)
    note IH = less.hyps [OF small char(4,5) e(1)]
    show ?thesis
      unfolding step e(2) read_to_multi_Cons
      using IH [of acc] IH [of "acc @ [c]"] char(4,5) e(1) of_char_pos(2) [of c] sig
      by (auto simp: same_result_def STREAM_CLOSED_def STREAM_DATA_ERROR_def)
  qed
qed

lemma StreamReadToMultiTerminator_step:
  assumes "readable S" "chunks S" "ahead S b is" "\<And>xs. \<not> poll xs"
  shows "\<exists>r S'. StreamReadToMultiTerminator poll ts S = Some (r, S') \<and> readable S' \<and> chunks S'
    \<and> same_result r S' (fd_signal S) (read_to_multi ts [] b is)"
  using ReadToMulti_loop_refines [where poll = poll and ts = ts and acc = "[]", OF assms] by (auto simp: StreamReadToMultiTerminator_def)

section \<open>One read after the other\<close>

text \<open>\<open>k\<close> reads in a row, from a stream and by a reading function of the theory \<open>World\<close>.\<close>

primrec read_times :: "(STREAM \<Rightarrow> ('a \<times> STREAM) option) \<Rightarrow> nat \<Rightarrow> STREAM \<Rightarrow> ('a list \<times> STREAM) option" where
  "read_times rd 0 S = Some ([], S)"
| "read_times rd (Suc k) S = do { (r, S) \<leftarrow> rd S; (rs, S) \<leftarrow> read_times rd k S; Some (r # rs, S) }"

primrec spec_times :: "(string \<Rightarrow> input list \<Rightarrow> 'a \<times> string \<times> input list \<times> bool) \<Rightarrow> nat
    \<Rightarrow> string \<Rightarrow> input list \<Rightarrow> 'a list \<times> string \<times> input list \<times> bool" where
  "spec_times rd 0 b is = ([], b, is, False)"
| "spec_times rd (Suc k) b is = (case rd b is of (r, b, is, s) \<Rightarrow>
     (case spec_times rd k b is of (rs, b, is, s') \<Rightarrow> (r # rs, b, is, s \<or> s')))"

text \<open>
  What a reading operation of \<open>Stream.c\<close> promises: it returns, with the result of the specification, and leaves a
  stream that stands for what the specification leaves.
\<close>

locale stream_reader =
  fixes rd :: "STREAM \<Rightarrow> ('a \<times> STREAM) option"
    and spec :: "string \<Rightarrow> input list \<Rightarrow> 'a \<times> string \<times> input list \<times> bool"
  assumes refines: "readable S \<Longrightarrow> chunks S \<Longrightarrow> ahead S b is \<Longrightarrow>
    \<exists>r S'. rd S = Some (r, S') \<and> readable S' \<and> chunks S' \<and> same_result r S' (fd_signal S) (spec b is)"
begin

lemma times:
  assumes "readable S" "chunks S" "ahead S b is"
  shows "\<exists>rs S'. read_times rd k S = Some (rs, S') \<and> readable S' \<and> chunks S' \<and> same_result rs S' (fd_signal S) (spec_times spec k b is)"
  using assms
proof (induction k arbitrary: S b "is")
  case 0
  then show ?case by (simp add: same_result_def)
next
  case (Suc k)
  obtain r b1 is1 s where sp: "spec b is = (r, b1, is1, s)" by (metis prod_cases4)
  obtain S1 where S1: "rd S = Some (r, S1)" "readable S1" "chunks S1" "ahead S1 b1 is1" "fd_signal S1 = (fd_signal S \<or> s)"
    using refines [OF Suc.prems] sp by (auto simp: same_result_def)
  from Suc.IH [OF S1(2-4)] S1(1,5) sp show ?case by (auto simp: same_result_def split: prod.splits)
qed

end

interpretation line: stream_reader StreamReadLine "read_to_terminator (CHR 0x0A)"
proof
  fix S b "is"
  assume "readable S" "chunks S" "ahead S b is"
  then show "\<exists>r S'. StreamReadLine S = Some (r, S') \<and> readable S' \<and> chunks S' \<and>
      same_result r S' (fd_signal S) (read_to_terminator (CHR 0x0A) b is)"
    using ReadToTerminator_loop_refines [of S b "is" "CHR 0x0A" "[]"] by (simp add: StreamReadLine_def STREAMReadToTerminator_def)
qed

interpretation multi: stream_reader "StreamReadToMultiTerminator (\<lambda>_. False) ts" "read_to_multi ts []" for ts
  by unfold_locales (rule StreamReadToMultiTerminator_step, simp_all)


definition small_stream :: "nat \<Rightarrow> input list \<Rightarrow> STREAM" where
  "small_stream n is = STREAMSetTimeout 3000 (STREAMReAllocBuffer n STREAM_zero)\<lparr>fd_in := is\<rparr>"

lemma small_stream_readable: "0 < n \<Longrightarrow> readable (small_stream n is)"
  "inbuf (small_stream n is) = []" "fd_in (small_stream n is) = is" "fd_signal (small_stream n is) = False"
  by (simp_all add: small_stream_def readable_def stream_ok_def STREAMReAllocBuffer_def STREAM_zero_def STREAMSetTimeout_def
      resized_def inbuf_def has_flag_def)




text \<open>
  C13. \<open>STREAMReadBytes\<close> returns, whatever \<open>select\<close> answers, and loses nothing: the bytes it delivers, those left in
  the buffer and those still to arrive are together what there was before, in order.  It delivers at most
  what was asked for and says how many; the stream counts as closed only when nothing is left.
\<close>

theorem StreamReadBytes_conserves:
  assumes "readable S" "chunks S" "0 < n"
  shows "\<exists>r d S'. StreamReadBytes poll n S = Some (r, d, S') \<and> length d \<le> n
    \<and> d @ inbuf S' @ unread (fd_in S') = inbuf S @ unread (fd_in S)
    \<and> (d \<noteq> [] \<longrightarrow> r = int (length d)) \<and> (r = STREAM_CLOSED \<longrightarrow> inbuf S @ unread (fd_in S) = [])"
  using StreamReadBytes_keeps [OF assms, of poll] by (auto simp: stream_left_def)

lemma StreamReadBytes_conserves_witness:
  "\<exists>r d S'. StreamReadBytes (\<lambda>is. is \<noteq> []) 3 (small_stream 2 [Bytes ''abcd'', Pause]) = Some (r, d, S') \<and> length d \<le> 3
    \<and> d @ inbuf S' @ unread (fd_in S') = ''abcd''"
  using StreamReadBytes_conserves [of "small_stream 2 [Bytes ''abcd'', Pause]" 3 "\<lambda>is. is \<noteq> []"]
  by (auto simp: small_stream_readable chunks_def)

text \<open>
  \<open>STREAMInsertBytes\<close> does not put the bytes in front of what is unread when there is no room before it: its
  \<open>memmove\<close> has source and destination swapped.  On a buffer that is read from the start, twice as many unread
  bytes as were inserted are gone, and the same number of bytes from beyond the data follows what is left.
\<close>

theorem STREAMInsertBytes_loses:
  assumes "stream_ok S" "S_InStart S = 0" "2 * length d \<le> length (inbuf S)" "length d + length (inbuf S) \<le> S_BuffSize S"
  shows "\<exists>S' junk. STREAMInsertBytes d S = Some S' \<and> inbuf S' = d @ drop (2 * length d) (inbuf S) @ junk
    \<and> length junk = 2 * length d"
proof -
  let ?n = "length (inbuf S)" and ?l = "length d" and ?B = "S_InputBuff S"
  have n: "S_InEnd S = ?n" "length ?B = S_BuffSize S" using assms(1,2) by (simp_all add: stream_ok_def)
  have ib: "inbuf S = take ?n ?B" using assms(2) n(1) by (simp add: inbuf_def [of S] del: inbuf_length)
  define b1 where "b1 = take ?n (drop ?l ?B) @ drop ?n ?B"
  have l1: "length (take ?n (drop ?l ?B)) = ?n" using assms(4) n(2) by simp
  have mm: "memmove 0 ?l ?n ?B = Some b1"
    using assms(4) n(2) l1 unfolding memmove_def peek_def poke_def b1_def by simp
  have pk: "poke 0 d b1 = Some (d @ drop ?l b1)" using assms(3) l1 by (simp add: poke_def b1_def)
  let ?S = "S\<lparr>S_InputBuff := d @ drop ?l b1, S_InStart := 0, S_InEnd := ?l + ?n\<rparr>"
  have "STREAMInsertBytes d S = Some ?S"
    using assms(2,4) mm pk by (simp add: STREAMInsertBytes_def Let_def n(1))
  moreover have "inbuf ?S = d @ take ?n (drop ?l b1)" by (simp add: inbuf_def)
  moreover have "take ?n (drop ?l b1) = drop (2 * ?l) (inbuf S) @ take ?l (drop ?n ?B) @ take ?l (drop ?n ?B)"
  proof -
    have "drop ?l b1 = take (?n - ?l) (drop (2 * ?l) ?B) @ drop ?n ?B"
      using assms(3) l1 by (simp add: b1_def drop_take mult_2)
    moreover have "length (take (?n - ?l) (drop (2 * ?l) ?B)) = ?n - ?l" using assms(3,4) n(2) by simp
    ultimately have "take ?n (drop ?l b1) = take (?n - ?l) (drop (2 * ?l) ?B) @ take ?l (drop ?n ?B)"
      using assms(3) by simp
    moreover have "?n - ?l = (?n - 2 * ?l) + ?l" using assms(3) by simp
    then have "take (?n - ?l) (drop (2 * ?l) ?B) = take (?n - 2 * ?l) (drop (2 * ?l) ?B) @ take ?l (drop ?n ?B)"
      using assms(3) by (simp only: take_add drop_drop) simp
    moreover have "drop (2 * ?l) (inbuf S) = take (?n - 2 * ?l) (drop (2 * ?l) ?B)" by (subst ib) (rule drop_take)
    ultimately show ?thesis by simp
  qed
  moreover have "length (take ?l (drop ?n ?B)) = ?l" using assms(4) n(2) by simp
  ultimately show ?thesis by (intro exI [of _ ?S] exI [of _ "take ?l (drop ?n ?B) @ take ?l (drop ?n ?B)"]) simp
qed


lemma STREAMInsertBytes_loses_witness:
  "\<exists>S' junk. STREAMInsertBytes ''x'' (STREAMReAllocBuffer 8 STREAM_zero\<lparr>S_InputBuff := ''abcd    '', S_InEnd := 4\<rparr>) = Some S'
    \<and> inbuf S' = ''xcd'' @ junk \<and> length junk = 2"
proof -
  let ?S = "STREAMReAllocBuffer 8 STREAM_zero\<lparr>S_InputBuff := ''abcd    '', S_InEnd := 4\<rparr>"
  have "stream_ok ?S" "S_InStart ?S = 0" "inbuf ?S = ''abcd''" "S_BuffSize ?S = 8"
    by (simp_all add: stream_ok_def STREAMReAllocBuffer_def STREAM_zero_def inbuf_def has_flag_def)
  with STREAMInsertBytes_loses [of ?S "''x''"] show ?thesis by simp
qed

section \<open>Reading a document\<close>

lemma ReadMessage_loop_fresh:
  assumes "readable S" "chunks S" "length B < n" "inbuf S = []"
  shows "\<exists>st' d S'. ReadMessage_loop poll n st B S = Some (st', B @ d, S') \<and> length (B @ d) \<le> n \<and> readable S' \<and> chunks S'
    \<and> d @ stream_left S' = stream_left S
    \<and> (st' = STREAM_CLOSED \<and> stream_left S' = [] \<or> st' = STREAM_BYTES_READ \<and> left_size S' < left_size S \<and> (inbuf S' = [] \<or> length (B @ d) = n))"
  using assms
proof (induction "left_size S" arbitrary: S B st rule: less_induct)
  case less
  show ?case using less.prems(1-3)
  proof (cases rule: ReadMessage_round [where poll = poll and st = st])
    case (closed S')
    then show ?thesis using less.prems(3)
      by (auto simp: stream_left_def chunks_def STREAM_CLOSED_def intro!: exI [of _ "[]"])
  next
    case (more T S')
    let ?d = "take (n - length B) (inbuf T)"
    have left: "?d @ stream_left S' = stream_left S"
      unfolding stream_left_def more(4,5) append_assoc [symmetric] append_take_drop_id
      using filled_left [OF more(1)] by (simp add: stream_left_def)
    have small: "left_size S' < left_size S"
      using filled_shrinks [OF more(1) less.prems(2), of "n - length B"] less.prems(3) more(4,5) by (simp add: left_size_def fd_size_def)
    have len: "length (B @ ?d) \<le> n" using less.prems(3) by simp
    have rest: "inbuf S' = [] \<or> length (B @ ?d) = n" using more(4) less.prems(3) by auto
    have run: "ReadMessage_loop poll n st B S =
        (if \<not> poll (fd_in T) then Some (STREAM_BYTES_READ, B @ ?d, S') else ReadMessage_loop poll n STREAM_BYTES_READ (B @ ?d) S')"
      using more(7) less.prems(4) by (simp add: Let_def)
    show ?thesis
    proof (cases "poll (fd_in T) \<and> length (B @ ?d) < n")
      case False
      then have "ReadMessage_loop poll n st B S = Some (STREAM_BYTES_READ, B @ ?d, S')"
        using run len by (cases "poll (fd_in T)") (simp_all add: ReadMessage_loop.simps [of poll n _ "B @ ?d" S'])
      then show ?thesis using left len rest small more(2,3)
        by (intro exI [of _ STREAM_BYTES_READ] exI [of _ ?d] exI [of _ S']) simp
    next
      case True
      then have "length (B @ ?d) < n" "inbuf S' = []" using rest by auto
      from less.hyps [OF small more(2,3) this, of STREAM_BYTES_READ] obtain st' d S'' where
        IH: "ReadMessage_loop poll n STREAM_BYTES_READ (B @ ?d) S' = Some (st', (B @ ?d) @ d, S'')" "length ((B @ ?d) @ d) \<le> n"
          "readable S''" "chunks S''" "d @ stream_left S'' = stream_left S'"
          "st' = STREAM_CLOSED \<and> stream_left S'' = [] \<or>
           st' = STREAM_BYTES_READ \<and> left_size S'' < left_size S' \<and> (inbuf S'' = [] \<or> length ((B @ ?d) @ d) = n)" by blast
      have "ReadMessage_loop poll n st B S = Some (st', B @ ?d @ d, S'')" using run True IH(1) by simp
      moreover have "(?d @ d) @ stream_left S'' = stream_left S" using IH(5) left by simp
      ultimately show ?thesis using IH(2,3,4,6) small
        by (intro exI [of _ st'] exI [of _ "?d @ d"] exI [of _ S'']) auto
    qed
  qed
qed

lemma ReadDocument_loop_all:
  assumes "readable S" "chunks S" "inbuf S = [] \<or> length acc = n" "length acc \<le> n"
  shows "\<exists>S'. ReadDocument_loop poll n acc S = Some (take n (acc @ stream_left S), S') \<and> readable S'"
  using assms
proof (induction "left_size S" arbitrary: S acc rule: less_induct)
  case less
  show ?case
  proof (cases "length acc < n")
    case False
    then show ?thesis using less.prems by (subst ReadDocument_loop.simps) simp
  next
    case True
    then have fresh: "inbuf S = []" "length [] < n - length acc" using less.prems(3) by auto
    obtain st d S' where m: "ReadMessage_loop poll (n - length acc) STREAM_NODATA [] S = Some (st, [] @ d, S')"
      "length ([] @ d) \<le> n - length acc" "readable S'" "chunks S'" "d @ stream_left S' = stream_left S"
      "st = STREAM_CLOSED \<and> stream_left S' = [] \<or>
       st = STREAM_BYTES_READ \<and> left_size S' < left_size S \<and> (inbuf S' = [] \<or> length ([] @ d) = n - length acc)"
      using ReadMessage_loop_fresh [OF less.prems(1,2) fresh(2,1)] by blast
    have run: "ReadDocument_loop poll n acc S =
        (if st \<noteq> STREAM_BYTES_READ then Some (acc @ d, S') else ReadDocument_loop poll n (acc @ d) S')"
      using True m(1) by (subst ReadDocument_loop.simps) (simp add: STREAMReadMessage_def)
    have len: "length (acc @ d) \<le> n" using m(2) True by simp
    from m(6) show ?thesis
    proof
      assume "st = STREAM_CLOSED \<and> stream_left S' = []"
      then show ?thesis using run m(3,5) len by (auto simp: STREAM_CLOSED_def STREAM_BYTES_READ_def)
    next
      assume r: "st = STREAM_BYTES_READ \<and> left_size S' < left_size S \<and> (inbuf S' = [] \<or> length ([] @ d) = n - length acc)"
      then have "inbuf S' = [] \<or> length (acc @ d) = n" using True by auto
      from less.hyps [OF _ m(3,4) this len] r run m(5) show ?thesis by simp
    qed
  qed
qed

lemma read_document_unread: "fst (read_document b is) = Some (b @ unread is)"
  by (induction b "is" rule: read_document.induct) (auto split: input.splits prod.splits)

text \<open>
  C15. \<open>STREAMReadDocument\<close> on a stream that has just been opened implements its specification, whatever \<open>select\<close> answers
  and however the document arrives: it returns the whole document, up to the largest size that is set.
\<close>

theorem StreamReadDocument_refines:
  assumes "readable S" "chunks S" "inbuf S = []" "0 < n"
  shows "\<exists>S'. StreamReadDocument poll n S = Some (take n (chars (fst (read_document [] (fd_in S)))), S')"
  using ReadDocument_loop_all [OF assms(1,2), of "[]" n poll] assms(3,4)
  by (auto simp: StreamReadDocument_def read_document_unread stream_left_def chars_def)

lemma StreamReadDocument_refines_witness:
  "\<exists>S'. StreamReadDocument (\<lambda>is. False) 6 (small_stream 2 [Bytes ''abc'', Pause, Bytes ''de'', Interrupt, Bytes ''fg'']) = Some (''abcdef'', S')"
  using StreamReadDocument_refines [of "small_stream 2 [Bytes ''abc'', Pause, Bytes ''de'', Interrupt, Bytes ''fg'']" 6 "\<lambda>is. False"]
  by (auto simp: small_stream_readable chunks_def)

end
