(* ===== verification/StreamWrites.thy ===== *)
theory StreamWrites
  imports Streams
begin

text \<open>
  Writing through the output buffer of the theory \<open>Streams\<close>: \<open>delivers\<close> is the contract of the writing
  operations, the locale \<open>stream_writer\<close> what follows from it for any sequence of them.
\<close>

section \<open>The contents of the output buffer\<close>

definition outbuf :: "STREAM \<Rightarrow> string" where "outbuf S = take (S_OutEnd S) (S_OutputBuff S)"

text \<open>A stream that is open for writing, of the kind that is modelled.\<close>

definition writable :: "STREAM \<Rightarrow> bool" where
  "writable S \<longleftrightarrow> S_OutEnd S \<le> S_BuffSize S \<and> length (S_OutputBuff S) = S_BuffSize S \<and> S_StartPoint S < S_BuffSize S \<and> S_out_open S
     \<and> (has_flag (S_Flags S) FLUSH_BLOCK \<longrightarrow> 0 < S_BlockSize S)
     \<and> S_Type S \<notin> {STREAM_TYPE_WS, STREAM_TYPE_WSS, STREAM_TYPE_WS_SERVICE}
     \<and> \<not> has_flag (S_Flags S) SF_NONBLOCK \<and> \<not> has_flag (S_State S) LU_SS_SSL \<and> \<not> has_flag (S_State S) LU_SS_WRITE_ERROR"

lemma writable_length [simp]: "writable S \<Longrightarrow> length (outbuf S) = S_OutEnd S"
  by (simp add: writable_def outbuf_def)

lemma fd_update_swap: "S\<lparr>fd_results := a, fd_out := b\<rparr> = S\<lparr>fd_out := b, fd_results := a\<rparr>" for S :: STREAM
  by (rule STREAM.equality) simp_all

text \<open>How much of \<open>n\<close> bytes is written at once, and what the descriptor takes of that, if it does not fail.\<close>

definition at_once :: "nat \<Rightarrow> STREAM \<Rightarrow> nat" where
  "at_once n S = (if S_Type S = STREAM_TYPE_PIPE then min n PIPE_BUF else n)"

definition accepts :: "nat \<Rightarrow> STREAM \<Rightarrow> int" where
  "accepts n S = (case fd_results S of [] \<Rightarrow> int (at_once n S) | x # xs \<Rightarrow> x)"

lemma SendBytes_accepts: "STREAMBasicSendBytes d S =
    (if accepts (length d) S < 0 then (STREAM_CLOSED, S\<lparr>fd_results := tl (fd_results S)\<rparr>)
     else (let k = min (nat (accepts (length d) S)) (at_once (length d) S)
           in (int k, S\<lparr>fd_out := fd_out S @ take k d, fd_results := tl (fd_results S)\<rparr>)))"
  by (cases "fd_results S") (auto simp: STREAMBasicSendBytes_def accepts_def at_once_def STREAM_TIMEOUT_def Let_def fd_update_swap min_def)

lemma PushBytes_loop_step:
  assumes "peek count (n - count) (S_OutputBuff S) = Some d" "length d = n - count" "count < n" "\<not> has_flag (S_Flags S) SF_NONBLOCK"
    "k = min (nat (accepts (n - count) S)) (at_once (n - count) S)"
  shows "PushBytes_loop n count S =
    (if accepts (n - count) S < 0 then Some (STREAM_CLOSED, count, S\<lparr>fd_results := tl (fd_results S)\<rparr>)
     else PushBytes_loop n (count + k) (S\<lparr>fd_out := fd_out S @ take k d, fd_results := tl (fd_results S)\<rparr>))"
  unfolding PushBytes_loop.simps [of n count] using assms
  by (simp add: SendBytes_accepts STREAM_CLOSED_def Let_def)

lemma at_once_bounds: "at_once n S \<le> n" "0 < n \<Longrightarrow> 0 < at_once n S"
  by (simp_all add: at_once_def PIPE_BUF_def)

lemma PushBytes_loop_writes:
  assumes "writable S" "count \<le> n" "n \<le> S_OutEnd S"
  shows "\<exists>r m rs. PushBytes_loop n count S = Some (r, m, S\<lparr>fd_out := fd_out S @ take (m - count) (drop count (outbuf S)), fd_results := rs\<rparr>)
    \<and> count \<le> m \<and> m \<le> n \<and> (r = STREAM_CLOSED \<or> r = 0 \<and> m = n)"
  using assms
proof (induction "n - count + length (fd_results S)" arbitrary: S count rule: less_induct)
  case less
  show ?case
  proof (cases "count < n")
    case False
    then have "PushBytes_loop n count S = Some (0, count, S)" by (subst PushBytes_loop.simps) simp
    moreover have "S = S\<lparr>fd_out := fd_out S @ take (count - count) (drop count (outbuf S)), fd_results := fd_results S\<rparr>" by simp
    ultimately have "PushBytes_loop n count S =
        Some (0, count, S\<lparr>fd_out := fd_out S @ take (count - count) (drop count (outbuf S)), fd_results := fd_results S\<rparr>)" by (simp only:)
    with False less.prems(2) show ?thesis
      by (intro exI [of _ 0] exI [of _ count] exI [of _ "fd_results S"]) auto
  next
    case True
    let ?d = "take (n - count) (drop count (outbuf S))"
    have le: "n - count \<le> S_OutEnd S - count" using less.prems(3) by simp
    have ld: "length ?d = n - count" using writable_length [OF less.prems(1)] le by simp
    have pk: "peek count (n - count) (S_OutputBuff S) = Some ?d"
      using less.prems True le by (simp add: peek_def outbuf_def writable_def drop_take min_absorb1)
    have ne: "?d \<noteq> []" using ld True by (metis list.size(3) zero_less_diff less_numeral_extra(3))
    let ?rs = "tl (fd_results S)"
    define k where "k = min (nat (accepts (n - count) S)) (at_once (n - count) S)"
    have nb: "\<not> has_flag (S_Flags S) SF_NONBLOCK" using less.prems(1) by (simp add: writable_def)
    note run = PushBytes_loop_step [OF pk ld True nb k_def]
    show ?thesis
    proof (cases "accepts (n - count) S < 0")
      case neg: True
      then have "PushBytes_loop n count S = Some (STREAM_CLOSED, count, S\<lparr>fd_results := ?rs\<rparr>)"
        using run by simp
      with True show ?thesis by (intro exI [of _ STREAM_CLOSED] exI [of _ count] exI [of _ ?rs]) simp
    next
      case pos: False
      define T where "T = S\<lparr>fd_out := fd_out S @ take k (drop count (outbuf S)), fd_results := ?rs\<rparr>"
      have kn': "k \<le> n - count" using at_once_bounds(1) [of "n - count" S] by (simp add: k_def)
      have tk: "take k ?d = take k (drop count (outbuf S))" using kn' by (simp add: min_absorb1)
      have step: "PushBytes_loop n count S = PushBytes_loop n (count + k) T"
        using run pos unfolding tk T_def by simp
      have w: "writable T" "outbuf T = outbuf S" "S_OutEnd T = S_OutEnd S" "fd_out T = fd_out S @ take k (drop count (outbuf S))"
        using less.prems(1) by (simp_all add: T_def writable_def outbuf_def)
      have same: "T\<lparr>fd_out := x, fd_results := y\<rparr> = S\<lparr>fd_out := x, fd_results := y\<rparr>" for x y by (simp add: T_def fd_update_swap)
      have kn: "count + k \<le> n" using True kn' by simp
      have small: "n - (count + k) + length (fd_results T) < n - count + length (fd_results S)"
        using True at_once_bounds(2) [of "n - count" S] by (cases "fd_results S") (auto simp: k_def T_def accepts_def)
      have "n \<le> S_OutEnd T" using less.prems(3) w(3) by simp
      then obtain r m rs where IH: "PushBytes_loop n (count + k) T =
          Some (r, m, T\<lparr>fd_out := fd_out T @ take (m - (count + k)) (drop (count + k) (outbuf T)), fd_results := rs\<rparr>)"
        "count + k \<le> m" "m \<le> n" "r = STREAM_CLOSED \<or> r = 0 \<and> m = n"
        using less.hyps [OF small w(1) kn] by blast
      have "m - count = k + (m - (count + k))" using IH(2) by simp
      then have "take (m - count) (drop count (outbuf S)) = take k (drop count (outbuf S)) @ take (m - (count + k)) (drop (count + k) (outbuf S))"
        by (simp only: take_add drop_drop add.commute [of k count])
      then have "fd_out T @ take (m - (count + k)) (drop (count + k) (outbuf T)) = fd_out S @ take (m - count) (drop count (outbuf S))"
        by (simp add: w)
      then have "PushBytes_loop n count S = Some (r, m, S\<lparr>fd_out := fd_out S @ take (m - count) (drop count (outbuf S)), fd_results := rs\<rparr>)"
        using step IH(1) same by simp
      moreover have "count \<le> m" using IH(2) by simp
      ultimately show ?thesis using IH(3,4) by blast
    qed
  qed
qed

definition same_output :: "STREAM \<Rightarrow> STREAM \<Rightarrow> bool" where
  "same_output S S' \<longleftrightarrow> S_Flags S' = S_Flags S \<and> S_State S' = S_State S \<and> S_BuffSize S' = S_BuffSize S \<and> S_BlockSize S' = S_BlockSize S
     \<and> S_out_open S' = S_out_open S \<and> S_StartPoint S' \<le> S_StartPoint S \<and> S_InputBuff S' = S_InputBuff S \<and> S_InStart S' = S_InStart S
     \<and> S_InEnd S' = S_InEnd S \<and> fd_in S' = fd_in S"

lemma same_output_trans: "same_output S S' \<Longrightarrow> same_output S' S'' \<Longrightarrow> same_output S S''"
  by (simp add: same_output_def)

lemma InternalPushBytes_writes:
  assumes "writable S" "0 < S_OutEnd S"
  obtains r S' where "STREAMInternalPushBytes (S_OutEnd S) S = Some (r, S')" "fd_out S' @ outbuf S' = fd_out S @ outbuf S"
    "writable S'" "same_output S S'" "S_StartPoint S' = S_StartPoint S" "r = STREAM_CLOSED \<or> 0 < r \<and> S_OutEnd S' < S_OutEnd S"
    "\<not> has_flag (S_Flags S) FLUSH_BLOCK \<Longrightarrow> r \<noteq> STREAM_CLOSED \<Longrightarrow> S_OutEnd S' = 0" "S_OutEnd S' \<le> S_OutEnd S"
proof -
  let ?n = "if has_flag (S_Flags S) FLUSH_BLOCK then min (S_BlockSize S) (S_OutEnd S) else S_OutEnd S"
  have n: "0 < ?n" "?n \<le> S_OutEnd S" using assms by (auto simp: writable_def)
  obtain r m rs where loop: "PushBytes_loop ?n 0 S = Some (r, m, S\<lparr>fd_out := fd_out S @ take m (outbuf S), fd_results := rs\<rparr>)"
    "m \<le> ?n" "r = STREAM_CLOSED \<or> r = 0 \<and> m = ?n"
    using PushBytes_loop_writes [OF assms(1) _ n(2), of 0] by auto
  define buf where "buf = (if S_OutEnd S - m > 0 then drop m (outbuf S) @ drop (S_OutEnd S - m) (S_OutputBuff S) else S_OutputBuff S)"
  let ?S = "S\<lparr>fd_out := fd_out S @ take m (outbuf S), fd_results := rs, S_OutEnd := S_OutEnd S - m, S_OutputBuff := buf\<rparr>"
  have m: "m \<le> S_OutEnd S" using loop(2) n(2) by linarith
  have pk: "peek m (S_OutEnd S - m) (S_OutputBuff S) = Some (drop m (outbuf S))"
    using assms(1) m by (simp add: peek_def outbuf_def drop_take writable_def)
  have ln: "length (drop m (outbuf S)) = S_OutEnd S - m" using assms(1) by simp
  have mm: "(if S_OutEnd S - m > 0 then memmove 0 m (S_OutEnd S - m) (S_OutputBuff S) else Some (S_OutputBuff S)) = Some buf"
    using assms(1) unfolding memmove_def pk poke_def Option.bind.bind_lunit ln buf_def by (auto simp: writable_def)
  have "STREAMInternalPushBytes (S_OutEnd S) S = do {
      buf \<leftarrow> (if S_OutEnd S - m > 0 then memmove 0 m (S_OutEnd S - m) (S_OutputBuff S) else Some (S_OutputBuff S));
      Some (if r < 0 then r else int m, S\<lparr>fd_out := fd_out S @ take m (outbuf S), fd_results := rs, S_OutEnd := S_OutEnd S - m, S_OutputBuff := buf\<rparr>) }"
    using assms loop(1) unfolding STREAMInternalPushBytes_def Let_def by (simp add: writable_def)
  then have "STREAMInternalPushBytes (S_OutEnd S) S = Some (if r < 0 then r else int m, ?S)"
    unfolding mm by simp
  moreover have len: "length buf = S_BuffSize S" using assms(1) ln by (auto simp: buf_def writable_def)
  have "outbuf ?S = take (S_OutEnd S - m) buf" by (simp add: outbuf_def)
  then have "outbuf ?S = drop m (outbuf S)" using ln by (auto simp: buf_def)
  then have "fd_out ?S @ outbuf ?S = fd_out S @ outbuf S" by simp
  moreover have "writable ?S" using assms(1) len by (auto simp: writable_def)
  moreover have "same_output S ?S" by (simp add: same_output_def)
  ultimately show thesis using loop n by (intro that [of "if r < 0 then r else int m" ?S]) (auto simp: STREAM_CLOSED_def)
qed

lemma QueueBytes_loop_writes:
  assumes "writable S"
  shows "\<exists>r q S'. QueueBytes_loop d queued S = Some (r, S') \<and> q \<le> length d \<and> fd_out S' @ outbuf S' = fd_out S @ outbuf S @ take q d
    \<and> (r = STREAM_CLOSED \<or> r = int (queued + length d) \<and> q = length d) \<and> writable S' \<and> same_output S S'
    \<and> (r \<noteq> STREAM_CLOSED \<and> d \<noteq> [] \<and> has_flag (S_Flags S) FLUSH_ALWAYS \<and> \<not> has_flag (S_Flags S) FLUSH_BLOCK \<and> S_StartPoint S = 0 \<longrightarrow> outbuf S' = [])"
  using assms
proof (induction "2 * length d + (if S_OutEnd S = S_BuffSize S then 1 else 0)" arbitrary: S d queued rule: less_induct)
  case less
  let ?a = "min (S_BuffSize S - S_OutEnd S) (length d)"
  define buf where "buf = outbuf S @ take ?a d @ drop (S_OutEnd S + ?a) (S_OutputBuff S)"
  let ?T = "S\<lparr>S_OutputBuff := buf, S_OutEnd := S_OutEnd S + ?a\<rparr>"
  have pk: "poke (S_OutEnd S) (take ?a d) (S_OutputBuff S) = Some buf"
    using less.prems by (auto simp: poke_def buf_def writable_def outbuf_def)
  have len: "length buf = S_BuffSize S" using less.prems by (auto simp: buf_def writable_def outbuf_def)
  have T: "writable ?T" "same_output S ?T" using less.prems len by (auto simp: writable_def same_output_def)
  have "outbuf ?T = take (S_OutEnd S + ?a) buf" by (simp add: outbuf_def)
  then have out: "outbuf ?T = outbuf S @ take ?a d"
    using writable_length [OF less.prems] by (simp add: buf_def)
  have rest: "S_OutEnd ?T = S_BuffSize S" if "drop ?a d \<noteq> []" using that less.prems by (auto simp: writable_def)
  show ?case
  proof (cases "QueueBytes_flushes ?T")
    case False
    have fin: "drop ?a d = []"
    proof (rule ccontr)
      assume "drop ?a d \<noteq> []"
      then have "S_OutEnd ?T = S_BuffSize S" by (rule rest)
      with False less.prems show False by (simp add: QueueBytes_flushes_def writable_def)
    qed
    have "QueueBytes_loop d queued S = Some (int (queued + ?a), ?T)"
      using pk False fin by (subst QueueBytes_loop.simps) (simp add: Let_def)
    moreover have "?a = length d" using fin by (auto simp: min_def split: if_split_asm)
    moreover have "d = []" if "has_flag (S_Flags S) FLUSH_ALWAYS" "S_StartPoint S = 0" "outbuf ?T \<noteq> []"
      using that False out T(1) writable_length [OF T(1)] by (auto simp: QueueBytes_flushes_def)
    ultimately show ?thesis using out T
      by (intro exI [of _ "int (queued + length d)"] exI [of _ "length d"] exI [of _ ?T]) auto
  next
    case True
    have pos: "0 < S_OutEnd ?T" using True by (auto simp: QueueBytes_flushes_def)
    obtain r U where U: "STREAMInternalPushBytes (S_OutEnd ?T) ?T = Some (r, U)" "fd_out U @ outbuf U = fd_out ?T @ outbuf ?T"
      "writable U" "same_output ?T U" "S_StartPoint U = S_StartPoint ?T" "r = STREAM_CLOSED \<or> 0 < r \<and> S_OutEnd U < S_OutEnd ?T"
      "\<not> has_flag (S_Flags ?T) FLUSH_BLOCK \<Longrightarrow> r \<noteq> STREAM_CLOSED \<Longrightarrow> S_OutEnd U = 0" "S_OutEnd U \<le> S_OutEnd ?T"
      using InternalPushBytes_writes [OF T(1) pos] by metis
    show ?thesis
    proof (cases "r = STREAM_CLOSED")
      case closed: True
      have "QueueBytes_loop d queued S = Some (STREAM_CLOSED, U)"
        using pk True U(1) closed by (subst QueueBytes_loop.simps) (simp add: Let_def STREAM_CLOSED_def STREAM_TIMEOUT_def)
      then show ?thesis using U(2,3) out same_output_trans [OF T(2) U(4)]
        by (intro exI [of _ STREAM_CLOSED] exI [of _ ?a] exI [of _ U]) simp
    next
      case ok: False
      let ?V = "U\<lparr>S_StartPoint := 0\<rparr>"
      have V: "writable ?V" "outbuf ?V = outbuf U" "same_output S ?V" "fd_out ?V = fd_out U"
        using U(3) same_output_trans [OF T(2) U(4)] by (auto simp: writable_def outbuf_def same_output_def)
      have eq: "fd_out ?V @ outbuf ?V = fd_out S @ outbuf S @ take ?a d" using U(2) V(2,4) out by simp
      have step: "QueueBytes_loop d queued S = (if drop ?a d = [] then Some (int (queued + ?a), ?V) else QueueBytes_loop (drop ?a d) (queued + ?a) ?V)"
        using pk True U(1,6) ok by (subst QueueBytes_loop.simps) (auto simp: Let_def)
      show ?thesis
      proof (cases "drop ?a d = []")
        case empty: True
        then have a: "?a = length d" by (auto simp: min_def split: if_split_asm)
        have "outbuf ?V = []" if "\<not> has_flag (S_Flags S) FLUSH_BLOCK" using U(7) ok that V(2) by (auto simp: outbuf_def)
        then show ?thesis using step empty eq V a
          by (intro exI [of _ "int (queued + length d)"] exI [of _ "length d"] exI [of _ ?V]) auto
      next
        case more: False
        have U_small: "S_OutEnd ?V < S_BuffSize ?V" using U(4,6) ok rest [OF more] by (auto simp: same_output_def)
        have small: "2 * length (drop ?a d) + (if S_OutEnd ?V = S_BuffSize ?V then 1 else 0) < 2 * length d + (if S_OutEnd S = S_BuffSize S then 1 else 0)"
          using U_small more less.prems by (auto simp: writable_def)
        obtain r' q S' where IH: "QueueBytes_loop (drop ?a d) (queued + ?a) ?V = Some (r', S')" "q \<le> length (drop ?a d)"
          "fd_out S' @ outbuf S' = fd_out ?V @ outbuf ?V @ take q (drop ?a d)"
          "r' = STREAM_CLOSED \<or> r' = int (queued + ?a + length (drop ?a d)) \<and> q = length (drop ?a d)" "writable S'" "same_output ?V S'"
          "r' \<noteq> STREAM_CLOSED \<and> drop ?a d \<noteq> [] \<and> has_flag (S_Flags ?V) FLUSH_ALWAYS \<and> \<not> has_flag (S_Flags ?V) FLUSH_BLOCK \<and> S_StartPoint ?V = 0 \<longrightarrow> outbuf S' = []"
          using less.hyps [OF small V(1), of "queued + ?a"] by blast
        have flags: "S_Flags ?V = S_Flags S" using V(3) by (simp add: same_output_def)
        have "take ?a d @ take q (drop ?a d) = take (?a + q) d" by (simp add: take_add)
        then have all: "fd_out S' @ outbuf S' = fd_out S @ outbuf S @ take (?a + q) d"
          using IH(3) eq by (metis append.assoc)
        show ?thesis
          using step more IH(1,2,4,5,7) all same_output_trans [OF V(3) IH(6)] flags
          by (intro exI [of _ r'] exI [of _ "?a + q"] exI [of _ S']) auto
      qed
    qed
  qed
qed

section \<open>Writing and flushing\<close>

lemma writable_flags: "same_output S S' \<Longrightarrow> S_Flags S' = S_Flags S"
  by (simp add: same_output_def)

text \<open>
  What a writing operation promises: it returns, everything it took is on the descriptor or in the buffer, in
  order, and it took all unless it reports an error.
\<close>

definition delivers :: "STREAM \<Rightarrow> string \<Rightarrow> int \<Rightarrow> STREAM \<Rightarrow> bool" where
  "delivers S d r S' \<longleftrightarrow> (\<exists>q \<le> length d. fd_out S' @ outbuf S' = fd_out S @ outbuf S @ take q d \<and> (0 \<le> r \<longrightarrow> q = length d))
     \<and> writable S' \<and> same_output S S'"

lemma InternalPushBytes_delivers:
  assumes "writable S"
  obtains r S' where "STREAMInternalPushBytes (S_OutEnd S) S = Some (r, S')" "delivers S [] r S'"
    "0 \<le> r \<Longrightarrow> \<not> has_flag (S_Flags S) FLUSH_BLOCK \<Longrightarrow> outbuf S' = []" "S_OutEnd S' \<le> S_OutEnd S"
proof (cases "S_OutEnd S = 0")
  case False
  then have "0 < S_OutEnd S" by simp
  from InternalPushBytes_writes [OF assms this] show thesis
    by (metis that STREAM_CLOSED_def append_Nil2 delivers_def outbuf_def take0 take_Nil le0 list.size(3) less_irrefl
        neg_0_le_iff_le not_one_le_zero)
next
  case True
  have "PushBytes_loop 0 0 S = Some (0, 0, S)" by (subst PushBytes_loop.simps) simp
  then have "STREAMInternalPushBytes (S_OutEnd S) S = Some (0, S)"
    using assms True by (simp add: STREAMInternalPushBytes_def writable_def Let_def)
  moreover have "delivers S [] 0 S" using assms by (simp add: delivers_def same_output_def)
  ultimately show thesis using True by (intro that) (simp_all add: outbuf_def)
qed

lemma StreamFlush_delivers:
  assumes "writable S"
  shows "\<exists>r S'. StreamFlush S = Some (r, S') \<and> delivers S [] r S' \<and> (0 \<le> r \<and> \<not> has_flag (S_Flags S) FLUSH_BLOCK \<longrightarrow> outbuf S' = [])"
proof -
  obtain r T where T: "STREAMInternalPushBytes (S_OutEnd S) S = Some (r, T)" "delivers S [] r T"
    "0 \<le> r \<Longrightarrow> \<not> has_flag (S_Flags S) FLUSH_BLOCK \<Longrightarrow> outbuf T = []"
    using InternalPushBytes_delivers [OF assms] by metis
  let ?T = "if S_OutEnd T = 0 then T\<lparr>S_OutputBuff := replicate (length (S_OutputBuff T)) (CHR 0x00)\<rparr> else T"
  have "outbuf ?T = outbuf T" "fd_out ?T = fd_out T" by (simp_all add: outbuf_def)
  moreover have "writable ?T" "same_output S ?T" using T(2) by (auto simp: delivers_def writable_def same_output_def)
  moreover have "StreamFlush S = Some (r, ?T)" using T(1) by (simp add: StreamFlush_def)
  ultimately show ?thesis using T(2,3) by (intro exI [of _ r] exI [of _ ?T]) (auto simp: delivers_def simp del: if_split)
qed

lemma StreamWriteBytes_delivers:
  assumes "writable S"
  shows "\<exists>r S'. StreamWriteBytes d S = Some (r, S') \<and> delivers S d r S' \<and> (0 \<le> r \<longrightarrow> r = int (length d))
    \<and> (0 \<le> r \<and> has_flag (S_Flags S) FLUSH_ALWAYS \<and> \<not> has_flag (S_Flags S) FLUSH_BLOCK \<and> S_StartPoint S = 0 \<longrightarrow> outbuf S' = [])"
proof (cases "d = []")
  case False
  obtain r q S' where "QueueBytes_loop d 0 S = Some (r, S')" "q \<le> length d" "fd_out S' @ outbuf S' = fd_out S @ outbuf S @ take q d"
    "r = STREAM_CLOSED \<or> r = int (0 + length d) \<and> q = length d" "writable S'" "same_output S S'"
    "r \<noteq> STREAM_CLOSED \<and> d \<noteq> [] \<and> has_flag (S_Flags S) FLUSH_ALWAYS \<and> \<not> has_flag (S_Flags S) FLUSH_BLOCK \<and> S_StartPoint S = 0 \<longrightarrow> outbuf S' = []"
    using QueueBytes_loop_writes [OF assms, of d 0] by blast
  moreover from this have "StreamWriteBytes d S = Some (r, S')"
    using False assms by (auto simp: StreamWriteBytes_def writable_def STREAM_CLOSED_def)
  ultimately show ?thesis using False by (auto simp: delivers_def STREAM_CLOSED_def)
next
  case True
  show ?thesis
  proof (cases "S_StartPoint S < S_OutEnd S")
    case True
    obtain r S' where "STREAMInternalPushBytes (S_OutEnd S) S = Some (r, S')" "delivers S [] r S'"
      "0 \<le> r \<Longrightarrow> \<not> has_flag (S_Flags S) FLUSH_BLOCK \<Longrightarrow> outbuf S' = []"
      using InternalPushBytes_delivers [OF assms] by metis
    moreover from this have "StreamWriteBytes d S = Some (if r < 0 then r else 0, S')"
      using True \<open>d = []\<close> assms by (simp add: StreamWriteBytes_def writable_def)
    ultimately show ?thesis using \<open>d = []\<close> by (auto simp: delivers_def)
  next
    case False
    then have "StreamWriteBytes d S = Some (0, S)" using \<open>d = []\<close> assms by (simp add: StreamWriteBytes_def writable_def)
    with False \<open>d = []\<close> assms show ?thesis by (auto simp: delivers_def same_output_def outbuf_def)
  qed
qed

lemma StreamWriteLine_delivers:
  assumes "writable S"
  shows "\<exists>r S'. StreamWriteLine (Some d) S = Some (r, S') \<and> delivers S d r S'"
proof (cases "d = []")
  case True
  with assms show ?thesis by (auto simp: StreamWriteLine_def delivers_def same_output_def)
next
  case False
  obtain r T where T: "StreamWriteBytes d S = Some (r, T)" "delivers S d r T" using StreamWriteBytes_delivers [OF assms] by blast
  show ?thesis
  proof (cases "0 \<le> r \<and> has_flag (S_Flags T) FLUSH_LINE")
    case False
    with T \<open>d \<noteq> []\<close> show ?thesis by (auto simp: StreamWriteLine_def)
  next
    case True
    have "writable T" using T(2) by (simp add: delivers_def)
    then obtain r' S' where S': "StreamFlush T = Some (r', S')" "delivers T [] r' S'" using StreamFlush_delivers by blast
    have "delivers S d r' S'"
      using T(2) S'(2) True same_output_trans by (auto simp: delivers_def)
    with T(1) S'(1) True \<open>d \<noteq> []\<close> show ?thesis by (auto simp: StreamWriteLine_def)
  qed
qed

primrec write_all :: "(string \<Rightarrow> STREAM \<Rightarrow> (int \<times> STREAM) option) \<Rightarrow> string list \<Rightarrow> STREAM \<Rightarrow> (int list \<times> STREAM) option" where
  "write_all wr [] S = Some ([], S)"
| "write_all wr (d # ds) S = do { (r, S) \<leftarrow> wr d S; (rs, S) \<leftarrow> write_all wr ds S; Some (r # rs, S) }"

locale stream_writer =
  fixes wr :: "string \<Rightarrow> STREAM \<Rightarrow> (int \<times> STREAM) option"
  assumes wr_delivers: "writable S \<Longrightarrow> \<exists>r S'. wr d S = Some (r, S') \<and> delivers S d r S'"
begin

lemma all_written:
  assumes "writable S"
  shows "\<exists>rs S'. write_all wr ds S = Some (rs, S') \<and> writable S' \<and> same_output S S'
    \<and> ((\<forall>r\<in>set rs. 0 \<le> r) \<longrightarrow> fd_out S' @ outbuf S' = fd_out S @ outbuf S @ concat ds)"
  using assms
proof (induction ds arbitrary: S)
  case Nil
  then show ?case by (simp add: same_output_def)
next
  case (Cons d ds)
  obtain r T where T: "wr d S = Some (r, T)" "delivers S d r T" using wr_delivers [OF Cons.prems] by blast
  then have "writable T" by (simp add: delivers_def)
  then obtain rs S' where S': "write_all wr ds T = Some (rs, S')" "writable S'" "same_output T S'"
    "(\<forall>r\<in>set rs. 0 \<le> r) \<longrightarrow> fd_out S' @ outbuf S' = fd_out T @ outbuf T @ concat ds"
    using Cons.IH by blast
  have "same_output S S'" using T(2) S'(3) same_output_trans unfolding delivers_def by blast
  moreover have "fd_out T @ outbuf T = fd_out S @ outbuf S @ d" if "0 \<le> r" using T(2) that by (auto simp: delivers_def)
  then have "(\<forall>x\<in>set (r # rs). 0 \<le> x) \<longrightarrow> fd_out S' @ outbuf S' = fd_out S @ outbuf S @ concat (d # ds)"
    using S'(4) by (metis append.assoc concat.simps(2) list.set_intros)
  moreover have "write_all wr (d # ds) S = Some (r # rs, S')" using T(1) S'(1) by simp
  ultimately show ?case using S'(2) by blast
qed

lemma all_flushed:
  assumes "writable S" "\<not> has_flag (S_Flags S) FLUSH_BLOCK"
  shows "\<exists>rs r S' S''. write_all wr ds S = Some (rs, S') \<and> StreamFlush S' = Some (r, S'')
    \<and> ((\<forall>r\<in>set rs. 0 \<le> r) \<and> 0 \<le> r \<longrightarrow> fd_out S'' = fd_out S @ outbuf S @ concat ds \<and> outbuf S'' = [])"
proof -
  obtain rs S' where S': "write_all wr ds S = Some (rs, S')" "writable S'" "same_output S S'"
    "(\<forall>r\<in>set rs. 0 \<le> r) \<longrightarrow> fd_out S' @ outbuf S' = fd_out S @ outbuf S @ concat ds"
    using all_written [OF assms(1)] by blast
  obtain r S'' where S'': "StreamFlush S' = Some (r, S'')" "delivers S' [] r S''"
    "0 \<le> r \<and> \<not> has_flag (S_Flags S') FLUSH_BLOCK \<longrightarrow> outbuf S'' = []"
    using StreamFlush_delivers [OF S'(2)] by blast
  have "fd_out S'' @ outbuf S'' = fd_out S' @ outbuf S'" using S''(2) by (auto simp: delivers_def)
  moreover have "\<not> has_flag (S_Flags S') FLUSH_BLOCK" using S'(3) assms(2) by (simp add: writable_flags)
  ultimately have "(\<forall>r\<in>set rs. 0 \<le> r) \<and> 0 \<le> r \<longrightarrow> fd_out S'' = fd_out S @ outbuf S @ concat ds \<and> outbuf S'' = []"
    using S'(4) S''(3) by (metis append_Nil2)
  then show ?thesis using S'(1) S''(1) by blast
qed

end

interpretation bytes: stream_writer StreamWriteBytes
  by unfold_locales (use StreamWriteBytes_delivers in blast)

interpretation lines: stream_writer "\<lambda>d. StreamWriteLine (Some d)"
  by unfold_locales (rule StreamWriteLine_delivers)

section \<open>Properties\<close>


definition small_out :: "nat \<Rightarrow> cint \<Rightarrow> int list \<Rightarrow> STREAM" where
  "small_out n flags rs = STREAMSetFlushType flags 0 0 (STREAMReAllocBuffer n STREAM_zero)\<lparr>S_out_open := True, fd_results := rs\<rparr>"

lemma small_out_writable: "0 < n \<Longrightarrow> writable (small_out n FLUSH_ALWAYS rs)" "0 < n \<Longrightarrow> writable (small_out n FLUSH_LINE rs)"
  "outbuf (small_out n f rs) = []" "fd_out (small_out n f rs) = []" "S_Flags (small_out n f rs) = f" "S_StartPoint (small_out n f rs) = 0"
  "\<not> has_flag FLUSH_ALWAYS FLUSH_BLOCK" "has_flag FLUSH_ALWAYS FLUSH_ALWAYS" "\<not> has_flag FLUSH_LINE FLUSH_BLOCK"
  by (simp_all add: small_out_def writable_def outbuf_def STREAMReAllocBuffer_def STREAM_zero_def STREAMSetFlushType_def
      resized_def has_flag_def FLUSH_ALWAYS_def FLUSH_LINE_def FLUSH_BLOCK_def SF_NONBLOCK_def SF_MMAP_def)


text \<open>
  C17. Lines written with \<open>STREAMWriteLine\<close> and a \<open>STREAMFlush\<close> at the end, as the program writes its files: unless one
  of the calls reports an error, the descriptor has received exactly the lines, in order, after what was in the
  buffer before, and nothing is left in the buffer.
\<close>

theorem StreamWriteLine_flushed:
  assumes "writable S" "\<not> has_flag (S_Flags S) FLUSH_BLOCK"
  shows "\<exists>rs r S' S''. write_all (\<lambda>d. StreamWriteLine (Some d)) ds S = Some (rs, S') \<and> StreamFlush S' = Some (r, S'')
    \<and> ((\<forall>r\<in>set rs. 0 \<le> r) \<and> 0 \<le> r \<longrightarrow> fd_out S'' = fd_out S @ outbuf S @ concat ds \<and> outbuf S'' = [])"
  using lines.all_flushed [OF assms] .

lemma StreamWriteLine_flushed_witness:
  "\<exists>rs r S' S''. write_all (\<lambda>d. StreamWriteLine (Some d)) [''ab\<newline>'', ''cd''] (small_out 3 FLUSH_LINE [0, 1]) = Some (rs, S')
    \<and> StreamFlush S' = Some (r, S'') \<and> ((\<forall>r\<in>set rs. 0 \<le> r) \<and> 0 \<le> r \<longrightarrow> fd_out S'' = ''ab\<newline>cd'')"
proof -
  have "\<not> has_flag (S_Flags (small_out 3 FLUSH_LINE [0, 1])) FLUSH_BLOCK" by (simp add: small_out_writable)
  from StreamWriteLine_flushed [OF small_out_writable(2) this, of "[''ab\<newline>'', ''cd'']"]
  show ?thesis unfolding small_out_writable by (simp del: write_all.simps) blast
qed

text \<open>
  On a non-blocking stream \<open>STREAMWriteBytes\<close> loses data: when the buffer is full and the descriptor takes nothing,
  the data is dropped, neither written nor queued, and the call reports that all of it was written.
\<close>

theorem StreamWriteBytes_nonblock_drops:
  assumes "has_flag (S_Flags S) SF_NONBLOCK" "\<not> has_flag (S_Flags S) FLUSH_BLOCK" "S_out_open S"
    "S_Type S \<notin> {STREAM_TYPE_WS, STREAM_TYPE_WSS, STREAM_TYPE_WS_SERVICE}"
    "\<not> has_flag (S_State S) LU_SS_SSL" "\<not> has_flag (S_State S) LU_SS_WRITE_ERROR"
    "S_StartPoint S < S_OutEnd S" "S_OutEnd S = S_BuffSize S" "length (S_OutputBuff S) = S_BuffSize S" "fd_results S = 0 # rs"
  shows "StreamWriteBytes d S = Some (int (length d), S\<lparr>fd_results := rs\<rparr>)"
proof -
  let ?S = "S\<lparr>fd_results := rs\<rparr>"
  have "PushBytes_loop (S_OutEnd S) 0 S = Some (0, 0, ?S)"
    using assms by (subst PushBytes_loop.simps) (simp add: peek_def STREAMBasicSendBytes_def STREAM_TIMEOUT_def Let_def)
  moreover have "memmove 0 0 (S_OutEnd S) (S_OutputBuff S) = Some (S_OutputBuff S)"
    using assms by (simp add: memmove_def peek_def poke_def)
  ultimately have push: "STREAMInternalPushBytes (S_OutEnd S) S = Some (0, ?S)"
    using assms by (simp add: STREAMInternalPushBytes_def Let_def)
  have full: "poke (S_OutEnd S) [] (S_OutputBuff S) = Some (S_OutputBuff S)" using assms by (simp add: poke_def)
  have flush: "QueueBytes_flushes S" using assms by (simp add: QueueBytes_flushes_def)
  have room: "min (S_BuffSize S - S_OutEnd S) (length d) = 0" using assms(8) by simp
  have "QueueBytes_loop d 0 S = Some (0, ?S)"
    by (subst QueueBytes_loop.simps) (simp add: room push full flush Let_def)
  then show ?thesis using assms(3,6,7) push by (simp add: StreamWriteBytes_def)
qed

lemma StreamWriteBytes_nonblock_drops_witness:
  "StreamWriteBytes ''lost'' (small_out 1 SF_NONBLOCK [0]\<lparr>S_OutEnd := 1\<rparr>) = Some (4, small_out 1 SF_NONBLOCK []\<lparr>S_OutEnd := 1\<rparr>)"
proof -
  let ?S = "small_out 1 SF_NONBLOCK [0]\<lparr>S_OutEnd := 1\<rparr>"
  have "StreamWriteBytes ''lost'' ?S = Some (int (length ''lost''), ?S\<lparr>fd_results := []\<rparr>)"
    by (rule StreamWriteBytes_nonblock_drops)
      (simp_all add: small_out_def STREAMReAllocBuffer_def STREAM_zero_def STREAMSetFlushType_def
        resized_def has_flag_def FLUSH_ALWAYS_def FLUSH_LINE_def FLUSH_BLOCK_def FLUSH_BUFFER_def SF_NONBLOCK_def SF_MMAP_def)
  then show ?thesis by (simp add: small_out_def STREAMReAllocBuffer_def STREAM_zero_def STREAMSetFlushType_def)
qed

end
