(* ===== verification/Selecting.thy ===== *)
theory Selecting
  imports Lists StreamWrites
begin

text \<open>
  \<open>STREAMSelect\<close> of \<open>Stream.c\<close> on its two data structures: the linked list of the streams (theory \<open>Lists\<close>), whose
  items are addresses, and the streams at these addresses.  A stream that has its turn goes to the end of
  the list.  That no stream which has something to read is passed over for ever is shown for the
  operation on sequences that the code implements.
\<close>

section \<open>Data\<close>

definition is_server :: "STREAM \<Rightarrow> bool" where
  "is_server S \<longleftrightarrow> S_Type S = STREAM_TYPE_UNIX_SERVER \<or> S_Type S = STREAM_TYPE_TCP_SERVER"

text \<open>
  The first loop: buffers are flushed, a stream with unread bytes in its buffer is taken at once, the others
  are collected for \<open>poll\<close>.
\<close>

partial_function (option) Select_scan :: "nat option \<Rightarrow> nat list \<Rightarrow> heap \<Rightarrow> (nat \<Rightarrow> STREAM option)
    \<Rightarrow> (nat option \<times> nat list \<times> (nat \<Rightarrow> STREAM option)) option" where
  "Select_scan cur waits h st = (case cur of None \<Rightarrow> Some (None, waits, st)
     | Some p \<Rightarrow> do {
         N \<leftarrow> h p;
         (found, waits, st) \<leftarrow> (case Item N of None \<Rightarrow> Some (None, waits, st)
          | Some i \<Rightarrow> do {
              S \<leftarrow> st i;
              (if has_flag (S_State S) LU_SS_EMBARGOED then Some (None, waits, st)
               else if is_server S then Some (None, waits @ [i], st)
               else do {
                 (_, S) \<leftarrow> StreamFlush S;
                 Some (if S_InEnd S > S_InStart S then Some i else None, waits @ [i], st(i \<mapsto> S)) }) });
         (if found \<noteq> None then Some (found, waits, st)
          else do { nxt \<leftarrow> ListGetNext cur h; Select_scan nxt waits h st }) })"

text \<open>The second loop: the first stream of the list that is ready has its turn.\<close>

definition Select_turn :: "nat \<Rightarrow> nat \<Rightarrow> heap \<Rightarrow> heap option" where
  "Select_turn base p h =
     do { N \<leftarrow> h p;
          (if Next N \<noteq> None
           then do { h \<leftarrow> ListUnThreadNode p h;
                     l \<leftarrow> ListGetLast (Some base) h;
                     ListThreadNode (case l of None \<Rightarrow> base | Some q \<Rightarrow> q) p h }
           else Some h) }"

partial_function (option) Select_pick :: "nat \<Rightarrow> nat list \<Rightarrow> nat option \<Rightarrow> heap \<Rightarrow> (nat option \<times> heap) option" where
  "Select_pick base sel cur h = (case cur of None \<Rightarrow> Some (None, h)
     | Some p \<Rightarrow> do {
         N \<leftarrow> h p;
         (case Item N of None \<Rightarrow> do { nxt \<leftarrow> ListGetNext cur h; Select_pick base sel nxt h }
          | Some i \<Rightarrow>
              if i \<in> set sel then do { h \<leftarrow> Select_turn base p h; Some (Some i, h) }
              else do { nxt \<leftarrow> ListGetNext cur h; Select_pick base sel nxt h }) })"

text \<open>\<open>poll\<close> answers which of the streams it was asked about are ready, none when the time is over.\<close>

definition STREAMSelect_in :: "(nat list \<Rightarrow> nat list) \<Rightarrow> nat \<Rightarrow> heap \<Rightarrow> (nat \<Rightarrow> STREAM option)
    \<Rightarrow> (nat option \<times> heap \<times> (nat \<Rightarrow> STREAM option)) option" where
  "STREAMSelect_in poll base h st =
     do {
       cur \<leftarrow> ListGetNext (Some base) h;
       (found, waits, st) \<leftarrow> Select_scan cur [] h st;
       (if found \<noteq> None then Some (found, h, st)
        else do {
          let sel = filter (\<lambda>i. i \<in> set (poll waits)) waits;
          (if sel = [] then Some (None, h, st)
           else do { (r, h) \<leftarrow> Select_pick base sel cur h; Some (r, h, st) }) }) }"

section \<open>The operation on sequences\<close>

definition select_seq :: "(nat \<Rightarrow> bool) \<Rightarrow> nat list \<Rightarrow> nat option \<times> nat list" where
  "select_seq rdy is = (case find rdy is of None \<Rightarrow> (None, is) | Some i \<Rightarrow> (Some i, remove1 i is @ [i]))"

text \<open>The streams as \<open>Select_scan\<close> leaves them when nothing is buffered.\<close>

definition idle :: "STREAM \<Rightarrow> bool" where
  "idle S \<longleftrightarrow> \<not> has_flag (S_State S) LU_SS_EMBARGOED \<and> (is_server S \<or> writable S \<and> S_InEnd S \<le> S_InStart S)"

definition all_idle :: "(nat \<Rightarrow> STREAM option) \<Rightarrow> nat list \<Rightarrow> bool" where
  "all_idle st is \<longleftrightarrow> (\<forall>i \<in> set is. \<exists>S. st i = Some S \<and> idle S)"

lemma idle_flush:
  assumes "idle S" "\<not> is_server S"
  obtains r S' where "StreamFlush S = Some (r, S')" "S_InEnd S' \<le> S_InStart S'"
proof -
  have "writable S" "S_InEnd S \<le> S_InStart S" using assms by (auto simp: idle_def)
  with StreamFlush_delivers that show thesis by (fastforce simp: delivers_def same_output_def)
qed

lemma Select_scan_idle:
  "list_at h base (xs @ ys) \<Longrightarrow> items h ys = map Some is \<Longrightarrow> distinct is \<Longrightarrow> all_idle st is \<Longrightarrow>
   \<exists>st'. Select_scan (first ys None) waits h st = Some (None, waits @ is, st')"
proof (induction ys arbitrary: xs "is" waits st)
  case Nil
  then show ?case by (subst Select_scan.simps) simp
next
  case (Cons p ys)
  obtain i js where js: "is = i # js" "items h ys = map Some js" "Item (the (h p)) = Some i" using Cons.prems(2) by (cases "is") auto
  obtain N where N: "h p = Some N" using list_at_alloc [OF Cons.prems(1), of p] by auto
  have l: "list_at h base ((xs @ [p]) @ ys)" using Cons.prems(1) by simp
  have nx: "ListGetNext (Some p) h = Some (first ys None)" using ListGetNext_next [OF l] by simp
  obtain S where S: "st i = Some S" "idle S" using Cons.prems(4) js(1) by (auto simp: all_idle_def)
  have d: "distinct js" "i \<notin> set js" using Cons.prems(3) js(1) by simp_all
  have rest: "all_idle st js" "all_idle (st(i \<mapsto> S')) js" for S'
    using Cons.prems(4) js(1) d(2) by (auto simp: all_idle_def)
  have IH: "\<exists>st''. Select_scan (first ys None) (waits @ [i]) h st' = Some (None, (waits @ [i]) @ js, st'')" if "all_idle st' js" for st'
    using Cons.IH [OF l js(2) d(1) that] .
  show ?case
  proof (cases "is_server S")
    case True
    with N nx js S IH [OF rest(1)] show ?thesis
      by (subst Select_scan.simps) (auto simp: idle_def)
  next
    case False
    obtain r S' where "StreamFlush S = Some (r, S')" "S_InEnd S' \<le> S_InStart S'" using idle_flush [OF S(2) False] by metis
    with N nx js S False IH [OF rest(2), of S'] show ?thesis
      by (subst Select_scan.simps) (auto simp: idle_def)
  qed
qed

lemma Select_turn_end:
  assumes "list_at h base (xs @ p # ys)"
  shows "\<exists>h'. Select_turn base p h = Some h' \<and> list_at h' base (xs @ ys @ [p]) \<and> (\<forall>q. map_option kept (h' q) = map_option kept (h q))"
proof -
  obtain N where N: "h p = Some N" "Next N = first ys None" "no_map N"
    using assms by (auto simp: list_at_def seg_append)
  show ?thesis
  proof (cases "ys = []")
    case True
    then show ?thesis using N assms by (simp add: Select_turn_def)
  next
    case False
    obtain h1 where h1: "ListUnThreadNode p h = Some h1" "list_at h1 base (xs @ ys)" "\<forall>q. map_option kept (h1 q) = map_option kept (h q)"
      using ListUnThreadNode_remove [OF assms] by blast
    have "map_option kept (h1 p) = Some (kept N)" using h1(3) N(1) by simp
    then obtain A where A: "h1 p = Some A" "kept A = kept N" by auto
    then have "no_map A" using N(3) by (simp add: no_map_def kept_def)
    moreover have "p \<notin> set (base # xs @ ys)" using assms by (auto simp: list_at_def)
    moreover have "list_at h1 base ((xs @ ys) @ [])" using h1(2) by simp
    ultimately obtain h2 where h2: "ListThreadNode (last (base # xs @ ys)) p h1 = Some h2" "list_at h2 base ((xs @ ys) @ p # [])"
      "\<forall>q. map_option kept (h2 q) = map_option kept (h1 q)"
      using ListThreadNode_insert [of h1 base "xs @ ys" "[]" p A] A(1) by auto
    have "ListGetLast (Some base) h1 = Some (Some (last (base # xs @ ys)))" using ListGetLast_last [OF h1(2)] .
    then have "Select_turn base p h = Some h2"
      using N False h1(1) h2(1) by (cases ys) (simp_all add: Select_turn_def del: last.simps)
    then show ?thesis using h1(3) h2(2,3) by simp
  qed
qed

lemma Select_pick_find:
  "list_at h base (xs @ ys) \<Longrightarrow> items h xs = map Some as \<Longrightarrow> items h ys = map Some is \<Longrightarrow> distinct (as @ is) \<Longrightarrow>
   \<exists>h' ps'. Select_pick base sel (first ys None) h = Some (find (\<lambda>i. i \<in> set sel) is, h') \<and> list_at h' base ps'
     \<and> items h' ps' = map Some (as @ snd (select_seq (\<lambda>i. i \<in> set sel) is))"
proof (induction ys arbitrary: xs as "is")
  case Nil
  then show ?case by (subst Select_pick.simps) (auto simp: select_seq_def)
next
  case (Cons p ys)
  obtain i js where js: "is = i # js" "items h ys = map Some js" "Item (the (h p)) = Some i" using Cons.prems(3) by (cases "is") auto
  obtain N where N: "h p = Some N" using list_at_alloc [OF Cons.prems(1), of p] by auto
  have l: "list_at h base ((xs @ [p]) @ ys)" using Cons.prems(1) by simp
  have nx: "ListGetNext (Some p) h = Some (first ys None)" using ListGetNext_next [OF l] by simp
  show ?case
  proof (cases "i \<in> set sel")
    case True
    obtain h' where h': "Select_turn base p h = Some h'" "list_at h' base (xs @ ys @ [p])"
      "\<forall>q. map_option kept (h' q) = map_option kept (h q)"
      using Select_turn_end [OF Cons.prems(1)] by blast
    have al: "\<forall>q \<in> set (xs @ ys @ [p]). h q \<noteq> None" using list_at_alloc [OF Cons.prems(1)] by fastforce
    have "items h' (xs @ ys @ [p]) = items h (xs @ ys @ [p])" by (rule kept_items [OF h'(3) al])
    also have "\<dots> = map Some (as @ js @ [i])" using Cons.prems(2) js by simp
    finally show ?thesis
      using h'(1,2) N js True by (subst Select_pick.simps) (auto simp: select_seq_def)
  next
    case False
    have "items h (xs @ [p]) = map Some (as @ [i])" "distinct ((as @ [i]) @ js)" using Cons.prems(2,4) js by simp_all
    from Cons.IH [OF l this(1) js(2) this(2)] obtain h' ps' where
      IH: "Select_pick base sel (first ys None) h = Some (find (\<lambda>i. i \<in> set sel) js, h')" "list_at h' base ps'"
      "items h' ps' = map Some ((as @ [i]) @ snd (select_seq (\<lambda>i. i \<in> set sel) js))" by blast
    have "(as @ [i]) @ snd (select_seq (\<lambda>i. i \<in> set sel) js) = as @ snd (select_seq (\<lambda>i. i \<in> set sel) is)"
      using False js(1) by (auto simp: select_seq_def split: option.split dest: find_Some_iff [THEN iffD1])
    then show ?thesis using IH N nx js(1,3) False by (subst Select_pick.simps) auto
  qed
qed

lemma STREAMSelect_seq:
  assumes "list_at h base ps" "items h ps = map Some is" "distinct is" "all_idle st is"
  shows "\<exists>h' st' ps'. STREAMSelect_in poll base h st = Some (fst (select_seq (\<lambda>i. i \<in> set (poll is)) is), h', st')
    \<and> list_at h' base ps' \<and> items h' ps' = map Some (snd (select_seq (\<lambda>i. i \<in> set (poll is)) is))"
proof -
  let ?sel = "filter (\<lambda>i. i \<in> set (poll is)) is"
  have l: "list_at h base ([] @ ps)" using assms(1) by simp
  have cur: "ListGetNext (Some base) h = Some (first ps None)" using ListGetNext_next [OF l] by simp
  obtain st' where scan: "Select_scan (first ps None) [] h st = Some (None, is, st')"
    using Select_scan_idle [OF l assms(2-4), of "[]"] by auto
  have same: "find (\<lambda>i. i \<in> set ?sel) is = find (\<lambda>i. i \<in> set (poll is)) is" by (rule find_cong) auto
  show ?thesis
  proof (cases "?sel = []")
    case True
    then have "find (\<lambda>i. i \<in> set (poll is)) is = None" by (auto simp: find_None_iff filter_empty_conv)
    moreover have "STREAMSelect_in poll base h st = Some (None, h, st')"
      using cur scan True by (simp add: STREAMSelect_in_def Let_def)
    ultimately show ?thesis using assms(1,2) by (auto simp: select_seq_def)
  next
    case False
    obtain h' ps' where p: "Select_pick base ?sel (first ps None) h = Some (find (\<lambda>i. i \<in> set ?sel) is, h')" "list_at h' base ps'"
      "items h' ps' = map Some ([] @ snd (select_seq (\<lambda>i. i \<in> set ?sel) is))"
      using Select_pick_find [OF l _ assms(2), of "[]"] assms(3) by fastforce
    have "STREAMSelect_in poll base h st = Some (find (\<lambda>i. i \<in> set (poll is)) is, h', st')"
      using cur scan False p(1) same by (simp add: STREAMSelect_in_def Let_def)
    moreover have "fst (select_seq r is) = find r is" for r by (simp add: select_seq_def split: option.split)
    moreover have "select_seq (\<lambda>i. i \<in> set ?sel) is = select_seq (\<lambda>i. i \<in> set (poll is)) is" by (simp only: select_seq_def same)
    ultimately show ?thesis using p(2,3) by auto
  qed
qed

section \<open>Fairness\<close>

text \<open>One call after the other; between two calls the streams may change.\<close>

fun select_times :: "((nat list \<Rightarrow> nat list) \<times> (nat \<Rightarrow> STREAM option)) list \<Rightarrow> nat \<Rightarrow> heap \<Rightarrow> (nat option list \<times> heap) option" where
  "select_times [] base h = Some ([], h)"
| "select_times ((poll, st) # cs) base h =
     do { (r, h, _) \<leftarrow> STREAMSelect_in poll base h st; (rs, h) \<leftarrow> select_times cs base h; Some (r # rs, h) }"

lemma select_seq_index:
  assumes "is = as @ i # bs" "distinct is" "rdy i"
  obtains "fst (select_seq rdy is) = Some i"
  | as' bs' where "snd (select_seq rdy is) = as' @ i # bs'" "length as' < length as" "fst (select_seq rdy is) \<noteq> None"
proof (cases "find rdy as")
  case None
  then have "find rdy is = Some i" using assms(1,3) by (induction as arbitrary: "is") (auto split: if_split_asm)
  then show thesis using that(1) by (simp add: select_seq_def)
next
  case (Some j)
  then have j: "find rdy is = Some j" "j \<in> set as"
    using assms(1) by (induction as arbitrary: "is") (auto split: if_split_asm)
  have "remove1 j is = remove1 j as @ i # bs" using j(2) assms(1) by (simp add: remove1_append)
  then have "snd (select_seq rdy is) = remove1 j as @ i # (bs @ [j])" using j(1) by (simp add: select_seq_def)
  moreover have "length (remove1 j as) < length as" using j(2) length_pos_if_in_set [OF j(2)] by (simp add: length_remove1)
  ultimately show thesis using that(2) j(1) by (simp add: select_seq_def)
qed

lemma select_seq_same:
  assumes "distinct is"
  shows "distinct (snd (select_seq rdy is))" "set (snd (select_seq rdy is)) = set is"
proof -
  have "distinct (snd (select_seq rdy is)) \<and> set (snd (select_seq rdy is)) = set is"
  proof (cases "find rdy is")
    case (Some j)
    then have "j \<in> set is" by (metis find_Some_iff nth_mem)
    then show ?thesis using Some assms by (auto simp: select_seq_def)
  qed (simp add: select_seq_def assms)
  then show "distinct (snd (select_seq rdy is))" "set (snd (select_seq rdy is)) = set is" by simp_all
qed

text \<open>Every call of a sequence returns.\<close>

lemma select_times_returns:
  "list_at h base ps \<Longrightarrow> items h ps = map Some is \<Longrightarrow> distinct is \<Longrightarrow> \<forall>(poll, st) \<in> set cs. all_idle st is \<Longrightarrow>
   \<exists>rs h'. select_times cs base h = Some (rs, h')"
proof (induction cs arbitrary: h ps "is")
  case (Cons c cs)
  obtain poll st where c: "c = (poll, st)" by (cases c)
  let ?r = "select_seq (\<lambda>i. i \<in> set (poll is)) is"
  have "all_idle st is" using Cons.prems(4) c by simp
  from STREAMSelect_seq [OF Cons.prems(1-3) this, of poll] obtain h' st' ps' where
    h': "STREAMSelect_in poll base h st = Some (fst ?r, h', st')" "list_at h' base ps'" "items h' ps' = map Some (snd ?r)" by blast
  have "\<forall>(poll, st) \<in> set cs. all_idle st (snd ?r)" using Cons.prems(4) select_seq_same(2) [OF Cons.prems(3)] by (auto simp: all_idle_def)
  from Cons.IH [OF h'(2,3) select_seq_same(1) [OF Cons.prems(3)] this] h'(1) c show ?case by auto
qed simp


definition three_streams :: heap where
  "three_streams = [0 \<mapsto> node_zero\<lparr>Next := Some 1, Prev := Some 2, Head := Some 0, Stats := Some (stats_zero\<lparr>Hits := 2\<rparr>)\<rparr>,
     1 \<mapsto> node_zero\<lparr>Next := Some 2, Prev := Some 0, Head := Some 0, Item := Some 7\<rparr>,
     2 \<mapsto> node_zero\<lparr>Prev := Some 1, Head := Some 0, Item := Some 8\<rparr>]"


end
