(* ===== verification/Spec2Isabelle.thy ===== *)
theory Spec2Isabelle
  imports VpnMain Vars StreamReads Selecting
begin

text \<open>
  A model of \<open>vpn_mgr\<close>, a command line program that sets up virtual private networks: it reads a saved
  configuration or a URL, runs the programs that build the tunnel (\<open>ip\<close>, \<open>wg\<close>, \<open>openvpn\<close>, \<open>ssh\<close>,
  \<open>pppd\<close>) as root, through \<open>sudo\<close> or \<open>su\<close> where it has to, watches what they print, sets routes and name
  servers, and takes everything down again.  It is also a server that accepts TLS clients and gives each a
  \<open>pppd\<close> of its own.

  \<^bold>\<open>How the parts interact.\<close>  \<open>main\<close> parses the command line into a context (\<open>TVpn\<close>), looks up the
  programs, and runs one action on the context.  Every protocol calls \<open>run_command.c\<close> for its programs,
  \<open>tuntap.c\<close> or \<open>ppp.c\<close> for the device, and \<open>updown.c\<close> when the link is up, which calls \<open>net.c\<close>,
  \<open>route.c\<close> and \<open>resolv.c\<close>.  The only handler of signals asks the program to exit and kills the active
  ssh client.

  \<^bold>\<open>The string layer\<close> computes on values; undefined behaviour of C is \<^term>\<open>None\<close>.
  \<^item> \<open>VpnPrelude\<close>: characters, machine integers, the C library's functions on strings, lemma collections.
  \<^item> \<open>CStrings\<close> and \<open>Tokenizer\<close>: \<open>String.c\<close>, \<open>GeneralFunctions.c\<close>, \<open>Unicode.c\<close>, \<open>Tokenizer.c\<close> and
    \<open>StringList.c\<close> of \<open>libUseful-bundled\<close>.  The lemmas show that a call of \<open>GetToken\<close> always moves on, so
    that the loops over tokens end, that splitting inverts joining, that \<open>InStringList\<close> is membership and
    \<open>StringListToUnique\<close> the removal of repeated items.
  \<^item> \<open>PlainTokens\<close>: what the tokenizer does on text without quotes and backslashes, which the other theories use.
  \<^item> \<open>Duration\<close> (\<open>Time.c\<close>, \<open>ParseDuration\<close>) and \<open>URL\<close> (\<open>URL.c\<close>): sums of units in 64 bits, URLs round trip.

  \<^bold>\<open>The process\<close> is a state monad over a \<open>world\<close> (theory \<open>World\<close>): the global variables, the open streams,
  whether the process still runs, and the trace of everything it did to the outside.  The surroundings
  (files, programs, network, user) are the record \<open>system\<close>, a parameter whose answers may depend on the
  whole trace.  The locale \<open>effects\<close> states what has to be shown of the single effects for a property to
  be kept by every operation of the program, and \<open>monitor\<close> extends it by changes of the flags; they are
  interpreted for: a stopped process does nothing, the trace only grows, a request to exit is never
  withdrawn, streams only shrink, \<open>sudo\<close> that was given up stays given up, the surroundings do not change.
  Each component adds its operations inside the locale.

  \<^bold>\<open>The components\<close>, one theory for each file of \<open>src\<close>:
  \<^item> \<open>VpnCtx\<close> (\<open>vpn_ctx.c\<close>): the context; its fields after creation, and what its destruction frees.
  \<^item> \<open>CommandLine\<close> (\<open>command_line.c\<close>, \<open>CommandLineParser.c\<close>): from arguments to a context and flags.
  \<^item> \<open>VpnConfig\<close> and \<open>ConfigFiles\<close> (\<open>vpn_config.c\<close>): the text of a configuration, and the files: what is
    saved is read back, whatever pieces the file is delivered in.
  \<^item> \<open>Common\<close> (\<open>common.c\<close>, parts of \<open>FileSystem.c\<close>): logging, reading files, finding programs; the loops over
    the lines of a file and the tokens of a list are folds.
  \<^item> \<open>RunCommand\<close> (\<open>run_command.c\<close>): finding, starting and watching programs as root, with passwords.
  \<^item> \<open>Route\<close>, \<open>Resolv\<close>, \<open>Net\<close>, \<open>TunTap\<close>, \<open>UpDown\<close>: the tables of the kernel and the commands that change them.
  \<^item> \<open>Ppp\<close>, \<open>Ssh\<close>, \<open>PppSsh\<close>, \<open>SslClient\<close>, \<open>SslServer\<close>, \<open>OpenVpn\<close>, \<open>Wireguard\<close>: the protocols.  The relay of
    \<open>ppp.c\<close> loses no byte and ends; the server admits exactly whom the specification \<open>ssl_admits\<close> admits, and
    stops when it is told to; devices are reported as made only when the kernel lists them.
  \<^item> \<open>Lists\<close> and \<open>NamedLists\<close> (\<open>List.c\<close> of \<open>libUseful-bundled\<close>): the doubly linked lists over a heap of
    nodes.  The other theories use sequences where the code uses such lists; adding, deleting, indexing and
    finding by name are shown to implement the operations on sequences, with the links, the pointer to the
    last node and the count kept right.
  \<^item> \<open>Help\<close> and \<open>VpnMain\<close> (\<open>help.c\<close>, \<open>main.c\<close>): the texts, and the whole program \<open>vpn_mgr\<close>.

  \<^bold>\<open>Fuel.\<close>  The loops that read a stream until it ends (\<open>while_read\<close>) take as many rounds as the stream has
  characters and inputs pending; the theory \<open>World\<close> shows that more never changes the result, because every
  read that succeeds makes the stream smaller and nothing makes it larger.  The relay of \<open>ppp.c\<close> and the loop
  of the TLS server wait for events and may run for ever; their number of rounds \<open>n\<close> is a parameter, and the
  theorems about them hold for every \<open>n\<close>.  That they end is proved where it is true: for the relay as
  long as something is ready, for the server after an interrupt.

  The loops of \<open>Stream.c\<close> have no fuel: they are partial functions whose value is \<^term>\<open>None\<close> when they do not end
  or leave a buffer, and the theorems state that they return.

  \<^bold>\<open>Not modelled.\<close>  \<open>SpawnPrograms.c\<close>, \<open>Terminal.c\<close>, \<open>Server.c\<close> and \<open>OpenSSL.c\<close> are the interface to the
  surroundings.  Of \<open>Stream.c\<close> the opening and closing of descriptors, seeking, copying files, TLS, UDP and websockets
  and compression are left out; the operations on a \<open>world\<close> take what is read and written as events.  Of \<open>Vars.c\<close>
  variables that expire and the substitution into strings are left out.  Of \<open>List.c\<close> the maps, the
  ordered lists and those with a time limit, sorting, joining and cloning are left out; the code of the program uses none
  of them.  The rest of \<open>libUseful\<close> (HTTP, parsers, hashes, terminal keys, seccomp) is not called by the
  program.  Memory is modelled only where the program misuses it: \<open>NULL\<close> pointers, strings freed twice, a stream used
  after it was closed.  Process groups, terminal modes and the disposition of signals are left out.
\<close>

end
